(* ===== verification/Mal_Prelude.thy ===== *)
theory Mal_Prelude
  imports Main "HOL-Library.Word"
begin

unbundle bit_operations_syntax

text \<open>
  Shared ground of the development: the machine integers of the LP64 little-endian
  target, the ways a run of the C program can stop early, the result type that carries
  them, and counted loops. Everything here is generic; no definition of this theory
  translates a line of the loader.

  \<^item> A value of type \<open>'a res\<close> is either \<open>Ok x\<close> or \<open>Fault e\<close>. A fault is a run that the
    C standard or the operating system ends: an access outside every mapped object, a
    shift by the width of the type or more, a signed overflow, a write through a failed
    allocation, or a call of \<open>exit\<close>.
  \<^item> \<open>for_upto i n body\<close> is the counted loop \<^verbatim>\<open>for (; i < n; i++) body\<close>.
    \<open>for_below\<close> is the one that reads its bound again before every iteration.
  \<^item> The collection \<open>res_simps\<close> holds the equations that unfold sequencing.
\<close>

section \<open>Machine integers and addresses\<close>

type_synonym byte = "8 word"
type_synonym u16 = "16 word"
type_synonym u32 = "32 word"
type_synonym u64 = "64 word"
type_synonym addr = "64 word"
type_synonym cstr = "byte list"

text \<open>The bytes of a C string literal, without its terminating zero byte.\<close>

definition lit :: "string \<Rightarrow> cstr" where
  "lit s = map of_char s"

section \<open>Faults and results\<close>

datatype fault =
    Bad_Access addr
  | Bad_Shift nat
  | Signed_Overflow
  | Null_Alloc
  | Exit_Program int

type_synonym 'a res = "fault + 'a"

abbreviation Ok :: "'a \<Rightarrow> 'a res" where "Ok \<equiv> Inr"
abbreviation Fault :: "fault \<Rightarrow> 'a res" where "Fault \<equiv> Inl"

named_theorems res_simps \<open>equations that unfold sequencing of results\<close>

definition res_bind :: "'a res \<Rightarrow> ('a \<Rightarrow> 'b res) \<Rightarrow> 'b res" where
  "res_bind r f = (case r of Inl e \<Rightarrow> Inl e | Inr x \<Rightarrow> f x)"

lemma res_bind_Ok [simp, res_simps]: "res_bind (Ok x) f = f x"
  by (simp add: res_bind_def)

lemma res_bind_Fault [simp, res_simps]: "res_bind (Fault e) f = Fault e"
  by (simp add: res_bind_def)

lemma res_bind_Ok_right [simp]: "res_bind r Ok = r"
  by (simp add: res_bind_def split: sum.splits)

lemma res_bind_eq_Ok: "res_bind r f = Ok y \<longleftrightarrow> (\<exists>x. r = Ok x \<and> f x = Ok y)"
  by (simp add: res_bind_def split: sum.splits)

lemma res_bind_eq_Fault:
  "res_bind r f = Fault e \<longleftrightarrow> r = Fault e \<or> (\<exists>x. r = Ok x \<and> f x = Fault e)"
  by (auto simp: res_bind_def split: sum.splits)

lemma res_bind_okE [elim]:
  assumes "res_bind r f = Ok y"
  obtains x where "r = Ok x" and "f x = Ok y"
  using assms by (auto simp: res_bind_eq_Ok)

lemma res_bind_assoc [res_simps]:
  "res_bind (res_bind r f) g = res_bind r (\<lambda>x. res_bind (f x) g)"
  by (simp add: res_bind_def split: sum.splits)

lemma res_bind_cong [fundef_cong]:
  "r = r' \<Longrightarrow> (\<And>x. r' = Ok x \<Longrightarrow> f x = g x) \<Longrightarrow> res_bind r f = res_bind r' g"
  by (auto simp: res_bind_def split: sum.splits)

text \<open>A result is defined when the run did not stop.\<close>

fun is_ok :: "'a res \<Rightarrow> bool" where
  "is_ok (Inr _) = True"
| "is_ok (Inl _) = False"

lemma is_ok_iff: "is_ok r \<longleftrightarrow> (\<exists>x. r = Ok x)"
  by (cases r) auto

section \<open>Counted loops\<close>

function for_upto :: "nat \<Rightarrow> nat \<Rightarrow> (nat \<Rightarrow> 's \<Rightarrow> 's res) \<Rightarrow> 's \<Rightarrow> 's res" where
  "for_upto i n body s =
     (if i < n then res_bind (body i s) (for_upto (Suc i) n body) else Ok s)"
  by pat_completeness auto
termination
  by (relation "measure (\<lambda>(i, n, _). n - i)") auto

declare for_upto.simps [simp del]

lemma for_upto_done [simp]: "n \<le> i \<Longrightarrow> for_upto i n body s = Ok s"
  by (simp add: for_upto.simps [of i n])

lemma for_upto_step:
  "i < n \<Longrightarrow> for_upto i n body s = res_bind (body i s) (for_upto (Suc i) n body)"
  by (simp add: for_upto.simps [of i n])

text \<open>Partial correctness: an invariant indexed by the loop counter.\<close>

lemma for_upto_rule:
  assumes run: "for_upto i n body s = Ok s'" and le: "i \<le> n" and start: "P i s"
    and step: "\<And>j t t'. i \<le> j \<Longrightarrow> j < n \<Longrightarrow> P j t \<Longrightarrow> body j t = Ok t' \<Longrightarrow> P (Suc j) t'"
  shows "P n s'"
  using run le start step
proof (induction "n - i" arbitrary: i s)
  case 0
  then show ?case by simp
next
  case (Suc k)
  then have lt: "i < n" by arith
  with Suc.prems(1) obtain t where t: "body i s = Ok t" "for_upto (Suc i) n body t = Ok s'"
    by (auto simp: for_upto_step)
  have "P (Suc i) t" using Suc.prems(3,4) lt t(1) by blast
  moreover have "k = n - Suc i" using Suc.hyps(2) by arith
  moreover have "\<And>j t t'. Suc i \<le> j \<Longrightarrow> j < n \<Longrightarrow> P j t \<Longrightarrow> body j t = Ok t' \<Longrightarrow> P (Suc j) t'"
    using Suc.prems(4) by simp
  ultimately show ?case
    using Suc.hyps(1) [of "Suc i" t] t(2) lt by auto
qed

text \<open>Total correctness: every iteration succeeds and keeps the invariant.\<close>

lemma for_upto_total:
  assumes le: "i \<le> n" and start: "P i s"
    and step: "\<And>j t. i \<le> j \<Longrightarrow> j < n \<Longrightarrow> P j t \<Longrightarrow> \<exists>t'. body j t = Ok t' \<and> P (Suc j) t'"
  shows "\<exists>s'. for_upto i n body s = Ok s' \<and> P n s'"
  using le start step
proof (induction "n - i" arbitrary: i s)
  case 0
  then show ?case by simp
next
  case (Suc k)
  then have lt: "i < n" by arith
  with Suc.prems obtain t where t: "body i s = Ok t" "P (Suc i) t" by blast
  moreover have "k = n - Suc i" using Suc.hyps(2) by arith
  moreover have "\<And>j t. Suc i \<le> j \<Longrightarrow> j < n \<Longrightarrow> P j t \<Longrightarrow> \<exists>t'. body j t = Ok t' \<and> P (Suc j) t'"
    using Suc.prems(3) by simp
  ultimately show ?case
    using Suc.hyps(1) [of "Suc i" t] lt by (auto simp: for_upto_step)
qed

text \<open>The loop as a fold over the list of indices it visits.\<close>

primrec res_fold :: "('a \<Rightarrow> 's \<Rightarrow> 's res) \<Rightarrow> 'a list \<Rightarrow> 's \<Rightarrow> 's res" where
  "res_fold f [] s = Ok s"
| "res_fold f (x # xs) s = res_bind (f x s) (res_fold f xs)"

lemma res_fold_append:
  "res_fold f (xs @ ys) s = res_bind (res_fold f xs s) (res_fold f ys)"
  by (induction xs arbitrary: s) (auto simp: res_bind_def split: sum.splits)

lemma for_upto_conv_fold: "for_upto i n body s = res_fold body [i..<n] s"
proof (induction "n - i" arbitrary: i s)
  case 0
  then show ?case by simp
next
  case (Suc k)
  then have lt: "i < n" and k: "k = n - Suc i" by arith+
  have "for_upto (Suc i) n body = res_fold body [Suc i..<n]"
    using Suc.hyps(1) [OF k] by (rule ext)
  then show ?case using lt by (simp add: for_upto_step upt_conv_Cons)
qed

lemma res_fold_Nil: "res_fold f [] = Ok"
  by (rule ext) simp

lemma res_fold_single [simp]: "res_fold f [x] = f x"
  by (rule ext) (simp add: res_fold_Nil)

lemma for_upto_Suc: "for_upto 0 (Suc n) body s = res_bind (for_upto 0 n body s) (body n)"
  by (simp add: for_upto_conv_fold res_fold_append del: res_fold.simps)

text \<open>A loop whose body does not look at the counter repeats it.\<close>

lemma for_upto_const_shift: "for_upto (Suc i) (Suc n) (\<lambda>_. f) s = for_upto i n (\<lambda>_. f) s"
proof (induction "n - i" arbitrary: i s)
  case 0
  then show ?case by simp
next
  case (Suc k)
  then have lt: "i < n" and k: "k = n - Suc i" by arith+
  have "for_upto (Suc (Suc i)) (Suc n) (\<lambda>_. f) = for_upto (Suc i) n (\<lambda>_. f)"
    using Suc.hyps(1) [OF k] by (rule ext)
  then show ?case using lt by (simp add: for_upto_step)
qed

lemma for_upto_const: "for_upto 0 (Suc n) (\<lambda>_. f) s = res_bind (f s) (for_upto 0 n (\<lambda>_. f))"
proof -
  have "for_upto (Suc 0) (Suc n) (\<lambda>_. f) = for_upto 0 n (\<lambda>_. f)"
    by (rule ext) (rule for_upto_const_shift)
  then show ?thesis by (simp add: for_upto_step)
qed

text \<open>
  A loop over the indices of a list whose body does what \<open>f\<close> does with the element at
  the index is the fold of \<open>f\<close> over the list.
\<close>

lemma for_upto_list:
  assumes "\<And>i s. i < length xs \<Longrightarrow> body i s = f (xs ! i) s"
  shows "for_upto 0 (length xs) body s = res_fold f xs s"
proof -
  have "res_fold body [k..<k + length ys] s = res_fold f ys s"
    if "\<And>i s. i < length ys \<Longrightarrow> body (k + i) s = f (ys ! i) s" for ys k s
    using that
  proof (induction ys arbitrary: k s)
    case Nil
    then show ?case by simp
  next
    case (Cons y ys)
    have hd: "body k s = f y s" using Cons.prems [of 0] by simp
    have tl: "res_fold body [Suc k..<Suc k + length ys] t = res_fold f ys t" for t
    proof (rule Cons.IH)
      fix i u assume "i < length ys"
      then show "body (Suc k + i) u = f (ys ! i) u" using Cons.prems [of "Suc i"] by simp
    qed
    show ?case using hd tl by (simp add: upt_conv_Cons del: upt_Suc cong: res_bind_cong)
  qed
  from this [of xs 0 s] show ?thesis using assms by (simp add: for_upto_conv_fold)
qed

text \<open>
  A counted loop whose bound is read again from the state before every iteration, as in
  \<^verbatim>\<open>for (uint32_t i = 0; i < p->count; i++)\<close>. The counter's type caps it: \<open>cap\<close> is the number
  of values of that type, so a bound of that type is always below it.
\<close>

function for_below :: "nat \<Rightarrow> nat \<Rightarrow> ('s \<Rightarrow> nat res) \<Rightarrow> (nat \<Rightarrow> 's \<Rightarrow> 's res) \<Rightarrow> 's \<Rightarrow> 's res" where
  "for_below i cap bound body s =
     (if i < cap
      then res_bind (bound s) (\<lambda>n.
        if i < n then res_bind (body i s) (for_below (Suc i) cap bound body) else Ok s)
      else Ok s)"
  by pat_completeness auto
termination
  by (relation "measure (\<lambda>(i, cap, _). cap - i)") auto

declare for_below.simps [simp del]

lemma for_below_cases:
  assumes "for_below i cap bound body s = Ok s'"
  obtains "s' = s"
    | t where "i < cap" and "body i s = Ok t" and "for_below (Suc i) cap bound body t = Ok s'"
  using assms by (subst (asm) for_below.simps) (auto simp: res_bind_eq_Ok split: if_splits)

lemma for_below_rule:
  assumes run: "for_below i cap bound body s = Ok s'" and start: "P s"
    and step: "\<And>j t t'. P t \<Longrightarrow> body j t = Ok t' \<Longrightarrow> P t'"
  shows "P s'"
  using run start
proof (induction "cap - i" arbitrary: i s)
  case 0
  then show ?case by (subst (asm) for_below.simps) auto
next
  case (Suc k)
  from Suc.prems(1) show ?case
  proof (cases rule: for_below_cases)
    case 1
    then show ?thesis using Suc.prems(2) by simp
  next
    case (2 t)
    moreover have "k = cap - Suc i" using Suc.hyps(2) by arith
    ultimately show ?thesis using Suc.hyps(1) [of "Suc i" t] Suc.prems(2) step by blast
  qed
qed

lemma for_below_total:
  assumes "i \<le> n" and "n < cap" and "P i s"
    and bound: "\<And>j t. P j t \<Longrightarrow> bound t = Ok n"
    and step: "\<And>j t. i \<le> j \<Longrightarrow> j < n \<Longrightarrow> P j t \<Longrightarrow> \<exists>t'. body j t = Ok t' \<and> P (Suc j) t'"
  shows "\<exists>s'. for_below i cap bound body s = Ok s' \<and> P n s'"
  using assms(1,3) step
proof (induction "n - i" arbitrary: i s)
  case 0
  then have "i = n" by simp
  then show ?case using 0 bound [of n s] assms(2) by (simp add: for_below.simps [of n])
next
  case (Suc k)
  then have lt: "i < n" by arith
  with Suc.prems obtain t where t: "body i s = Ok t" "P (Suc i) t" by blast
  moreover have "k = n - Suc i" using Suc.hyps(2) by arith
  moreover have "\<And>j t. Suc i \<le> j \<Longrightarrow> j < n \<Longrightarrow> P j t \<Longrightarrow> \<exists>t'. body j t = Ok t' \<and> P (Suc j) t'"
    using Suc.prems(3) by simp
  ultimately show ?case
    using Suc.hyps(1) [of "Suc i" t] lt assms(2) bound [OF Suc.prems(2)]
    by (simp add: for_below.simps [of i])
qed

text \<open>The loop as a fold, when its bound stays what it was at the start.\<close>

lemma for_below_fold:
  assumes "i \<le> n" and "n < cap" and "P i s"
    and bound: "\<And>j t. P j t \<Longrightarrow> bound t = Ok n"
    and step: "\<And>j t. i \<le> j \<Longrightarrow> j < n \<Longrightarrow> P j t \<Longrightarrow>
      body j t = g j t \<and> (\<forall>t'. g j t = Ok t' \<longrightarrow> P (Suc j) t')"
  shows "for_below i cap bound body s = res_fold g [i..<n] s"
  using assms(1,3) step
proof (induction "n - i" arbitrary: i s)
  case 0
  then have "i = n" by simp
  then show ?case using 0 bound [of n s] assms(2) by (simp add: for_below.simps [of n])
next
  case (Suc k)
  then have lt: "i < n" and k: "k = n - Suc i" by arith+
  have body: "body i s = g i s" using Suc.prems lt by blast
  have "for_below (Suc i) cap bound body t = res_fold g [Suc i..<n] t" if "g i s = Ok t" for t
  proof (rule Suc.hyps(1) [OF k])
    show "P (Suc i) t" using Suc.prems(2) Suc.prems(3) [of i s] lt that by simp
    show "body j t = g j t \<and> (\<forall>t'. g j t = Ok t' \<longrightarrow> P (Suc j) t')"
      if "Suc i \<le> j" "j < n" "P j t" for j t
      using Suc.prems(3) [of j t] that by simp
  qed (use lt in simp)
  then show ?case using lt assms(2) bound [OF Suc.prems(2)] body
    by (simp add: for_below.simps [of i] upt_conv_Cons cong: res_bind_cong)
qed

lemma res_fold_concat:
  "res_fold (\<lambda>j. res_fold f (xs j)) js s = res_fold f (concat (map xs js)) s"
  by (induction js arbitrary: s) (simp_all add: res_fold_append cong: res_bind_cong)

section \<open>Word arithmetic used throughout\<close>

lemma unat_plus_one:
  fixes p :: "'a::len word"
  assumes "p < e"
  shows "unat (p + 1) = Suc (unat p)"
proof -
  have "unat p < unat e" using assms by (simp add: word_less_nat_alt)
  moreover have "unat e < 2 ^ LENGTH('a)" by (rule unsigned_less)
  ultimately have "unat p + 1 < 2 ^ LENGTH('a)" by linarith
  then show ?thesis by (simp add: unat_word_ariths)
qed

lemma unat_plus_one_or_zero:
  fixes p :: "'a::len word"
  shows "p + 1 = 0 \<or> unat (p + 1) = Suc (unat p)"
  by (metis add.commute unatSuc)

lemma add_of_nat_wrap:
  fixes p :: "'a::len word"
  assumes "unat p + n = 2 ^ LENGTH('a)"
  shows "p + of_nat n = 0"
proof -
  have "p + of_nat n = of_nat (unat p + n)" by simp
  then show ?thesis by (simp only: assms) simp
qed

lemma unat_add_of_nat:
  fixes p :: "'a::len word"
  assumes "unat p + n < 2 ^ LENGTH('a)"
  shows "unat (p + of_nat n) = unat p + n"
  using assms by (simp add: unat_word_ariths unat_of_nat)

end
