(* ===== verification/Mal_Memory.thy ===== *)
theory Mal_Memory
  imports Mal_Prelude
begin

unbundle bit_operations_syntax

text \<open>
  The address space of the process as the loader's pointer accesses see it: a partial map
  from 64-bit addresses to bytes whose domain is what the loader has mapped (the object
  file and the image). A C access through a pointer is a load or a store here, and an
  access outside the domain is a fault, as is every access through address 0, which the
  kernel never maps.

  \<^item> Loads and stores of bytes, little-endian words and byte blocks, with \<open>memcpy\<close>,
    \<open>strlen\<close>-like scanning (\<open>c_string\<close>) and comparison with a literal (\<open>str_eq\<close>).
  \<^item> \<open>holds m p bs\<close>: the bytes \<open>bs\<close> are at address \<open>p\<close>. Every load lemma is stated with it.
  \<^item> The locales \<open>codec\<close> and \<open>fixed_codec\<close>: what a decoder from memory promises, and the
    array lookup that follows from it. The scalar loads are interpreted here, the structs
    of the file format in the theory that defines them.
\<close>

section \<open>Loads\<close>

type_synonym memory = "addr \<Rightarrow> byte option"

definition load8 :: "memory \<Rightarrow> addr \<Rightarrow> byte res" where
  "load8 m p =
     (if p = 0 then Fault (Bad_Access 0)
      else case m p of None \<Rightarrow> Fault (Bad_Access p) | Some b \<Rightarrow> Ok b)"

primrec load_bytes :: "memory \<Rightarrow> addr \<Rightarrow> nat \<Rightarrow> byte list res" where
  "load_bytes m p 0 = Ok []"
| "load_bytes m p (Suc n) =
     res_bind (load8 m p) (\<lambda>b. res_bind (load_bytes m (p + 1) n) (\<lambda>bs. Ok (b # bs)))"

primrec le_word :: "byte list \<Rightarrow> 'a::len word" where
  "le_word [] = 0"
| "le_word (b # bs) = ucast b OR push_bit 8 (le_word bs)"

primrec word_bytes :: "nat \<Rightarrow> 'a::len word \<Rightarrow> byte list" where
  "word_bytes 0 w = []"
| "word_bytes (Suc n) w = ucast w # word_bytes n (drop_bit 8 w)"

definition load16 :: "memory \<Rightarrow> addr \<Rightarrow> u16 res" where
  "load16 m p = res_bind (load_bytes m p 2) (\<lambda>bs. Ok (le_word bs))"

definition load32 :: "memory \<Rightarrow> addr \<Rightarrow> u32 res" where
  "load32 m p = res_bind (load_bytes m p 4) (\<lambda>bs. Ok (le_word bs))"

definition load64 :: "memory \<Rightarrow> addr \<Rightarrow> u64 res" where
  "load64 m p = res_bind (load_bytes m p 8) (\<lambda>bs. Ok (le_word bs))"

section \<open>What the memory holds\<close>

primrec holds :: "memory \<Rightarrow> addr \<Rightarrow> byte list \<Rightarrow> bool" where
  "holds m p [] \<longleftrightarrow> True"
| "holds m p (b # bs) \<longleftrightarrow> p \<noteq> 0 \<and> m p = Some b \<and> holds m (p + 1) bs"

primrec mapped :: "memory \<Rightarrow> addr \<Rightarrow> nat \<Rightarrow> bool" where
  "mapped m p 0 \<longleftrightarrow> True"
| "mapped m p (Suc n) \<longleftrightarrow> p \<noteq> 0 \<and> m p \<noteq> None \<and> mapped m (p + 1) n"

text \<open>The addresses of \<open>n\<close> bytes from \<open>p\<close>, and two blocks that share none.\<close>

definition region :: "addr \<Rightarrow> nat \<Rightarrow> addr set" where
  "region p n = {a. unat p \<le> unat a \<and> unat a < unat p + n}"

definition apart :: "addr \<Rightarrow> nat \<Rightarrow> addr \<Rightarrow> nat \<Rightarrow> bool" where
  "apart p n q k \<longleftrightarrow> unat p + n \<le> unat q \<or> unat q + k \<le> unat p"

lemma apart_disjoint: "apart p n q k \<Longrightarrow> region p n \<inter> region q k = {}"
  by (auto simp: apart_def region_def)

lemma apart_sym: "apart p n q k \<longleftrightarrow> apart q k p n"
  by (auto simp: apart_def)

lemma region_apart:
  assumes "region p n \<inter> region q k = {}" and "n \<noteq> 0" "k \<noteq> 0"
  shows "apart p n q k"
proof (rule ccontr)
  assume no: "\<not> apart p n q k"
  show False
  proof (cases "unat p \<le> unat q")
    case True
    then have "q \<in> region p n \<inter> region q k" using no assms(3) by (auto simp: apart_def region_def)
    then show False using assms(1) by blast
  next
    case False
    then have "p \<in> region p n \<inter> region q k" using no assms(2) by (auto simp: apart_def region_def)
    then show False using assms(1) by blast
  qed
qed

lemma load8_eq_Ok: "load8 m p = Ok b \<longleftrightarrow> p \<noteq> 0 \<and> m p = Some b"
  by (auto simp: load8_def split: option.splits)

lemma load_bytes_iff: "load_bytes m p n = Ok bs \<longleftrightarrow> length bs = n \<and> holds m p bs"
proof (induction n arbitrary: p bs)
  case 0
  then show ?case by auto
next
  case (Suc n)
  then show ?case by (cases bs) (auto simp: res_bind_eq_Ok load8_eq_Ok)
qed

lemma load_bytes_holds [simp]: "holds m p bs \<Longrightarrow> n = length bs \<Longrightarrow> load_bytes m p n = Ok bs"
  by (simp add: load_bytes_iff)

lemma load_bytes_total: "mapped m p n \<longleftrightarrow> is_ok (load_bytes m p n)"
proof (induction n arbitrary: p)
  case 0
  then show ?case by simp
next
  case (Suc n)
  then show ?case
    by (auto simp: is_ok_iff res_bind_eq_Ok load8_eq_Ok)
qed

lemma holds_mapped: "holds m p bs \<Longrightarrow> mapped m p (length bs)"
  by (induction bs arbitrary: p) auto

lemma holds_append:
  "holds m p (xs @ ys) \<longleftrightarrow> holds m p xs \<and> holds m (p + of_nat (length xs)) ys"
  by (induction xs arbitrary: p) (auto simp: add.assoc add.commute add.left_commute)

lemma mapped_add:
  "mapped m p (i + k) \<longleftrightarrow> mapped m p i \<and> mapped m (p + of_nat i) k"
  by (induction i arbitrary: p) (auto simp: add.assoc add.commute add.left_commute)

lemma holds_inj: "holds m p xs \<Longrightarrow> holds m p ys \<Longrightarrow> length xs = length ys \<Longrightarrow> xs = ys"
proof (induction xs arbitrary: p ys)
  case Nil
  then show ?case by simp
next
  case (Cons x xs)
  then show ?case by (cases ys) auto
qed

lemma mapped_le: "mapped m p n \<Longrightarrow> k \<le> n \<Longrightarrow> mapped m p k"
  using mapped_add [of m p k "n - k"] by simp

lemma mapped_offset: "mapped m p n \<Longrightarrow> i + k \<le> n \<Longrightarrow> mapped m (p + of_nat i) k"
  using mapped_add [of m p i "n - i"] by (auto intro: mapped_le)

lemma mapped_numeral:
  "mapped m p n \<Longrightarrow> numeral i + k \<le> n \<Longrightarrow> mapped m (p + numeral i) k"
  using mapped_offset [of m p n "numeral i" k] by simp

lemma mapped_no_wrap: "mapped m p n \<Longrightarrow> n \<noteq> 0 \<Longrightarrow> p \<noteq> 0 \<and> unat p + n \<le> 2 ^ 64"
proof (induction n arbitrary: p)
  case 0
  then show ?case by simp
next
  case (Suc n)
  show ?case
  proof (cases "n = 0")
    case True
    have "unat p < 2 ^ 64" using unsigned_less [of p, where ?'a = nat] by simp
    with True Suc.prems show ?thesis by simp
  next
    case False
    with Suc have "p + 1 \<noteq> 0" "unat (p + 1) + n \<le> 2 ^ 64" by auto
    moreover from this(1) have "unat (p + 1) = Suc (unat p)"
      using unat_plus_one_or_zero [of p] by simp
    ultimately show ?thesis using Suc.prems by simp
  qed
qed

lemma holds_no_wrap: "holds m p bs \<Longrightarrow> bs \<noteq> [] \<Longrightarrow> p \<noteq> 0 \<and> unat p + length bs \<le> 2 ^ 64"
  using holds_mapped mapped_no_wrap by blast

lemma holds_nth:
  "holds m p bs \<Longrightarrow> i < length bs \<Longrightarrow> m (p + of_nat i) = Some (bs ! i)"
proof (induction bs arbitrary: p i)
  case Nil
  then show ?case by simp
next
  case (Cons b bs)
  show ?case
  proof (cases i)
    case 0
    with Cons.prems show ?thesis by simp
  next
    case (Suc j)
    with Cons.prems have "m ((p + 1) + of_nat j) = Some (bs ! j)" by (intro Cons.IH) auto
    with Suc show ?thesis by (simp add: algebra_simps)
  qed
qed

lemma region_Suc: "p + 1 \<noteq> 0 \<Longrightarrow> region p (Suc n) = insert p (region (p + 1) n)"
  using unat_plus_one_or_zero [of p]
  by (auto simp: region_def) (metis le_antisym not_less_eq_eq unsigned_word_eqI)+

lemma region_1 [simp]: "region p (Suc 0) = {p}"
  by (auto simp: region_def) (metis le_antisym less_Suc_eq_le unsigned_word_eqI)

text \<open>A block is unchanged where the memory is unchanged.\<close>

lemma holds_cong:
  assumes "holds m p bs" and "\<And>a. a \<in> region p (length bs) \<Longrightarrow> m' a = m a"
  shows "holds m' p bs"
  using assms
proof (induction bs arbitrary: p)
  case Nil
  then show ?case by simp
next
  case (Cons b bs)
  have p: "p \<in> region p (length (b # bs))" by (simp add: region_def)
  show ?case
  proof (cases "bs = []")
    case True
    then show ?thesis using Cons.prems p by simp
  next
    case False
    then have "p + 1 \<noteq> 0" using Cons.prems(1) by (cases bs) auto
    then have "region (p + 1) (length bs) \<subseteq> region p (length (b # bs))"
      by (simp add: region_Suc) blast
    then have "holds m' (p + 1) bs" using Cons.prems by (intro Cons.IH) auto
    then show ?thesis using Cons.prems p by simp
  qed
qed

section \<open>Little-endian words\<close>

lemma length_word_bytes [simp]: "length (word_bytes n w) = n"
  by (induction n arbitrary: w) auto

lemma le_word_word_bytes_take: "le_word (word_bytes n w) = take_bit (8 * n) w"
proof (induction n arbitrary: w)
  case 0
  then show ?case by simp
next
  case (Suc n)
  have "ucast (ucast w :: byte) OR push_bit 8 (take_bit (8 * n) (drop_bit 8 w)) =
      take_bit (8 * Suc n) w"
    by (rule bit_eqI) (auto simp: bit_simps)
  then show ?case by (simp add: Suc)
qed

lemma le_word_word_bytes [simp]:
  fixes w :: "'a::len word"
  assumes "LENGTH('a) \<le> 8 * n"
  shows "le_word (word_bytes n w) = w"
proof -
  have "take_bit (8 * n) w = w"
    by (rule bit_eqI) (use assms in \<open>auto simp: bit_simps dest: bit_imp_le_length\<close>)
  then show ?thesis by (simp add: le_word_word_bytes_take)
qed

lemma word_bytes_le_word [simp]:
  assumes "8 * length bs \<le> LENGTH('a::len)"
  shows "word_bytes (length bs) (le_word bs :: 'a word) = bs"
  using assms
proof (induction bs)
  case Nil
  then show ?case by simp
next
  case (Cons b bs)
  have hd: "ucast (ucast b OR push_bit 8 (le_word bs :: 'a word)) = b"
    by (rule bit_eqI) (use Cons.prems in \<open>auto simp: bit_simps\<close>)
  have "word_bytes (length bs) (drop_bit 8 (ucast b OR push_bit 8 (le_word bs :: 'a word))) =
      word_bytes (length bs) (take_bit (LENGTH('a) - 8) (le_word bs :: 'a word))"
  proof (rule arg_cong [where f = "word_bytes (length bs)"])
    show "drop_bit 8 (ucast b OR push_bit 8 (le_word bs :: 'a word)) =
        take_bit (LENGTH('a) - 8) (le_word bs)"
      by (rule bit_eqI) (use Cons.prems in \<open>auto simp: bit_simps dest: bit_imp_le_length\<close>)
  qed
  also have "take_bit (LENGTH('a) - 8) (le_word bs :: 'a word) = le_word bs"
  proof -
    have "le_word bs = (le_word (word_bytes (length bs) (le_word bs :: 'a word)) :: 'a word)"
      using Cons by simp
    also have "\<dots> = take_bit (8 * length bs) (le_word bs)" by (rule le_word_word_bytes_take)
    finally have eq: "(le_word bs :: 'a word) = take_bit (8 * length bs) (le_word bs)" .
    have "min (LENGTH('a) - 8) (8 * length bs) = 8 * length bs" using Cons.prems by simp
    then show ?thesis by (subst (1 2) eq) simp
  qed
  finally show ?case using hd Cons by simp
qed


text \<open>A scalar load returns a word exactly when the memory holds its little-endian bytes.\<close>

lemma load_le_iff:
  assumes "8 * n = LENGTH('a::len)"
  shows "res_bind (load_bytes m p n) (\<lambda>bs. Ok (le_word bs :: 'a word)) = Ok w \<longleftrightarrow>
    holds m p (word_bytes n w)"
proof
  assume "res_bind (load_bytes m p n) (\<lambda>bs. Ok (le_word bs :: 'a word)) = Ok w"
  then obtain bs where bs: "length bs = n" "holds m p bs" "w = le_word bs"
    by (auto simp: res_bind_eq_Ok load_bytes_iff)
  then have "word_bytes n w = bs" using assms word_bytes_le_word [of bs, where ?'a = 'a] by simp
  with bs show "holds m p (word_bytes n w)" by simp
next
  assume "holds m p (word_bytes n w)"
  then show "res_bind (load_bytes m p n) (\<lambda>bs. Ok (le_word bs :: 'a word)) = Ok w"
    using assms by simp
qed

lemma load16_iff: "load16 m p = Ok w \<longleftrightarrow> holds m p (word_bytes 2 w)"
  unfolding load16_def by (rule load_le_iff) simp

lemma load32_iff: "load32 m p = Ok w \<longleftrightarrow> holds m p (word_bytes 4 w)"
  unfolding load32_def by (rule load_le_iff) simp

lemma load64_iff: "load64 m p = Ok w \<longleftrightarrow> holds m p (word_bytes 8 w)"
  unfolding load64_def by (rule load_le_iff) simp

lemma load8_iff: "load8 m p = Ok b \<longleftrightarrow> holds m p [b]"
  by (simp add: load8_eq_Ok)

lemmas load_iffs = load8_iff load16_iff load32_iff load64_iff load_bytes_iff

lemma load_mapped:
  "is_ok (load16 m p) \<longleftrightarrow> mapped m p 2"
  "is_ok (load32 m p) \<longleftrightarrow> mapped m p 4"
  "is_ok (load64 m p) \<longleftrightarrow> mapped m p 8"
  unfolding load16_def load32_def load64_def load_bytes_total
  by (auto simp: is_ok_iff res_bind_eq_Ok)

lemma is_ok_bind: "is_ok (res_bind r f) \<longleftrightarrow> is_ok r \<and> (\<forall>x. r = Ok x \<longrightarrow> is_ok (f x))"
  by (cases r) auto

text \<open>The facts that decide a struct reader: each field is where its bytes are.\<close>

lemma load8_numeral: "mapped m p n \<Longrightarrow> numeral i + 1 \<le> n \<Longrightarrow> is_ok (load8 m (p + numeral i))"
  using mapped_numeral [of m p n i 1] by (auto simp: is_ok_iff load8_eq_Ok)

lemmas reader_intros = mapped_numeral mapped_le load8_numeral
lemmas reader_simps = res_bind_eq_Ok load_iffs holds_append add.assoc
lemmas reader_total = is_ok_bind load_mapped load_bytes_total [symmetric]

section \<open>Stores\<close>

fun store_bytes :: "memory \<Rightarrow> addr \<Rightarrow> byte list \<Rightarrow> memory res" where
  "store_bytes m p [] = Ok m"
| "store_bytes m p (b # bs) =
     (if p = 0 \<or> m p = None then Fault (Bad_Access p)
      else store_bytes (m(p \<mapsto> b)) (p + 1) bs)"

definition store64 :: "memory \<Rightarrow> addr \<Rightarrow> u64 \<Rightarrow> memory res" where
  "store64 m p w = store_bytes m p (word_bytes 8 w)"

text \<open>\<open>memcpy\<close>: C leaves overlapping blocks undefined; here the source is read first.\<close>

definition memcpy :: "memory \<Rightarrow> addr \<Rightarrow> addr \<Rightarrow> nat \<Rightarrow> memory res" where
  "memcpy m dst src n = res_bind (load_bytes m src n) (store_bytes m dst)"

lemma mapped_dom_cong: "(\<And>a. m' a = None \<longleftrightarrow> m a = None) \<Longrightarrow> mapped m' p n = mapped m p n"
  by (induction n arbitrary: p) auto

lemma store_bytes_dom: "store_bytes m p bs = Ok m' \<Longrightarrow> dom m' = dom m"
proof (induction bs arbitrary: m p)
  case Nil
  then show ?case by simp
next
  case (Cons b bs)
  from Cons.prems have "m p \<noteq> None" and "store_bytes (m(p \<mapsto> b)) (p + 1) bs = Ok m'"
    by (auto split: if_splits)
  with Cons.IH have "dom m' = dom (m(p \<mapsto> b))" by blast
  with \<open>m p \<noteq> None\<close> show ?case by (simp add: insert_absorb domIff)
qed

lemma store_bytes_other:
  "store_bytes m p bs = Ok m' \<Longrightarrow> a \<notin> region p (length bs) \<Longrightarrow> m' a = m a"
proof (induction bs arbitrary: m p)
  case Nil
  then show ?case by simp
next
  case (Cons b bs)
  from Cons.prems have run: "store_bytes (m(p \<mapsto> b)) (p + 1) bs = Ok m'"
    by (auto split: if_splits)
  have ap: "a \<noteq> p" using Cons.prems by (auto simp: region_def)
  show ?case
  proof (cases "bs = []")
    case True
    then have "m' = m(p \<mapsto> b)" using run by simp
    then show ?thesis using ap by simp
  next
    case False
    then have "p + 1 \<noteq> 0" using run by (cases bs) auto
    then have "a \<notin> region (p + 1) (length bs)"
      using Cons.prems(2) by (auto simp: region_Suc)
    then have "m' a = (m(p \<mapsto> b)) a" using Cons.IH run by blast
    then show ?thesis using ap by simp
  qed
qed

lemma store_bytes_holds: "store_bytes m p bs = Ok m' \<Longrightarrow> holds m' p bs"
proof (induction bs arbitrary: m p)
  case Nil
  then show ?case by simp
next
  case (Cons b bs)
  from Cons.prems have ok: "p \<noteq> 0" and run: "store_bytes (m(p \<mapsto> b)) (p + 1) bs = Ok m'"
    by (auto split: if_splits)
  have "m' p = (m(p \<mapsto> b)) p"
  proof (cases "bs = []")
    case True
    then show ?thesis using run by simp
  next
    case False
    then have "p + 1 \<noteq> 0" using run by (cases bs) auto
    then have "p \<notin> region (p + 1) (length bs)"
      using unat_plus_one_or_zero [of p] by (auto simp: region_def)
    then show ?thesis by (rule store_bytes_other [OF run])
  qed
  moreover have "holds m' (p + 1) bs" using run by (rule Cons.IH)
  ultimately show ?case using ok by simp
qed

lemma store_bytes_total: "is_ok (store_bytes m p bs) \<longleftrightarrow> mapped m p (length bs)"
proof (induction bs arbitrary: m p)
  case Nil
  then show ?case by simp
next
  case (Cons b bs)
  have "mapped (m(p \<mapsto> b)) (p + 1) (length bs) = mapped m (p + 1) (length bs)" if "m p \<noteq> None"
    by (rule mapped_dom_cong) (use that in auto)
  moreover have "is_ok (store_bytes (m(p \<mapsto> b)) (p + 1) bs) \<longleftrightarrow> mapped (m(p \<mapsto> b)) (p + 1) (length bs)"
    by (rule Cons.IH)
  ultimately show ?case by (cases "p = 0 \<or> m p = None") (simp_all only: store_bytes.simps
        mapped.simps list.size is_ok.simps if_True if_False simp_thms, auto)
qed

lemma store_bytes_mapped: "store_bytes m p bs = Ok m' \<Longrightarrow> mapped m' q n = mapped m q n"
  using store_bytes_dom [of m p bs m'] by (intro mapped_dom_cong) (metis domIff)

lemma store_bytes_frame:
  assumes "store_bytes m p bs = Ok m'" and "holds m q xs"
    and "region p (length bs) \<inter> region q (length xs) = {}"
  shows "holds m' q xs"
  using assms(2) by (rule holds_cong) (use assms in \<open>auto intro: store_bytes_other\<close>)

text \<open>A successful store writes the word, keeps everything else, and unmaps nothing.\<close>

lemma store64_load64: "store64 m p w = Ok m' \<Longrightarrow> load64 m' p = Ok w"
  unfolding store64_def load64_iff by (rule store_bytes_holds)

lemma store64_other: "store64 m p w = Ok m' \<Longrightarrow> a \<notin> region p 8 \<Longrightarrow> m' a = m a"
  unfolding store64_def using store_bytes_other [of m p "word_bytes 8 w"] by simp

lemma store64_dom: "store64 m p w = Ok m' \<Longrightarrow> dom m' = dom m"
  unfolding store64_def by (rule store_bytes_dom)

lemma store64_total: "is_ok (store64 m p w) \<longleftrightarrow> mapped m p 8"
  by (simp add: store64_def store_bytes_total)

lemma store64_mapped: "store64 m p w = Ok m' \<Longrightarrow> mapped m' q n = mapped m q n"
  unfolding store64_def by (rule store_bytes_mapped)

lemma store64_frame:
  "store64 m p w = Ok m' \<Longrightarrow> holds m q xs \<Longrightarrow> apart p 8 q (length xs) \<Longrightarrow> holds m' q xs"
  unfolding store64_def by (erule (1) store_bytes_frame) (simp add: apart_disjoint)

lemma store64_load64_other:
  "store64 m p w = Ok m' \<Longrightarrow> load64 m q = Ok v \<Longrightarrow> apart p 8 q 8 \<Longrightarrow> load64 m' q = Ok v"
  unfolding load64_iff by (rule store64_frame) auto

lemma memcpy_holds:
  "memcpy m dst src n = Ok m' \<Longrightarrow> \<exists>bs. length bs = n \<and> holds m src bs \<and> holds m' dst bs"
  unfolding memcpy_def by (auto simp: res_bind_eq_Ok load_bytes_iff intro: store_bytes_holds)

lemma memcpy_other: "memcpy m dst src n = Ok m' \<Longrightarrow> a \<notin> region dst n \<Longrightarrow> m' a = m a"
  unfolding memcpy_def by (auto simp: res_bind_eq_Ok load_bytes_iff intro: store_bytes_other)

lemma memcpy_dom: "memcpy m dst src n = Ok m' \<Longrightarrow> dom m' = dom m"
  unfolding memcpy_def res_bind_eq_Ok using store_bytes_dom by blast

lemma memcpy_total: "is_ok (memcpy m dst src n) \<longleftrightarrow> mapped m src n \<and> mapped m dst n"
proof -
  have "is_ok (memcpy m dst src n) \<longleftrightarrow>
      (\<exists>bs. load_bytes m src n = Ok bs \<and> is_ok (store_bytes m dst bs))"
    by (auto simp: memcpy_def is_ok_iff res_bind_eq_Ok)
  also have "\<dots> \<longleftrightarrow> (\<exists>bs. load_bytes m src n = Ok bs) \<and> mapped m dst n"
    by (auto simp: store_bytes_total load_bytes_iff)
  also have "\<dots> \<longleftrightarrow> mapped m src n \<and> mapped m dst n"
    by (simp add: load_bytes_total is_ok_iff)
  finally show ?thesis .
qed

section \<open>Fresh mappings\<close>

text \<open>What \<open>mmap\<close> adds: a block of given bytes, or a zero-filled anonymous block.\<close>

definition map_file :: "memory \<Rightarrow> addr \<Rightarrow> byte list \<Rightarrow> memory" where
  "map_file m p bs =
     (\<lambda>a. if unat p \<le> unat a \<and> unat a < unat p + length bs
          then Some (bs ! (unat a - unat p)) else m a)"

definition map_anon :: "memory \<Rightarrow> addr \<Rightarrow> nat \<Rightarrow> memory" where
  "map_anon m p n = (\<lambda>a. if unat p \<le> unat a \<and> unat a < unat p + n then Some 0 else m a)"

lemma map_file_holds:
  assumes "p \<noteq> 0" and "unat p + length bs \<le> 2 ^ 64"
  shows "holds (map_file m p bs) p bs"
  using assms
proof (induction bs arbitrary: p m)
  case Nil
  then show ?case by simp
next
  case (Cons b bs)
  show ?case
  proof (cases "bs = []")
    case True
    then show ?thesis using Cons.prems by (simp add: map_file_def)
  next
    case False
    then have lt: "unat p + 1 < 2 ^ 64" using Cons.prems(2) by (cases bs) auto
    then have u: "unat (p + 1) = Suc (unat p)" by (simp add: unat_word_ariths)
    then have "p + 1 \<noteq> 0" by (metis Zero_not_Suc unat_0)
    then have "holds (map_file m (p + 1) bs) (p + 1) bs"
      using Cons.prems u by (intro Cons.IH) auto
    then have "holds (map_file m p (b # bs)) (p + 1) bs"
      by (rule holds_cong) (auto simp: map_file_def region_def u nth_Cons' Suc_le_eq)
    then show ?thesis using Cons.prems by (simp add: map_file_def)
  qed
qed

lemma map_file_other: "a \<notin> region p (length bs) \<Longrightarrow> map_file m p bs a = m a"
  by (auto simp: map_file_def region_def)

lemma map_anon_other: "a \<notin> region p n \<Longrightarrow> map_anon m p n a = m a"
  by (auto simp: map_anon_def region_def)

lemma map_anon_zero: "a \<in> region p n \<Longrightarrow> map_anon m p n a = Some 0"
  by (auto simp: map_anon_def region_def)

lemma mapped_region:
  assumes "p \<noteq> 0" and "unat p + n \<le> 2 ^ 64" and "\<And>a. a \<in> region p n \<Longrightarrow> m a \<noteq> None"
  shows "mapped m p n"
  using assms
proof (induction n arbitrary: p)
  case 0
  then show ?case by simp
next
  case (Suc n)
  show ?case
  proof (cases "n = 0")
    case True
    then show ?thesis using Suc.prems by (simp add: region_def)
  next
    case False
    then have "unat (p + 1) = Suc (unat p)"
      using Suc.prems(2) by (simp add: unat_word_ariths)
    moreover from this have "p + 1 \<noteq> 0" by (metis Zero_not_Suc unat_0)
    ultimately have "mapped m (p + 1) n"
      using Suc.prems by (intro Suc.IH) (auto simp: region_Suc)
    then show ?thesis using Suc.prems by (simp add: region_def)
  qed
qed

lemma mapped_in_region: "mapped m p n \<Longrightarrow> a \<in> region p n \<Longrightarrow> m a \<noteq> None"
proof (induction n arbitrary: p)
  case 0
  then show ?case by (auto simp: region_def)
next
  case (Suc n)
  show ?case
  proof (cases "n = 0")
    case True
    then show ?thesis using Suc.prems by auto
  next
    case False
    then have "p + 1 \<noteq> 0" using Suc.prems(1) by (cases n) auto
    then show ?thesis using Suc by (auto simp: region_Suc)
  qed
qed

lemma map_anon_mapped: "p \<noteq> 0 \<Longrightarrow> unat p + n \<le> 2 ^ 64 \<Longrightarrow> mapped (map_anon m p n) p n"
  by (rule mapped_region) (auto simp: map_anon_def region_def)

text \<open>A store that succeeds is the block itself, laid over the memory.\<close>

lemma store_bytes_map_file:
  assumes m: "store_bytes m p bs = Ok m'"
  shows "m' = map_file m p bs"
proof
  fix a
  show "m' a = map_file m p bs a"
  proof (cases "a \<in> region p (length bs)")
    case True
    then have i: "unat a - unat p < length bs" and le: "unat p \<le> unat a" by (auto simp: region_def)
    then have "a = p + of_nat (unat a - unat p)" by (simp add: of_nat_diff)
    then have "m' a = Some (bs ! (unat a - unat p))" using holds_nth [OF store_bytes_holds [OF m] i] by simp
    then show ?thesis using True by (simp add: map_file_def region_def)
  next
    case False
    then show ?thesis using store_bytes_other [OF m] by (simp add: map_file_other)
  qed
qed

lemma memcpy_map_file:
  assumes m: "memcpy m p q n = Ok m'" and bs: "holds m' p bs" "length bs = n"
  shows "m' = map_file m p bs"
proof -
  obtain xs where xs: "length xs = n" "store_bytes m p xs = Ok m'"
    using m by (auto simp: memcpy_def res_bind_eq_Ok load_bytes_iff)
  then have "holds m' p xs" by (simp add: store_bytes_holds)
  then have "xs = bs" using bs xs(1) load_bytes_iff [of m' p n] by fastforce
  then show ?thesis using store_bytes_map_file xs(2) by blast
qed

section \<open>C strings\<close>

function c_string :: "memory \<Rightarrow> addr \<Rightarrow> cstr res" where
  "c_string m p =
     res_bind (load8 m p)
       (\<lambda>b. if b = 0 then Ok [] else res_bind (c_string m (p + 1)) (\<lambda>s. Ok (b # s)))"
  by pat_completeness auto
termination
proof (relation "measure (\<lambda>(m, p :: addr). if p = 0 then 0 else 2 ^ 64 - unat p)")
  fix m and p :: addr and b
  assume "load8 m p = Ok b" "b \<noteq> 0"
  then have "p \<noteq> 0" by (simp add: load8_eq_Ok)
  moreover have "unat p < 2 ^ 64" using unsigned_less [of p, where ?'a = nat] by simp
  ultimately show "((m, p + 1), (m, p)) \<in> measure (\<lambda>(m, p :: addr). if p = 0 then 0 else 2 ^ 64 - unat p)"
    using unat_plus_one_or_zero [of p] by auto
qed simp

declare c_string.simps [simp del]

lemma c_string_iff: "c_string m p = Ok s \<longleftrightarrow> holds m p (s @ [0]) \<and> 0 \<notin> set s"
proof (induction m p arbitrary: s rule: c_string.induct)
  case (1 m p)
  show ?case
  proof (cases s)
    case Nil
    then show ?thesis
      by (subst c_string.simps) (auto simp: res_bind_eq_Ok load8_eq_Ok)
  next
    case (Cons b t)
    show ?thesis
    proof (cases "load8 m p = Ok b \<and> b \<noteq> 0")
      case True
      then have "c_string m (p + 1) = Ok t \<longleftrightarrow> holds m (p + 1) (t @ [0]) \<and> 0 \<notin> set t"
        using 1 by blast
      then show ?thesis using True Cons
        by (subst c_string.simps) (auto simp: load8_eq_Ok res_bind_eq_Ok)
    next
      case False
      then show ?thesis using Cons
        by (subst c_string.simps) (auto simp: load8_eq_Ok res_bind_eq_Ok)
    qed
  qed
qed

text \<open>
  \<open>strcmp(p, literal) == 0\<close>: the bytes are read up to the first difference and no further,
  so a string that is not terminated can still be told apart.
\<close>

primrec str_eq :: "memory \<Rightarrow> addr \<Rightarrow> cstr \<Rightarrow> bool res" where
  "str_eq m p [] = res_bind (load8 m p) (\<lambda>b. Ok (b = 0))"
| "str_eq m p (c # cs) =
     res_bind (load8 m p) (\<lambda>b. if b = c then str_eq m (p + 1) cs else Ok False)"

lemma str_eq_True: "str_eq m p l = Ok True \<longleftrightarrow> holds m p (l @ [0])"
  by (induction l arbitrary: p) (auto simp: res_bind_eq_Ok load8_eq_Ok)

lemma str_eq_c_string:
  assumes "c_string m p = Ok s" and "0 \<notin> set l"
  shows "str_eq m p l = Ok (s = l)"
  using assms
proof (induction l arbitrary: p s)
  case Nil
  then show ?case by (cases s) (auto simp: c_string_iff load8_eq_Ok res_bind_def load8_def)
next
  case (Cons c cs)
  show ?case
  proof (cases s)
    case Nil
    then show ?thesis using Cons.prems by (auto simp: c_string_iff load8_def)
  next
    case (Cons b t)
    then have "load8 m p = Ok b" "c_string m (p + 1) = Ok t"
      using Cons.prems by (auto simp: c_string_iff load8_eq_Ok)
    then show ?thesis using Cons.IH [of "p + 1" t] Cons.prems Cons by auto
  qed
qed

text \<open>\<open>strcmp\<close> of a local character array with a literal shorter than the array.\<close>

definition name_is :: "byte list \<Rightarrow> string \<Rightarrow> bool" where
  "name_is arr s \<longleftrightarrow> take (length s + 1) arr = lit s @ [0]"

lemma str_eq_array:
  "holds m p arr \<Longrightarrow> length l < length arr \<Longrightarrow> str_eq m p l = Ok (take (length l + 1) arr = l @ [0])"
proof (induction l arbitrary: p arr)
  case Nil
  then show ?case by (cases arr) (auto simp: load8_def)
next
  case (Cons c cs)
  then show ?case by (cases arr) (auto simp: load8_def)
qed

lemma str_eq_name:
  "holds m p arr \<Longrightarrow> length s < length arr \<Longrightarrow> str_eq m p (lit s) = Ok (name_is arr s)"
  using str_eq_array [of m p arr "lit s"] by (simp add: name_is_def lit_def)

section \<open>Decoders from memory\<close>

text \<open>
  A decoder reads a value exactly where the memory holds the value's encoding. A
  fixed-width decoder moreover succeeds wherever its bytes are mapped; an array of such
  values is read by stepping the width.
\<close>

locale codec =
  fixes wf :: "'a \<Rightarrow> bool"
    and enc :: "'a \<Rightarrow> byte list"
    and dec :: "memory \<Rightarrow> addr \<Rightarrow> 'a res"
  assumes dec_iff: "dec m p = Ok x \<longleftrightarrow> wf x \<and> holds m p (enc x)"
begin

lemma dec_enc: "wf x \<Longrightarrow> holds m p (enc x) \<Longrightarrow> dec m p = Ok x"
  by (simp add: dec_iff)

lemma dec_map_file:
  "wf x \<Longrightarrow> p \<noteq> 0 \<Longrightarrow> unat p + length (enc x) \<le> 2 ^ 64 \<Longrightarrow> dec (map_file m p (enc x)) p = Ok x"
  by (simp add: dec_iff map_file_holds)

lemma dec_unchanged:
  assumes "dec m p = Ok x" and "\<And>a. a \<in> region p (length (enc x)) \<Longrightarrow> m' a = m a"
  shows "dec m' p = Ok x"
  using assms holds_cong [of m p "enc x" m'] by (simp add: dec_iff)

lemma dec_store64:
  assumes "dec m p = Ok x" and "store64 m q w = Ok m'" and "apart q 8 p (length (enc x))"
  shows "dec m' p = Ok x"
  using assms store64_frame unfolding dec_iff by blast

lemma enc_inj: "wf x \<Longrightarrow> wf y \<Longrightarrow> length (enc x) < 2 ^ 64 \<Longrightarrow> enc x = enc y \<Longrightarrow> x = y"
  using dec_map_file [of x 1 Map.empty] dec_map_file [of y 1 Map.empty]
  by (metis Inr_inject Suc_leI unat_1 plus_1_eq_Suc zero_neq_one)

end

locale fixed_codec = codec +
  fixes width :: nat
  assumes width: "wf x \<Longrightarrow> length (enc x) = width"
    and dec_total: "mapped m p width \<Longrightarrow> is_ok (dec m p)"
begin

lemma dec_ok_iff: "is_ok (dec m p) \<longleftrightarrow> mapped m p width"
  using dec_total holds_mapped width unfolding is_ok_iff dec_iff by metis

lemma length_concat_enc: "\<forall>x\<in>set xs. wf x \<Longrightarrow> length (concat (map enc xs)) = width * length xs"
  by (induction xs) (simp_all add: width)

lemma dec_array:
  assumes wf: "\<forall>x\<in>set xs. wf x" and "holds m p (concat (map enc xs))" and "i < length xs"
  shows "dec m (p + of_nat (width * i)) = Ok (xs ! i)"
proof -
  from assms(3) have "xs = take i xs @ xs ! i # drop (Suc i) xs" by (rule id_take_nth_drop)
  then have "concat (map enc xs) =
      concat (map enc (take i xs)) @ enc (xs ! i) @ concat (map enc (drop (Suc i) xs))"
    by (metis concat.simps(2) concat_append list.simps(9) map_append)
  moreover have "length (concat (map enc (take i xs))) = width * i"
    using assms(3) length_concat_enc [of "take i xs"] wf by (auto dest: in_set_takeD)
  ultimately have "holds m (p + of_nat (width * i)) (enc (xs ! i))"
    using assms(2) by (simp add: holds_append)
  then show ?thesis using wf assms(3) by (intro dec_enc) auto
qed

end

interpretation c16: fixed_codec "\<lambda>_. True" "word_bytes 2" load16 2
  by unfold_locales (simp_all add: load16_iff load_mapped)

interpretation c32: fixed_codec "\<lambda>_. True" "word_bytes 4" load32 4
  by unfold_locales (simp_all add: load32_iff load_mapped)

interpretation c64: fixed_codec "\<lambda>_. True" "word_bytes 8" load64 8
  by unfold_locales (simp_all add: load64_iff load_mapped)

end
