(* ===== verification/Mal_MachO.thy ===== *)
theory Mal_MachO
  imports Mal_Memory
begin

text \<open>
  The parts of the Mach-O file format the loader reads, from \<^verbatim>\<open>mach-o/loader.h\<close> and
  \<^verbatim>\<open>mach-o/nlist.h\<close>, on an LP64 little-endian target: one record per struct, the reader
  that copies it out of memory field by field at the offsets the C layout gives, the
  encoding as bytes, and an interpretation of \<open>fixed_codec\<close> that ties the two. No struct
  here has padding, so its \<open>sizeof\<close> is the sum of its fields.

  Signed 32-bit fields (\<open>cputype\<close>, \<open>maxprot\<close> and the like) are kept as their 32 bits; the
  loader only prints them.
\<close>

section \<open>Constants\<close>

named_theorems macho_consts \<open>the numeric values of the format's constants\<close>

definition MH_MAGIC :: u32 where [macho_consts]: "MH_MAGIC = 0xfeedface"
definition MH_MAGIC_64 :: u32 where [macho_consts]: "MH_MAGIC_64 = 0xfeedfacf"
definition MH_EXECUTE :: u32 where [macho_consts]: "MH_EXECUTE = 0x2"

definition LC_REQ_DYLD :: u32 where [macho_consts]: "LC_REQ_DYLD = 0x80000000"
definition LC_SEGMENT :: u32 where [macho_consts]: "LC_SEGMENT = 0x1"
definition LC_SYMTAB :: u32 where [macho_consts]: "LC_SYMTAB = 0x2"
definition LC_DYSYMTAB :: u32 where [macho_consts]: "LC_DYSYMTAB = 0xb"
definition LC_LOAD_DYLIB :: u32 where [macho_consts]: "LC_LOAD_DYLIB = 0xc"
definition LC_LOAD_DYLINKER :: u32 where [macho_consts]: "LC_LOAD_DYLINKER = 0xe"
definition LC_SEGMENT_64 :: u32 where [macho_consts]: "LC_SEGMENT_64 = 0x19"
definition LC_DYLD_INFO :: u32 where [macho_consts]: "LC_DYLD_INFO = 0x22"
definition LC_DYLD_INFO_ONLY :: u32 where
  [macho_consts]: "LC_DYLD_INFO_ONLY = 0x22 OR LC_REQ_DYLD"
definition LC_MAIN :: u32 where [macho_consts]: "LC_MAIN = 0x28 OR LC_REQ_DYLD"
definition LC_DYLD_EXPORTS_TRIE :: u32 where
  [macho_consts]: "LC_DYLD_EXPORTS_TRIE = 0x33 OR LC_REQ_DYLD"
definition LC_DYLD_CHAINED_FIXUPS :: u32 where
  [macho_consts]: "LC_DYLD_CHAINED_FIXUPS = 0x34 OR LC_REQ_DYLD"

definition SEG_PAGEZERO :: string where "SEG_PAGEZERO = ''__PAGEZERO''"
definition SEG_TEXT :: string where "SEG_TEXT = ''__TEXT''"

section \<open>File headers\<close>

record mach_header =
  magic :: u32
  cputype :: u32
  cpusubtype :: u32
  filetype :: u32
  ncmds :: u32
  sizeofcmds :: u32
  hdr_flags :: u32

record mach_header_64 = mach_header +
  reserved :: u32

definition read_mach_header :: "memory \<Rightarrow> addr \<Rightarrow> mach_header res" where
  "read_mach_header m p =
     res_bind (load32 m p) (\<lambda>v0.
     res_bind (load32 m (p + 4)) (\<lambda>v1.
     res_bind (load32 m (p + 8)) (\<lambda>v2.
     res_bind (load32 m (p + 12)) (\<lambda>v3.
     res_bind (load32 m (p + 16)) (\<lambda>v4.
     res_bind (load32 m (p + 20)) (\<lambda>v5.
     res_bind (load32 m (p + 24)) (\<lambda>v6.
     Ok \<lparr>magic = v0, cputype = v1, cpusubtype = v2, filetype = v3, ncmds = v4,
         sizeofcmds = v5, hdr_flags = v6\<rparr>)))))))"

definition enc_mach_header :: "mach_header \<Rightarrow> byte list" where
  "enc_mach_header h =
     word_bytes 4 (magic h) @ word_bytes 4 (cputype h) @ word_bytes 4 (cpusubtype h) @
     word_bytes 4 (filetype h) @ word_bytes 4 (ncmds h) @ word_bytes 4 (sizeofcmds h) @
     word_bytes 4 (hdr_flags h)"

interpretation mh32: fixed_codec "\<lambda>_. True" enc_mach_header read_mach_header 28
proof unfold_locales
  show "read_mach_header m p = Ok h \<longleftrightarrow> True \<and> holds m p (enc_mach_header h)" for m p h
    by (cases h) (auto simp: read_mach_header_def enc_mach_header_def reader_simps)
  show "is_ok (read_mach_header m p)" if "mapped m p 28" for m p
    using that by (auto simp: read_mach_header_def reader_total intro: reader_intros)
qed (simp add: enc_mach_header_def)

definition read_mach_header_64 :: "memory \<Rightarrow> addr \<Rightarrow> mach_header_64 res" where
  "read_mach_header_64 m p =
     res_bind (load32 m p) (\<lambda>v0.
     res_bind (load32 m (p + 4)) (\<lambda>v1.
     res_bind (load32 m (p + 8)) (\<lambda>v2.
     res_bind (load32 m (p + 12)) (\<lambda>v3.
     res_bind (load32 m (p + 16)) (\<lambda>v4.
     res_bind (load32 m (p + 20)) (\<lambda>v5.
     res_bind (load32 m (p + 24)) (\<lambda>v6.
     res_bind (load32 m (p + 28)) (\<lambda>v7.
     Ok \<lparr>magic = v0, cputype = v1, cpusubtype = v2, filetype = v3, ncmds = v4,
         sizeofcmds = v5, hdr_flags = v6, reserved = v7\<rparr>))))))))"

definition enc_mach_header_64 :: "mach_header_64 \<Rightarrow> byte list" where
  "enc_mach_header_64 h =
     word_bytes 4 (magic h) @ word_bytes 4 (cputype h) @ word_bytes 4 (cpusubtype h) @
     word_bytes 4 (filetype h) @ word_bytes 4 (ncmds h) @ word_bytes 4 (sizeofcmds h) @
     word_bytes 4 (hdr_flags h) @ word_bytes 4 (reserved h)"

interpretation mh64: fixed_codec "\<lambda>_. True" enc_mach_header_64 read_mach_header_64 32
proof unfold_locales
  show "read_mach_header_64 m p = Ok h \<longleftrightarrow> True \<and> holds m p (enc_mach_header_64 h)" for m p h
    by (cases h) (auto simp: read_mach_header_64_def enc_mach_header_64_def reader_simps)
  show "is_ok (read_mach_header_64 m p)" if "mapped m p 32" for m p
    using that by (auto simp: read_mach_header_64_def reader_total intro: reader_intros)
qed (simp add: enc_mach_header_64_def)

section \<open>Segment commands and sections\<close>

record load_command =
  cmd :: u32
  cmdsize :: u32

record segment_command_64 = load_command +
  segname :: "byte list"
  vmaddr :: u64
  vmsize :: u64
  fileoff :: u64
  filesize :: u64
  maxprot :: u32
  initprot :: u32
  nsects :: u32
  sc_flags :: u32

definition read_segment_command_64 :: "memory \<Rightarrow> addr \<Rightarrow> segment_command_64 res" where
  "read_segment_command_64 m p =
     res_bind (load32 m p) (\<lambda>v0.
     res_bind (load32 m (p + 4)) (\<lambda>v1.
     res_bind (load_bytes m (p + 8) 16) (\<lambda>v2.
     res_bind (load64 m (p + 24)) (\<lambda>v3.
     res_bind (load64 m (p + 32)) (\<lambda>v4.
     res_bind (load64 m (p + 40)) (\<lambda>v5.
     res_bind (load64 m (p + 48)) (\<lambda>v6.
     res_bind (load32 m (p + 56)) (\<lambda>v7.
     res_bind (load32 m (p + 60)) (\<lambda>v8.
     res_bind (load32 m (p + 64)) (\<lambda>v9.
     res_bind (load32 m (p + 68)) (\<lambda>v10.
     Ok \<lparr>cmd = v0, cmdsize = v1, segname = v2, vmaddr = v3, vmsize = v4, fileoff = v5,
         filesize = v6, maxprot = v7, initprot = v8, nsects = v9, sc_flags = v10\<rparr>)))))))))))"

definition enc_segment_command_64 :: "segment_command_64 \<Rightarrow> byte list" where
  "enc_segment_command_64 s =
     word_bytes 4 (cmd s) @ word_bytes 4 (cmdsize s) @ segname s @ word_bytes 8 (vmaddr s) @
     word_bytes 8 (vmsize s) @ word_bytes 8 (fileoff s) @ word_bytes 8 (filesize s) @
     word_bytes 4 (maxprot s) @ word_bytes 4 (initprot s) @ word_bytes 4 (nsects s) @
     word_bytes 4 (sc_flags s)"

definition wf_segment_command_64 :: "segment_command_64 \<Rightarrow> bool" where
  "wf_segment_command_64 s \<longleftrightarrow> length (segname s) = 16"

interpretation sc64: fixed_codec wf_segment_command_64 enc_segment_command_64
    read_segment_command_64 72
proof unfold_locales
  show "read_segment_command_64 m p = Ok s \<longleftrightarrow>
      wf_segment_command_64 s \<and> holds m p (enc_segment_command_64 s)" for m p s
    by (cases s) (auto simp: read_segment_command_64_def enc_segment_command_64_def
        wf_segment_command_64_def reader_simps)
  show "is_ok (read_segment_command_64 m p)" if "mapped m p 72" for m p
    using that
    by (auto simp: read_segment_command_64_def reader_total intro: reader_intros)
qed (simp add: enc_segment_command_64_def wf_segment_command_64_def)

record section_64 =
  sectname :: "byte list"
  sect_segname :: "byte list"
  sect_addr :: u64
  sect_size :: u64
  sect_offset :: u32
  sect_align :: u32
  reloff :: u32
  nreloc :: u32
  sect_flags :: u32
  reserved1 :: u32
  reserved2 :: u32
  reserved3 :: u32

definition read_section_64 :: "memory \<Rightarrow> addr \<Rightarrow> section_64 res" where
  "read_section_64 m p =
     res_bind (load_bytes m p 16) (\<lambda>v0.
     res_bind (load_bytes m (p + 16) 16) (\<lambda>v1.
     res_bind (load64 m (p + 32)) (\<lambda>v2.
     res_bind (load64 m (p + 40)) (\<lambda>v3.
     res_bind (load32 m (p + 48)) (\<lambda>v4.
     res_bind (load32 m (p + 52)) (\<lambda>v5.
     res_bind (load32 m (p + 56)) (\<lambda>v6.
     res_bind (load32 m (p + 60)) (\<lambda>v7.
     res_bind (load32 m (p + 64)) (\<lambda>v8.
     res_bind (load32 m (p + 68)) (\<lambda>v9.
     res_bind (load32 m (p + 72)) (\<lambda>v10.
     res_bind (load32 m (p + 76)) (\<lambda>v11.
     Ok \<lparr>sectname = v0, sect_segname = v1, sect_addr = v2, sect_size = v3, sect_offset =
         v4, sect_align = v5, reloff = v6, nreloc = v7, sect_flags = v8, reserved1 = v9,
         reserved2 = v10, reserved3 = v11\<rparr>))))))))))))"

definition enc_section_64 :: "section_64 \<Rightarrow> byte list" where
  "enc_section_64 s =
     sectname s @ sect_segname s @ word_bytes 8 (sect_addr s) @
     word_bytes 8 (sect_size s) @ word_bytes 4 (sect_offset s) @
     word_bytes 4 (sect_align s) @ word_bytes 4 (reloff s) @ word_bytes 4 (nreloc s) @
     word_bytes 4 (sect_flags s) @ word_bytes 4 (reserved1 s) @
     word_bytes 4 (reserved2 s) @ word_bytes 4 (reserved3 s)"

definition wf_section_64 :: "section_64 \<Rightarrow> bool" where
  "wf_section_64 s \<longleftrightarrow> length (sectname s) = 16 \<and> length (sect_segname s) = 16"

interpretation sect64: fixed_codec wf_section_64 enc_section_64
    read_section_64 80
proof unfold_locales
  show "read_section_64 m p = Ok s \<longleftrightarrow>
      wf_section_64 s \<and> holds m p (enc_section_64 s)" for m p s
    by (cases s) (auto simp: read_section_64_def enc_section_64_def
        wf_section_64_def reader_simps)
  show "is_ok (read_section_64 m p)" if "mapped m p 80" for m p
    using that
    by (auto simp: read_section_64_def reader_total intro: reader_intros)
qed (simp add: enc_section_64_def wf_section_64_def)

record segment_command = load_command +
  segname32 :: "byte list"
  vmaddr32 :: u32
  vmsize32 :: u32
  fileoff32 :: u32
  filesize32 :: u32
  maxprot32 :: u32
  initprot32 :: u32
  nsects32 :: u32
  sc_flags32 :: u32

definition read_segment_command :: "memory \<Rightarrow> addr \<Rightarrow> segment_command res" where
  "read_segment_command m p =
     res_bind (load32 m p) (\<lambda>v0.
     res_bind (load32 m (p + 4)) (\<lambda>v1.
     res_bind (load_bytes m (p + 8) 16) (\<lambda>v2.
     res_bind (load32 m (p + 24)) (\<lambda>v3.
     res_bind (load32 m (p + 28)) (\<lambda>v4.
     res_bind (load32 m (p + 32)) (\<lambda>v5.
     res_bind (load32 m (p + 36)) (\<lambda>v6.
     res_bind (load32 m (p + 40)) (\<lambda>v7.
     res_bind (load32 m (p + 44)) (\<lambda>v8.
     res_bind (load32 m (p + 48)) (\<lambda>v9.
     res_bind (load32 m (p + 52)) (\<lambda>v10.
     Ok \<lparr>cmd = v0, cmdsize = v1, segname32 = v2, vmaddr32 = v3, vmsize32 = v4, fileoff32 =
         v5, filesize32 = v6, maxprot32 = v7, initprot32 = v8, nsects32 = v9, sc_flags32 =
         v10\<rparr>)))))))))))"

definition enc_segment_command :: "segment_command \<Rightarrow> byte list" where
  "enc_segment_command s =
     word_bytes 4 (cmd s) @ word_bytes 4 (cmdsize s) @ segname32 s @
     word_bytes 4 (vmaddr32 s) @ word_bytes 4 (vmsize32 s) @ word_bytes 4 (fileoff32 s) @
     word_bytes 4 (filesize32 s) @ word_bytes 4 (maxprot32 s) @
     word_bytes 4 (initprot32 s) @ word_bytes 4 (nsects32 s) @
     word_bytes 4 (sc_flags32 s)"

definition wf_segment_command :: "segment_command \<Rightarrow> bool" where
  "wf_segment_command s \<longleftrightarrow> length (segname32 s) = 16"

interpretation sc32: fixed_codec wf_segment_command enc_segment_command
    read_segment_command 56
proof unfold_locales
  show "read_segment_command m p = Ok s \<longleftrightarrow>
      wf_segment_command s \<and> holds m p (enc_segment_command s)" for m p s
    by (cases s) (auto simp: read_segment_command_def enc_segment_command_def
        wf_segment_command_def reader_simps)
  show "is_ok (read_segment_command m p)" if "mapped m p 56" for m p
    using that
    by (auto simp: read_segment_command_def reader_total intro: reader_intros)
qed (simp add: enc_segment_command_def wf_segment_command_def)

record section_32 =
  sectname32 :: "byte list"
  sect_segname32 :: "byte list"
  sect_addr32 :: u32
  sect_size32 :: u32
  sect_offset32 :: u32
  sect_align32 :: u32
  reloff32 :: u32
  nreloc32 :: u32
  sect_flags32 :: u32
  reserved1_32 :: u32
  reserved2_32 :: u32

definition read_section_32 :: "memory \<Rightarrow> addr \<Rightarrow> section_32 res" where
  "read_section_32 m p =
     res_bind (load_bytes m p 16) (\<lambda>v0.
     res_bind (load_bytes m (p + 16) 16) (\<lambda>v1.
     res_bind (load32 m (p + 32)) (\<lambda>v2.
     res_bind (load32 m (p + 36)) (\<lambda>v3.
     res_bind (load32 m (p + 40)) (\<lambda>v4.
     res_bind (load32 m (p + 44)) (\<lambda>v5.
     res_bind (load32 m (p + 48)) (\<lambda>v6.
     res_bind (load32 m (p + 52)) (\<lambda>v7.
     res_bind (load32 m (p + 56)) (\<lambda>v8.
     res_bind (load32 m (p + 60)) (\<lambda>v9.
     res_bind (load32 m (p + 64)) (\<lambda>v10.
     Ok \<lparr>sectname32 = v0, sect_segname32 = v1, sect_addr32 = v2, sect_size32 = v3,
         sect_offset32 = v4, sect_align32 = v5, reloff32 = v6, nreloc32 = v7, sect_flags32
         = v8, reserved1_32 = v9, reserved2_32 = v10\<rparr>)))))))))))"

definition enc_section_32 :: "section_32 \<Rightarrow> byte list" where
  "enc_section_32 s =
     sectname32 s @ sect_segname32 s @ word_bytes 4 (sect_addr32 s) @
     word_bytes 4 (sect_size32 s) @ word_bytes 4 (sect_offset32 s) @
     word_bytes 4 (sect_align32 s) @ word_bytes 4 (reloff32 s) @
     word_bytes 4 (nreloc32 s) @ word_bytes 4 (sect_flags32 s) @
     word_bytes 4 (reserved1_32 s) @ word_bytes 4 (reserved2_32 s)"

definition wf_section_32 :: "section_32 \<Rightarrow> bool" where
  "wf_section_32 s \<longleftrightarrow> length (sectname32 s) = 16 \<and> length (sect_segname32 s) = 16"

interpretation sect32: fixed_codec wf_section_32 enc_section_32
    read_section_32 68
proof unfold_locales
  show "read_section_32 m p = Ok s \<longleftrightarrow>
      wf_section_32 s \<and> holds m p (enc_section_32 s)" for m p s
    by (cases s) (auto simp: read_section_32_def enc_section_32_def
        wf_section_32_def reader_simps)
  show "is_ok (read_section_32 m p)" if "mapped m p 68" for m p
    using that
    by (auto simp: read_section_32_def reader_total intro: reader_intros)
qed (simp add: enc_section_32_def wf_section_32_def)

section \<open>Link-edit commands\<close>

record symtab_command = load_command +
  symoff :: u32
  nsyms :: u32
  stroff :: u32
  strsize :: u32

definition read_symtab_command :: "memory \<Rightarrow> addr \<Rightarrow> symtab_command res" where
  "read_symtab_command m p =
     res_bind (load32 m p) (\<lambda>v0.
     res_bind (load32 m (p + 4)) (\<lambda>v1.
     res_bind (load32 m (p + 8)) (\<lambda>v2.
     res_bind (load32 m (p + 12)) (\<lambda>v3.
     res_bind (load32 m (p + 16)) (\<lambda>v4.
     res_bind (load32 m (p + 20)) (\<lambda>v5.
     Ok \<lparr>cmd = v0, cmdsize = v1, symoff = v2, nsyms = v3, stroff = v4, strsize = v5\<rparr>))))))"

definition enc_symtab_command :: "symtab_command \<Rightarrow> byte list" where
  "enc_symtab_command s =
     word_bytes 4 (cmd s) @ word_bytes 4 (cmdsize s) @ word_bytes 4 (symoff s) @
     word_bytes 4 (nsyms s) @ word_bytes 4 (stroff s) @ word_bytes 4 (strsize s)"

interpretation symtab: fixed_codec "\<lambda>_. True" enc_symtab_command
    read_symtab_command 24
proof unfold_locales
  show "read_symtab_command m p = Ok s \<longleftrightarrow>
      True \<and> holds m p (enc_symtab_command s)" for m p s
    by (cases s) (auto simp: read_symtab_command_def enc_symtab_command_def
        reader_simps)
  show "is_ok (read_symtab_command m p)" if "mapped m p 24" for m p
    using that
    by (auto simp: read_symtab_command_def reader_total intro: reader_intros)
qed (simp add: enc_symtab_command_def)

record dysymtab_command = load_command +
  ilocalsym :: u32
  nlocalsym :: u32
  iextdefsym :: u32
  nextdefsym :: u32
  iundefsym :: u32
  nundefsym :: u32
  tocoff :: u32
  ntoc :: u32
  modtaboff :: u32
  nmodtab :: u32
  extrefsymoff :: u32
  nextrefsyms :: u32
  indirectsymoff :: u32
  nindirectsyms :: u32
  extreloff :: u32
  nextrel :: u32
  locreloff :: u32
  nlocrel :: u32

definition read_dysymtab_command :: "memory \<Rightarrow> addr \<Rightarrow> dysymtab_command res" where
  "read_dysymtab_command m p =
     res_bind (load32 m p) (\<lambda>v0.
     res_bind (load32 m (p + 4)) (\<lambda>v1.
     res_bind (load32 m (p + 8)) (\<lambda>v2.
     res_bind (load32 m (p + 12)) (\<lambda>v3.
     res_bind (load32 m (p + 16)) (\<lambda>v4.
     res_bind (load32 m (p + 20)) (\<lambda>v5.
     res_bind (load32 m (p + 24)) (\<lambda>v6.
     res_bind (load32 m (p + 28)) (\<lambda>v7.
     res_bind (load32 m (p + 32)) (\<lambda>v8.
     res_bind (load32 m (p + 36)) (\<lambda>v9.
     res_bind (load32 m (p + 40)) (\<lambda>v10.
     res_bind (load32 m (p + 44)) (\<lambda>v11.
     res_bind (load32 m (p + 48)) (\<lambda>v12.
     res_bind (load32 m (p + 52)) (\<lambda>v13.
     res_bind (load32 m (p + 56)) (\<lambda>v14.
     res_bind (load32 m (p + 60)) (\<lambda>v15.
     res_bind (load32 m (p + 64)) (\<lambda>v16.
     res_bind (load32 m (p + 68)) (\<lambda>v17.
     res_bind (load32 m (p + 72)) (\<lambda>v18.
     res_bind (load32 m (p + 76)) (\<lambda>v19.
     Ok \<lparr>cmd = v0, cmdsize = v1, ilocalsym = v2, nlocalsym = v3, iextdefsym = v4,
         nextdefsym = v5, iundefsym = v6, nundefsym = v7, tocoff = v8, ntoc = v9, modtaboff
         = v10, nmodtab = v11, extrefsymoff = v12, nextrefsyms = v13, indirectsymoff = v14,
         nindirectsyms = v15, extreloff = v16, nextrel = v17, locreloff = v18, nlocrel =
         v19\<rparr>))))))))))))))))))))"

definition enc_dysymtab_command :: "dysymtab_command \<Rightarrow> byte list" where
  "enc_dysymtab_command s =
     word_bytes 4 (cmd s) @ word_bytes 4 (cmdsize s) @ word_bytes 4 (ilocalsym s) @
     word_bytes 4 (nlocalsym s) @ word_bytes 4 (iextdefsym s) @
     word_bytes 4 (nextdefsym s) @ word_bytes 4 (iundefsym s) @
     word_bytes 4 (nundefsym s) @ word_bytes 4 (tocoff s) @ word_bytes 4 (ntoc s) @
     word_bytes 4 (modtaboff s) @ word_bytes 4 (nmodtab s) @
     word_bytes 4 (extrefsymoff s) @ word_bytes 4 (nextrefsyms s) @
     word_bytes 4 (indirectsymoff s) @ word_bytes 4 (nindirectsyms s) @
     word_bytes 4 (extreloff s) @ word_bytes 4 (nextrel s) @ word_bytes 4 (locreloff s) @
     word_bytes 4 (nlocrel s)"

interpretation dysymtab: fixed_codec "\<lambda>_. True" enc_dysymtab_command
    read_dysymtab_command 80
proof unfold_locales
  show "read_dysymtab_command m p = Ok s \<longleftrightarrow>
      True \<and> holds m p (enc_dysymtab_command s)" for m p s
    by (cases s) (auto simp: read_dysymtab_command_def enc_dysymtab_command_def
        reader_simps)
  show "is_ok (read_dysymtab_command m p)" if "mapped m p 80" for m p
    using that
    by (auto simp: read_dysymtab_command_def reader_total intro: reader_intros)
qed (simp add: enc_dysymtab_command_def)

record dyld_info_command = load_command +
  rebase_off :: u32
  rebase_size :: u32
  bind_off :: u32
  bind_size :: u32
  weak_bind_off :: u32
  weak_bind_size :: u32
  lazy_bind_off :: u32
  lazy_bind_size :: u32
  export_off :: u32
  export_size :: u32

definition read_dyld_info_command :: "memory \<Rightarrow> addr \<Rightarrow> dyld_info_command res" where
  "read_dyld_info_command m p =
     res_bind (load32 m p) (\<lambda>v0.
     res_bind (load32 m (p + 4)) (\<lambda>v1.
     res_bind (load32 m (p + 8)) (\<lambda>v2.
     res_bind (load32 m (p + 12)) (\<lambda>v3.
     res_bind (load32 m (p + 16)) (\<lambda>v4.
     res_bind (load32 m (p + 20)) (\<lambda>v5.
     res_bind (load32 m (p + 24)) (\<lambda>v6.
     res_bind (load32 m (p + 28)) (\<lambda>v7.
     res_bind (load32 m (p + 32)) (\<lambda>v8.
     res_bind (load32 m (p + 36)) (\<lambda>v9.
     res_bind (load32 m (p + 40)) (\<lambda>v10.
     res_bind (load32 m (p + 44)) (\<lambda>v11.
     Ok \<lparr>cmd = v0, cmdsize = v1, rebase_off = v2, rebase_size = v3, bind_off = v4,
         bind_size = v5, weak_bind_off = v6, weak_bind_size = v7, lazy_bind_off = v8,
         lazy_bind_size = v9, export_off = v10, export_size = v11\<rparr>))))))))))))"

definition enc_dyld_info_command :: "dyld_info_command \<Rightarrow> byte list" where
  "enc_dyld_info_command s =
     word_bytes 4 (cmd s) @ word_bytes 4 (cmdsize s) @ word_bytes 4 (rebase_off s) @
     word_bytes 4 (rebase_size s) @ word_bytes 4 (bind_off s) @
     word_bytes 4 (bind_size s) @ word_bytes 4 (weak_bind_off s) @
     word_bytes 4 (weak_bind_size s) @ word_bytes 4 (lazy_bind_off s) @
     word_bytes 4 (lazy_bind_size s) @ word_bytes 4 (export_off s) @
     word_bytes 4 (export_size s)"

interpretation dyinfo: fixed_codec "\<lambda>_. True" enc_dyld_info_command
    read_dyld_info_command 48
proof unfold_locales
  show "read_dyld_info_command m p = Ok s \<longleftrightarrow>
      True \<and> holds m p (enc_dyld_info_command s)" for m p s
    by (cases s) (auto simp: read_dyld_info_command_def enc_dyld_info_command_def
        reader_simps)
  show "is_ok (read_dyld_info_command m p)" if "mapped m p 48" for m p
    using that
    by (auto simp: read_dyld_info_command_def reader_total intro: reader_intros)
qed (simp add: enc_dyld_info_command_def)

record linkedit_data_command = load_command +
  dataoff :: u32
  datasize :: u32

definition read_linkedit_data_command :: "memory \<Rightarrow> addr \<Rightarrow> linkedit_data_command res" where
  "read_linkedit_data_command m p =
     res_bind (load32 m p) (\<lambda>v0.
     res_bind (load32 m (p + 4)) (\<lambda>v1.
     res_bind (load32 m (p + 8)) (\<lambda>v2.
     res_bind (load32 m (p + 12)) (\<lambda>v3.
     Ok \<lparr>cmd = v0, cmdsize = v1, dataoff = v2, datasize = v3\<rparr>))))"

definition enc_linkedit_data_command :: "linkedit_data_command \<Rightarrow> byte list" where
  "enc_linkedit_data_command s =
     word_bytes 4 (cmd s) @ word_bytes 4 (cmdsize s) @ word_bytes 4 (dataoff s) @
     word_bytes 4 (datasize s)"

interpretation linkedit: fixed_codec "\<lambda>_. True" enc_linkedit_data_command
    read_linkedit_data_command 16
proof unfold_locales
  show "read_linkedit_data_command m p = Ok s \<longleftrightarrow>
      True \<and> holds m p (enc_linkedit_data_command s)" for m p s
    by (cases s) (auto simp: read_linkedit_data_command_def enc_linkedit_data_command_def
        reader_simps)
  show "is_ok (read_linkedit_data_command m p)" if "mapped m p 16" for m p
    using that
    by (auto simp: read_linkedit_data_command_def reader_total intro: reader_intros)
qed (simp add: enc_linkedit_data_command_def)

record dylib_command = load_command +
  dylib_name_offset :: u32
  timestamp :: u32
  current_version :: u32
  compatibility_version :: u32

definition read_dylib_command :: "memory \<Rightarrow> addr \<Rightarrow> dylib_command res" where
  "read_dylib_command m p =
     res_bind (load32 m p) (\<lambda>v0.
     res_bind (load32 m (p + 4)) (\<lambda>v1.
     res_bind (load32 m (p + 8)) (\<lambda>v2.
     res_bind (load32 m (p + 12)) (\<lambda>v3.
     res_bind (load32 m (p + 16)) (\<lambda>v4.
     res_bind (load32 m (p + 20)) (\<lambda>v5.
     Ok \<lparr>cmd = v0, cmdsize = v1, dylib_name_offset = v2, timestamp = v3, current_version =
         v4, compatibility_version = v5\<rparr>))))))"

definition enc_dylib_command :: "dylib_command \<Rightarrow> byte list" where
  "enc_dylib_command s =
     word_bytes 4 (cmd s) @ word_bytes 4 (cmdsize s) @ word_bytes 4 (dylib_name_offset s) @
     word_bytes 4 (timestamp s) @ word_bytes 4 (current_version s) @
     word_bytes 4 (compatibility_version s)"

interpretation dylib: fixed_codec "\<lambda>_. True" enc_dylib_command
    read_dylib_command 24
proof unfold_locales
  show "read_dylib_command m p = Ok s \<longleftrightarrow>
      True \<and> holds m p (enc_dylib_command s)" for m p s
    by (cases s) (auto simp: read_dylib_command_def enc_dylib_command_def
        reader_simps)
  show "is_ok (read_dylib_command m p)" if "mapped m p 24" for m p
    using that
    by (auto simp: read_dylib_command_def reader_total intro: reader_intros)
qed (simp add: enc_dylib_command_def)

section \<open>Symbol table entries\<close>

record nlist_64 =
  n_strx :: u32
  n_type :: byte
  n_sect :: byte
  n_desc :: u16
  n_value :: u64

definition read_nlist_64 :: "memory \<Rightarrow> addr \<Rightarrow> nlist_64 res" where
  "read_nlist_64 m p =
     res_bind (load32 m p) (\<lambda>v0.
     res_bind (load8 m (p + 4)) (\<lambda>v1.
     res_bind (load8 m (p + 5)) (\<lambda>v2.
     res_bind (load16 m (p + 6)) (\<lambda>v3.
     res_bind (load64 m (p + 8)) (\<lambda>v4.
     Ok \<lparr>n_strx = v0, n_type = v1, n_sect = v2, n_desc = v3, n_value = v4\<rparr>)))))"

definition enc_nlist_64 :: "nlist_64 \<Rightarrow> byte list" where
  "enc_nlist_64 s =
     word_bytes 4 (n_strx s) @ [n_type s] @ [n_sect s] @ word_bytes 2 (n_desc s) @
     word_bytes 8 (n_value s)"

interpretation nl64: fixed_codec "\<lambda>_. True" enc_nlist_64
    read_nlist_64 16
proof unfold_locales
  show "read_nlist_64 m p = Ok s \<longleftrightarrow>
      True \<and> holds m p (enc_nlist_64 s)" for m p s
    by (cases s) (auto simp: read_nlist_64_def enc_nlist_64_def
        reader_simps)
  show "is_ok (read_nlist_64 m p)" if "mapped m p 16" for m p
    using that
    by (auto simp: read_nlist_64_def reader_total intro: reader_intros)
qed (simp add: enc_nlist_64_def)

record nlist =
  n_strx32 :: u32
  n_type32 :: byte
  n_sect32 :: byte
  n_desc32 :: u16
  n_value32 :: u32

definition read_nlist :: "memory \<Rightarrow> addr \<Rightarrow> nlist res" where
  "read_nlist m p =
     res_bind (load32 m p) (\<lambda>v0.
     res_bind (load8 m (p + 4)) (\<lambda>v1.
     res_bind (load8 m (p + 5)) (\<lambda>v2.
     res_bind (load16 m (p + 6)) (\<lambda>v3.
     res_bind (load32 m (p + 8)) (\<lambda>v4.
     Ok \<lparr>n_strx32 = v0, n_type32 = v1, n_sect32 = v2, n_desc32 = v3, n_value32 = v4\<rparr>)))))"

definition enc_nlist :: "nlist \<Rightarrow> byte list" where
  "enc_nlist s =
     word_bytes 4 (n_strx32 s) @ [n_type32 s] @ [n_sect32 s] @ word_bytes 2 (n_desc32 s) @
     word_bytes 4 (n_value32 s)"

interpretation nl32: fixed_codec "\<lambda>_. True" enc_nlist
    read_nlist 12
proof unfold_locales
  show "read_nlist m p = Ok s \<longleftrightarrow>
      True \<and> holds m p (enc_nlist s)" for m p s
    by (cases s) (auto simp: read_nlist_def enc_nlist_def
        reader_simps)
  show "is_ok (read_nlist m p)" if "mapped m p 12" for m p
    using that
    by (auto simp: read_nlist_def reader_total intro: reader_intros)
qed (simp add: enc_nlist_def)

end
