(* ===== verification/Mal_Context.thy ===== *)
theory Mal_Context
  imports Mal_MachO
begin

text \<open>
  The loader's state: \<open>mach_context\<close> of \<^verbatim>\<open>machctrl.h\<close> with the tables of \<^verbatim>\<open>bind.h\<close>, the
  static variables of \<^verbatim>\<open>bind.c\<close>, and the memory of the process, as one flat record that
  every operation takes and returns. The services of the host that the sources call but do
  not contain (the kernel's \<open>mmap\<close>, the allocator, \<open>dlopen\<close> and \<open>dlsym\<close>, the addresses of
  the loader's own functions and variables) are the parameter \<open>host\<close>.

  \<^item> A counted C array (\<open>b_list\<close>, \<open>d_list\<close>) is a list: its count field is the list's length.
    The fixed array \<open>segments\<close> is a list of 32 entries with its own counter.
  \<^item> A pointer is an address, \<open>NULL\<close> is 0. A library name is a pointer into the file or one
    of the literals of \<open>do_bind\<close>.
  \<^item> \<open>ctx_ok\<close> is the invariant of the tables, \<open>extends\<close> the order in which every operation
    of the loader moves the state: tables only grow, mapped memory stays mapped.
  \<^item> The locales \<open>framed_op\<close> and \<open>invariant_op\<close> carry such a one-step fact to loops.
\<close>

section \<open>Tables\<close>

record bind_info =
  func_name :: addr
  bind_address :: addr

record segment_info =
  seg_name :: "byte list"
  seg_vmaddr :: addr
  seg_vmsize :: u64
  mapped_addr :: addr

datatype dylib_name = In_Memory addr | Literal cstr

definition MACH_LOADER_MAX_SEGMENTS :: nat where
  "MACH_LOADER_MAX_SEGMENTS = 32"

definition zero_segment_info :: segment_info where
  "zero_segment_info =
     \<lparr>seg_name = replicate 16 0, seg_vmaddr = 0, seg_vmsize = 0, mapped_addr = 0\<rparr>"

section \<open>The process and the loader context\<close>

record process =
  mem :: memory
  libc_handle :: addr
  libm_handle :: addr
  mal_stdinp :: addr
  mal_stdoutp :: addr
  mal_stderrp :: addr

record mach_context = process +
  memblock :: addr
  ptr :: addr
  img_addr :: addr
  v_addr :: addr
  entry_point :: addr
  b_list :: "bind_info list"
  d_list :: "dylib_name list"
  n_segment_info :: nat
  segments :: "segment_info list"
  chained_rebase_count :: u32
  chained_bind_count :: u32
  chained_unresolved_bind_count :: u32
  argc :: int
  argv :: "cstr list"
  bit_width :: int

text \<open>\<open>mach_context c = {0};\<close> in \<open>main\<close>, over the memory the process starts with.\<close>

definition zero_context :: "memory \<Rightarrow> mach_context" where
  "zero_context m =
     \<lparr>mem = m, libc_handle = 0, libm_handle = 0, mal_stdinp = 0, mal_stdoutp = 0,
      mal_stderrp = 0, memblock = 0, ptr = 0, img_addr = 0, v_addr = 0, entry_point = 0,
      b_list = [], d_list = [], n_segment_info = 0,
      segments = replicate MACH_LOADER_MAX_SEGMENTS zero_segment_info,
      chained_rebase_count = 0, chained_bind_count = 0, chained_unresolved_bind_count = 0,
      argc = 0, argv = [], bit_width = 0\<rparr>"

section \<open>The host\<close>

text \<open>The functions and variables of \<^verbatim>\<open>bind.c\<close> whose addresses the loader hands out.\<close>

datatype shim =
    Mal_NSGetEnviron
  | Mal_Darwin_Error
  | Mal_Stack_Chk_Guard
  | Mal_Stdinp
  | Mal_Stdoutp
  | Mal_Stderrp
  | Mal_Chkstk_Darwin
  | Mal_Check_Fd_Set_Overflow
  | Mal_Memset_Pattern16
  | Mal_H_Errno
  | Mal_Atexit
  | Host_Mmap_For_Darwin
  | Guard

text \<open>
  \<open>host_mmap m hint len\<close> is where an anonymous private mapping of \<open>len\<close> bytes lands, \<open>None\<close>
  for \<open>MAP_FAILED\<close>. \<open>host_alloc n\<close> says whether \<open>malloc\<close> or \<open>realloc\<close> of \<open>n\<close> bytes succeeds.
  \<open>host_dlopen\<close> and \<open>host_dlsym\<close> return 0 for \<open>NULL\<close>; the handle 0 is \<open>RTLD_DEFAULT\<close>.
  Their answers depend on their arguments only.
\<close>

record host =
  host_open :: "cstr \<Rightarrow> byte list option"
  host_map_file :: "byte list \<Rightarrow> addr option"
  host_mmap :: "memory \<Rightarrow> addr \<Rightarrow> u64 \<Rightarrow> addr option"
  host_alloc :: "nat \<Rightarrow> bool"
  host_dlopen :: "cstr \<Rightarrow> addr"
  host_dlsym :: "addr \<Rightarrow> cstr \<Rightarrow> addr"
  host_shim :: "shim \<Rightarrow> addr"
  host_stdin :: addr
  host_stdout :: addr
  host_stderr :: addr

definition RTLD_DEFAULT :: addr where "RTLD_DEFAULT = 0"

text \<open>
  A concrete host, for the examples that accompany the properties: one image address, an
  allocator that succeeds, two libraries and one function each.
\<close>

definition example_host :: host where
  "example_host =
     \<lparr>host_open = (\<lambda>name. if name = lit ''a.out'' then Some [0xcf, 0xfa, 0xed, 0xfe] else None),
      host_map_file = (\<lambda>bs. if bs = [] then None else Some 0x1000),
      host_mmap = (\<lambda>m hint len. if len = 0 \<or> 0x10000000 < len then None else Some 0x200000000),
      host_alloc = (\<lambda>_. True),
      host_dlopen = (\<lambda>name. if name = lit ''libc.so.6'' then 0x7000
                            else if name = lit ''libm.so.6'' then 0x8000 else 0),
      host_dlsym = (\<lambda>lib name. if lib = 0x7000 \<and> name = lit ''puts'' then 0x7100
                               else if lib = 0x8000 \<and> name = lit ''sin'' then 0x8100 else 0),
      host_shim = (\<lambda>s. if s = Guard then 0x9000 else 0x9100),
      host_stdin = 0xa000, host_stdout = 0xa100, host_stderr = 0xa200\<rparr>"

section \<open>Invariant and order of the state\<close>

definition INT_MAX :: nat where "INT_MAX = 2 ^ 31 - 1"

definition ctx_ok :: "mach_context \<Rightarrow> bool" where
  "ctx_ok c \<longleftrightarrow>
     length (segments c) = MACH_LOADER_MAX_SEGMENTS \<and>
     n_segment_info c \<le> MACH_LOADER_MAX_SEGMENTS \<and>
     list_all (\<lambda>s. length (seg_name s) = 16) (segments c) \<and>
     length (b_list c) \<le> INT_MAX \<and> length (d_list c) \<le> INT_MAX"

definition is_prefix :: "'a list \<Rightarrow> 'a list \<Rightarrow> bool" where
  "is_prefix xs ys \<longleftrightarrow> take (length xs) ys = xs"

lemma is_prefix_iff: "is_prefix xs ys \<longleftrightarrow> (\<exists>zs. ys = xs @ zs)"
  unfolding is_prefix_def by (metis append_eq_conv_conj)

lemma is_prefix_refl [simp]: "is_prefix xs xs"
  by (simp add: is_prefix_def)

lemma is_prefix_append [simp]: "is_prefix xs (xs @ zs)"
  by (simp add: is_prefix_def)

lemma is_prefix_trans: "is_prefix xs ys \<Longrightarrow> is_prefix ys zs \<Longrightarrow> is_prefix xs zs"
  by (auto simp: is_prefix_iff)

definition extends :: "mach_context \<Rightarrow> mach_context \<Rightarrow> bool" where
  "extends c c' \<longleftrightarrow>
     (ctx_ok c \<longrightarrow> ctx_ok c') \<and>
     dom (mem c) \<subseteq> dom (mem c') \<and>
     memblock c' = memblock c \<and>
     is_prefix (b_list c) (b_list c') \<and>
     is_prefix (d_list c) (d_list c') \<and>
     n_segment_info c \<le> n_segment_info c' \<and>
     take (n_segment_info c) (segments c') = take (n_segment_info c) (segments c) \<and>
     argc c' = argc c \<and> argv c' = argv c \<and> bit_width c' = bit_width c"

lemma zero_context_ok: "ctx_ok (zero_context m)"
  by (simp add: ctx_ok_def zero_context_def zero_segment_info_def list_all_iff)

lemma extends_refl [simp]: "extends c c"
  by (simp add: extends_def)

lemma extends_trans: "extends c d \<Longrightarrow> extends d e \<Longrightarrow> extends c e"
proof -
  assume cd: "extends c d" and de: "extends d e"
  have "take (n_segment_info c) (segments e) =
      take (n_segment_info c) (take (n_segment_info d) (segments e))"
    using cd by (simp add: extends_def min_def)
  also have "\<dots> = take (n_segment_info c) (take (n_segment_info d) (segments d))"
    using de by (simp add: extends_def)
  also have "\<dots> = take (n_segment_info c) (segments c)"
    using cd by (simp add: extends_def min_def)
  finally show ?thesis using cd de unfolding extends_def
    by (auto intro: is_prefix_trans)
qed

lemma extends_ok: "extends c d \<Longrightarrow> ctx_ok c \<Longrightarrow> ctx_ok d"
  by (simp add: extends_def)

text \<open>Changing only fields that neither \<open>ctx_ok\<close> nor \<open>extends\<close> reads.\<close>

lemma extends_pointers [simp]:
  "extends c (c\<lparr>ptr := p\<rparr>)"
  "extends c (c\<lparr>entry_point := p\<rparr>)"
  "extends c (c\<lparr>img_addr := p\<rparr>)"
  "extends c (c\<lparr>v_addr := p\<rparr>)"
  "extends c (c\<lparr>chained_rebase_count := n\<rparr>)"
  "extends c (c\<lparr>chained_bind_count := n\<rparr>)"
  "extends c (c\<lparr>chained_unresolved_bind_count := n\<rparr>)"
  "extends c (c\<lparr>libc_handle := p\<rparr>)"
  "extends c (c\<lparr>libm_handle := p\<rparr>)"
  "extends c (c\<lparr>mal_stdinp := p\<rparr>)"
  "extends c (c\<lparr>mal_stdoutp := p\<rparr>)"
  "extends c (c\<lparr>mal_stderrp := p\<rparr>)"
  by (simp_all add: extends_def ctx_ok_def)

lemma extends_mem: "dom (mem c) \<subseteq> dom m \<Longrightarrow> extends c (c\<lparr>mem := m\<rparr>)"
  by (simp add: extends_def ctx_ok_def)

section \<open>From one step to a loop\<close>

locale framed_op =
  fixes R :: "'s \<Rightarrow> 's \<Rightarrow> bool"
    and op :: "'x \<Rightarrow> 's \<Rightarrow> 's res"
  assumes R_refl: "R s s"
    and R_trans: "R s t \<Longrightarrow> R t u \<Longrightarrow> R s u"
    and op_R: "op x s = Ok s' \<Longrightarrow> R s s'"
begin

lemma fold_R: "res_fold op xs s = Ok s' \<Longrightarrow> R s s'"
  by (induction xs arbitrary: s) (auto simp: res_bind_eq_Ok intro: R_refl R_trans op_R)

lemma loop_R: "for_upto i n (\<lambda>k. op (g k)) s = Ok s' \<Longrightarrow> R s s'"
proof -
  assume run: "for_upto i n (\<lambda>k. op (g k)) s = Ok s'"
  show ?thesis
  proof (cases "i \<le> n")
    case True
    show ?thesis
      by (rule for_upto_rule [OF run True, where P = "\<lambda>_. R s"]) (blast intro: R_refl R_trans op_R)+
  next
    case False
    then show ?thesis using run by (simp add: R_refl)
  qed
qed

end

locale invariant_op =
  fixes inv :: "'s \<Rightarrow> bool"
    and op :: "'x \<Rightarrow> 's \<Rightarrow> 's res"
  assumes keeps: "inv s \<Longrightarrow> op x s = Ok s' \<Longrightarrow> inv s'"

sublocale invariant_op \<subseteq> kept: framed_op "\<lambda>s s'. inv s \<longrightarrow> inv s'" op
  by unfold_locales (auto intro: keeps)

end
