(* ===== verification/Mal_Walk.thy ===== *)
theory Mal_Walk
  imports Mal_Context
begin

text \<open>
  Walking a list of records by a cursor: the loop both loaders of \<^verbatim>\<open>main.c\<close> run over the load
  commands, for any record type and any step. The locale \<open>command_walk\<close> states what a
  step owes the walk (on the bytes of a record it does what the record says and moves the
  cursor past it) and \<open>run_fold\<close> is what the walk returns for it: the records of the
  list are carried out in order, each once, as long as none of them overwrites the list.
\<close>

text \<open>The counters \<open>c_load_command\<close>, \<open>c_sym\<close> and \<open>c_str\<close> are \<open>int\<close>s.\<close>

definition int_increment :: "nat \<Rightarrow> 's \<Rightarrow> 's res" where
  "int_increment i s = (if INT_MAX \<le> i then Fault Signed_Overflow else Ok s)"

lemma int_increment_Ok [simp]: "int_increment i s = Ok t \<longleftrightarrow> i < INT_MAX \<and> t = s"
  by (auto simp: int_increment_def)

abbreviation counted :: "('s \<Rightarrow> 's res) \<Rightarrow> nat \<Rightarrow> 's \<Rightarrow> 's res" where
  "counted step \<equiv> \<lambda>i s. res_bind (step s) (int_increment i)"

text \<open>The states a walk goes through: after \<open>n\<close> iterations of \<open>step\<close> from \<open>c\<close>.\<close>

inductive loads :: "('s \<Rightarrow> 's res) \<Rightarrow> 's \<Rightarrow> nat \<Rightarrow> 's \<Rightarrow> bool" for step c where
  loads_start: "loads step c 0 c"
| loads_step: "loads step c n t \<Longrightarrow> step t = Ok u \<Longrightarrow> loads step c (Suc n) u"

inductive_cases loads_SucE: "loads step c (Suc n) u"
inductive_simps loads_0: "loads step c 0 u"

lemma loads_loop:
  assumes "for_upto 0 n (counted step) c = Ok c'"
  shows "loads step c n c'"
  by (rule for_upto_rule [OF assms, where P = "loads step c"])
    (auto simp: res_bind_eq_Ok intro: loads.intros)

text \<open>A list of records in memory, the address of the \<open>k\<close>-th, and the room behind the list
  that every step may read.\<close>

definition listed :: "('x \<Rightarrow> byte list) \<Rightarrow> ('x \<Rightarrow> bool) \<Rightarrow> memory \<Rightarrow> addr \<Rightarrow> 'x list \<Rightarrow> bool" where
  "listed enc good m p xs \<longleftrightarrow> holds m p (concat (map enc xs)) \<and> (\<forall>x\<in>set xs. good x)"

definition list_pos :: "('x \<Rightarrow> byte list) \<Rightarrow> addr \<Rightarrow> 'x list \<Rightarrow> nat \<Rightarrow> addr" where
  "list_pos enc p xs k = p + of_nat (length (concat (map enc (take k xs))))"

definition list_room :: "('x \<Rightarrow> byte list) \<Rightarrow> nat \<Rightarrow> memory \<Rightarrow> addr \<Rightarrow> 'x list \<Rightarrow> bool" where
  "list_room enc peek m p xs \<longleftrightarrow> mapped m p (length (concat (map enc xs)) + peek)"

lemma list_pos_0 [simp]: "list_pos enc p xs 0 = p"
  by (simp add: list_pos_def)

lemma list_pos_Suc:
  "k < length xs \<Longrightarrow> list_pos enc p xs (Suc k) = list_pos enc p xs k + of_nat (length (enc (xs ! k)))"
  by (simp add: list_pos_def take_Suc_conv_app_nth add.assoc)

lemma listed_nth:
  assumes "listed enc good m p xs" and "k < length xs"
  shows "holds m (list_pos enc p xs k) (enc (xs ! k))" and "good (xs ! k)"
proof -
  have "concat (map enc xs) = concat (map enc (take k xs @ xs ! k # drop (Suc k) xs))"
    using id_take_nth_drop [OF assms(2)] by simp
  then show "holds m (list_pos enc p xs k) (enc (xs ! k))"
    using assms(1) by (simp add: listed_def list_pos_def holds_append)
qed (use assms in \<open>simp add: listed_def\<close>)

lemma list_room_at:
  assumes "list_room enc peek m p xs" and "k \<le> length xs"
  shows "mapped m (list_pos enc p xs k) peek"
proof -
  have "length (concat (map enc (take k xs))) \<le> length (concat (map enc xs))"
    by (metis append_take_drop_id concat_append le_add1 length_append map_append)
  then show ?thesis
    using assms(1) unfolding list_room_def list_pos_def by (blast intro: mapped_offset add_le_mono1)
qed

lemma listed_kept:
  assumes "listed enc good m p xs" and "\<And>a. m a \<noteq> None \<Longrightarrow> m' a = m a"
  shows "listed enc good m' p xs"
proof -
  have h: "holds m p (concat (map enc xs))" using assms(1) by (simp add: listed_def)
  then have "holds m' p (concat (map enc xs))"
    using assms(2) mapped_in_region [OF holds_mapped [OF h]] by (blast intro: holds_cong)
  then show ?thesis using assms(1) by (simp add: listed_def)
qed

lemma extends_mapped: "extends c d \<Longrightarrow> mapped (mem c) p n \<Longrightarrow> mapped (mem d) p n"
proof -
  assume "extends c d"
  then have "mem d a \<noteq> None" if "mem c a \<noteq> None" for a
    using that by (auto simp: extends_def)
  then show "mapped (mem c) p n \<Longrightarrow> mapped (mem d) p n"
    by (induction n arbitrary: p) auto
qed

locale command_walk =
  fixes enc :: "'x \<Rightarrow> byte list" and good :: "'x \<Rightarrow> bool" and peek :: nat
    and step :: "mach_context \<Rightarrow> mach_context res" and walk :: "'x \<Rightarrow> mach_context \<Rightarrow> mach_context res"
  assumes step_extends: "step c = Ok c' \<Longrightarrow> extends c c'"
    and step_record: "good x \<Longrightarrow> holds (mem c) (ptr c) (enc x) \<Longrightarrow> mapped (mem c) (ptr c) peek \<Longrightarrow>
      step c = walk x c"
    and walk_cursor: "walk x c = Ok c' \<Longrightarrow> ptr c' = ptr c + of_nat (length (enc x))"
begin

lemma loads_extends: "loads step c n t \<Longrightarrow> extends c t"
  by (induction n t rule: loads.induct) (auto intro: extends_trans step_extends)

lemma step_nth:
  assumes "listed enc good (mem t) (ptr c) xs" and "n < length xs" and "list_room enc peek (mem c) (ptr c) xs"
    and "loads step c n t" and "ptr t = list_pos enc (ptr c) xs n"
  shows "step t = walk (xs ! n) t"
proof -
  have "mapped (mem t) (ptr t) peek"
    using extends_mapped [OF loads_extends [OF assms(4)] list_room_at [OF assms(3)]] assms(2,5) by simp
  then show ?thesis using listed_nth [OF assms(1,2)] assms(5) by (intro step_record) simp_all
qed

text \<open>An invariant of the records, indexed by how many have been carried out, holds along the
  walk if it keeps the list readable.\<close>

lemma loads_inv:
  assumes room: "list_room enc peek (mem c) (ptr c) xs" and start: "P 0 c"
    and at: "\<And>n t. n < length xs \<Longrightarrow> P n t \<Longrightarrow> listed enc good (mem t) (ptr c) xs"
    and keeps: "\<And>n t u. n < length xs \<Longrightarrow> P n t \<Longrightarrow> walk (xs ! n) t = Ok u \<Longrightarrow> P (Suc n) u"
    and "loads step c n t" and "n \<le> length xs"
  shows "P n t \<and> ptr t = list_pos enc (ptr c) xs n"
  using assms(5,6)
proof (induction n t rule: loads.induct)
  case loads_start
  then show ?case using start by simp
next
  case (loads_step n t u)
  then have n: "n < length xs" and IH: "P n t" "ptr t = list_pos enc (ptr c) xs n" by auto
  have "walk (xs ! n) t = Ok u"
    using step_nth [OF at [OF n IH(1)] n room loads_step(1) IH(2)] loads_step(2) by simp
  then show ?case using keeps [OF n IH(1)] walk_cursor IH(2) n by (simp add: list_pos_Suc)
qed

lemma run_fold:
  assumes room: "list_room enc peek (mem c) (ptr c) xs" and count: "length xs \<le> INT_MAX"
    and intact: "\<And>n t. n < length xs \<Longrightarrow> loads step c n t \<Longrightarrow> listed enc good (mem t) (ptr c) xs"
  shows "for_upto 0 (length xs) (counted step) c = res_fold walk xs c"
proof -
  have "for_upto k (length xs) (counted step) t = res_fold walk (drop k xs) t"
    if "loads step c k t" "ptr t = list_pos enc (ptr c) xs k" "k \<le> length xs" for k t
    using that
  proof (induction "length xs - k" arbitrary: k t)
    case 0
    then show ?case by simp
  next
    case (Suc d)
    then have k: "k < length xs" by arith
    have st: "step t = walk (xs ! k) t"
      by (rule step_nth [OF intact [OF k Suc.prems(1)] k room Suc.prems(1,2)])
    have "for_upto (Suc k) (length xs) (counted step) u = res_fold walk (drop (Suc k) xs) u"
      if u: "walk (xs ! k) t = Ok u" for u
      using Suc.hyps Suc.prems u st k walk_cursor [OF u]
      by (intro Suc.hyps(1)) (auto simp: list_pos_Suc intro: loads_step)
    moreover have "int_increment k = (Ok :: mach_context \<Rightarrow> mach_context res)"
      using k count by (intro ext) (simp add: int_increment_def)
    moreover have "drop k xs = xs ! k # drop (Suc k) xs" using k by (rule Cons_nth_drop_Suc [symmetric])
    ultimately show ?case using st k by (simp add: for_upto_step cong: res_bind_cong)
  qed
  from this [OF loads_start] show ?thesis by simp
qed

lemma run_fold_inv:
  assumes "list_room enc peek (mem c) (ptr c) xs" and "length xs \<le> INT_MAX" and "P 0 c"
    and "\<And>n t. n < length xs \<Longrightarrow> P n t \<Longrightarrow> listed enc good (mem t) (ptr c) xs"
    and "\<And>n t u. n < length xs \<Longrightarrow> P n t \<Longrightarrow> walk (xs ! n) t = Ok u \<Longrightarrow> P (Suc n) u"
  shows "for_upto 0 (length xs) (counted step) c = res_fold walk xs c"
  using assms(1,2)
proof (rule run_fold)
  fix n t assume n: "n < length xs" and run: "loads step c n t"
  have "P n t \<and> ptr t = list_pos enc (ptr c) xs n"
    using n by (intro loads_inv [where P = P, OF assms(1,3,4,5) run]) simp_all
  then show "listed enc good (mem t) (ptr c) xs" using assms(4) n by blast
qed

end

end
