(* ===== verification/Mal_Commands.thy ===== *)
theory Mal_Commands
  imports Mal_Context
begin

text \<open>
  The load commands of a file as data: \<open>lcmd\<close> has one constructor per command the loader
  tells apart, \<open>enc_lcmd\<close> its bytes and \<open>wf_lcmd\<close> what a well-formed file guarantees (the
  command code, and \<open>cmdsize\<close> equal to the number of bytes). The loader itself never builds
  these values; they are what its theorems say it reads.

  \<^item> \<open>enc_lcmd_header\<close>: every command starts with its code and its size.
  \<^item> \<open>extent\<close>: the lowest address and the highest end of the segments to map, the abstract
    counterpart of the scan in \<open>ensure_image_mapping_64\<close>.
\<close>

datatype lcmd =
    LC_Seg segment_command_64 "section_64 list"
  | LC_Dyldinfo dyld_info_command
  | LC_Sym symtab_command
  | LC_Dysym dysymtab_command
  | LC_Dylib dylib_command "byte list"
  | LC_Fixups linkedit_data_command
  | LC_Exports linkedit_data_command
  | LC_Opaque u32 "byte list"

fun enc_lcmd :: "lcmd \<Rightarrow> byte list" where
  "enc_lcmd (LC_Seg s ss) = enc_segment_command_64 s @ concat (map enc_section_64 ss)"
| "enc_lcmd (LC_Dyldinfo d) = enc_dyld_info_command d"
| "enc_lcmd (LC_Sym d) = enc_symtab_command d"
| "enc_lcmd (LC_Dysym d) = enc_dysymtab_command d"
| "enc_lcmd (LC_Dylib d tail) = enc_dylib_command d @ tail"
| "enc_lcmd (LC_Fixups d) = enc_linkedit_data_command d"
| "enc_lcmd (LC_Exports d) = enc_linkedit_data_command d"
| "enc_lcmd (LC_Opaque k bs) = word_bytes 4 k @ word_bytes 4 (of_nat (8 + length bs) :: u32) @ bs"

fun lc_code :: "lcmd \<Rightarrow> u32" where
  "lc_code (LC_Seg s ss) = cmd s"
| "lc_code (LC_Dyldinfo d) = cmd d"
| "lc_code (LC_Sym d) = cmd d"
| "lc_code (LC_Dysym d) = cmd d"
| "lc_code (LC_Dylib d _) = cmd d"
| "lc_code (LC_Fixups d) = cmd d"
| "lc_code (LC_Exports d) = cmd d"
| "lc_code (LC_Opaque k _) = k"

definition known_codes :: "u32 list" where
  "known_codes = [LC_SEGMENT_64, LC_SYMTAB, LC_DYSYMTAB, LC_LOAD_DYLIB,
     LC_DYLD_CHAINED_FIXUPS, LC_DYLD_EXPORTS_TRIE]"

text \<open>
  The commands of a well-formed file. A segment's size covers its sections; an opaque
  command is one the loader does nothing about (\<open>LC_LOAD_DYLINKER\<close>, \<open>LC_UUID\<close>,
  \<open>LC_MAIN\<close> and so on).
\<close>

fun wf_lcmd :: "lcmd \<Rightarrow> bool" where
  "wf_lcmd (LC_Seg s ss) \<longleftrightarrow>
     wf_segment_command_64 s \<and> list_all wf_section_64 ss \<and> cmd s = LC_SEGMENT_64 \<and>
     length ss < 2 ^ 24 \<and> nsects s = of_nat (length ss) \<and>
     cmdsize s = of_nat (72 + 80 * length ss)"
| "wf_lcmd (LC_Dyldinfo d) \<longleftrightarrow>
     (cmd d = LC_DYLD_INFO \<or> cmd d = LC_DYLD_INFO_ONLY) \<and> cmdsize d = 48"
| "wf_lcmd (LC_Sym d) \<longleftrightarrow> cmd d = LC_SYMTAB \<and> cmdsize d = 24"
| "wf_lcmd (LC_Dysym d) \<longleftrightarrow> cmd d = LC_DYSYMTAB \<and> cmdsize d = 80"
| "wf_lcmd (LC_Dylib d tail) \<longleftrightarrow>
     cmd d = LC_LOAD_DYLIB \<and> length tail < 2 ^ 24 \<and> cmdsize d = of_nat (24 + length tail)"
| "wf_lcmd (LC_Fixups d) \<longleftrightarrow> cmd d = LC_DYLD_CHAINED_FIXUPS \<and> cmdsize d = 16"
| "wf_lcmd (LC_Exports d) \<longleftrightarrow> cmd d = LC_DYLD_EXPORTS_TRIE \<and> cmdsize d = 16"
| "wf_lcmd (LC_Opaque k bs) \<longleftrightarrow>
     k \<notin> set known_codes \<and> k AND 0xFF \<noteq> LC_DYLD_INFO \<and> length bs < 2 ^ 24"

lemma length_sections: "list_all wf_section_64 ss \<Longrightarrow> length (concat (map enc_section_64 ss)) = 80 * length ss"
  by (rule sect64.length_concat_enc) (simp add: list_all_iff)

lemma length_enc_lcmd:
  "wf_lcmd x \<Longrightarrow> length (enc_lcmd x) =
     (case x of LC_Seg s ss \<Rightarrow> 72 + 80 * length ss | LC_Dyldinfo _ \<Rightarrow> 48 | LC_Sym _ \<Rightarrow> 24
      | LC_Dysym _ \<Rightarrow> 80 | LC_Dylib _ tail \<Rightarrow> 24 + length tail | LC_Fixups _ \<Rightarrow> 16
      | LC_Exports _ \<Rightarrow> 16 | LC_Opaque _ bs \<Rightarrow> 8 + length bs)"
  by (cases x) (auto simp: sc64.width length_sections dyinfo.width symtab.width dysymtab.width
      dylib.width linkedit.width)

lemma enc_lcmd_size: "wf_lcmd x \<Longrightarrow> 8 \<le> length (enc_lcmd x) \<and> length (enc_lcmd x) < 2 ^ 32"
  using length_enc_lcmd [of x] by (cases x) auto

text \<open>The size field, as the number of bytes.\<close>

fun lc_size :: "lcmd \<Rightarrow> u32" where
  "lc_size (LC_Seg s ss) = cmdsize s"
| "lc_size (LC_Dyldinfo d) = cmdsize d"
| "lc_size (LC_Sym d) = cmdsize d"
| "lc_size (LC_Dysym d) = cmdsize d"
| "lc_size (LC_Dylib d _) = cmdsize d"
| "lc_size (LC_Fixups d) = cmdsize d"
| "lc_size (LC_Exports d) = cmdsize d"
| "lc_size (LC_Opaque _ bs) = of_nat (8 + length bs)"

lemma unat_lc_size: "wf_lcmd x \<Longrightarrow> unat (lc_size x) = length (enc_lcmd x)"
  using length_enc_lcmd [of x] by (cases x) (auto simp: unat_word_ariths unat_of_nat)

lemma ucast_lc_size: "wf_lcmd x \<Longrightarrow> (ucast (lc_size x) :: addr) = of_nat (length (enc_lcmd x))"
  by (simp flip: unat_lc_size)

lemma enc_lcmd_header:
  "\<exists>rest. enc_lcmd x = word_bytes 4 (lc_code x) @ word_bytes 4 (lc_size x) @ rest"
  by (cases x) (auto simp: enc_segment_command_64_def enc_dyld_info_command_def
      enc_symtab_command_def enc_dysymtab_command_def enc_dylib_command_def
      enc_linkedit_data_command_def)

lemma lcmd_header_loads:
  assumes "holds m p (enc_lcmd x)"
  shows "load32 m p = Ok (lc_code x)" and "load32 m (p + 4) = Ok (lc_size x)"
  using assms enc_lcmd_header [of x] by (auto simp: load32_iff holds_append)

section \<open>The extent of the image\<close>

definition mappable :: "segment_command_64 \<Rightarrow> bool" where
  "mappable s \<longleftrightarrow> \<not> name_is (segname s) SEG_PAGEZERO \<and> vmsize s \<noteq> 0"

fun grow_extent :: "lcmd \<Rightarrow> u64 \<times> u64 \<Rightarrow> u64 \<times> u64" where
  "grow_extent (LC_Seg s ss) (lo, hi) =
     (if mappable s then (min lo (vmaddr s), max hi (vmaddr s + vmsize s)) else (lo, hi))"
| "grow_extent _ b = b"

definition extent :: "lcmd list \<Rightarrow> u64 \<times> u64" where
  "extent cs = fold grow_extent cs (-1, 0)"

definition image_segments :: "lcmd list \<Rightarrow> segment_command_64 list" where
  "image_segments cs = [s. LC_Seg s ss \<leftarrow> cs, mappable s]"

lemma fold_grow_extent:
  "fold grow_extent cs (lo, hi) =
     (fold min (map vmaddr (image_segments cs)) lo,
      fold max (map (\<lambda>s. vmaddr s + vmsize s) (image_segments cs)) hi)"
proof (induction cs arbitrary: lo hi)
  case Nil
  then show ?case by (simp add: image_segments_def)
next
  case (Cons x cs)
  then show ?case by (cases x) (auto simp: image_segments_def min.commute max.commute)
qed

lemma fold_min_le: "fold min xs (lo :: 'a::linorder) \<le> lo \<and> (\<forall>x\<in>set xs. fold min xs lo \<le> x)"
  by (induction xs arbitrary: lo) (auto, (meson min.boundedE)+)

lemma fold_max_ge: "(hi :: 'a::linorder) \<le> fold max xs hi \<and> (\<forall>x\<in>set xs. x \<le> fold max xs hi)"
  by (induction xs arbitrary: hi) (auto, (meson max.boundedE)+)

lemma extent_bounds:
  assumes "extent cs = (lo, hi)" and "s \<in> set (image_segments cs)"
  shows "lo \<le> vmaddr s \<and> vmaddr s + vmsize s \<le> hi"
  using assms fold_min_le [of "map vmaddr (image_segments cs)" "-1"]
    fold_max_ge [of 0 "map (\<lambda>s. vmaddr s + vmsize s) (image_segments cs)"]
  by (auto simp: extent_def fold_grow_extent)

end
