(* ===== verification/Mal_Segments.thy ===== *)
theory Mal_Segments
  imports Mal_Commands
begin

unbundle bit_operations_syntax

text \<open>
  Mapping the image and loading segments: \<open>alignMemory\<close>, \<open>ensure_image_mapping_64\<close>,
  \<open>load_segment_64\<close>, \<open>load_segment\<close> and the two section printers of \<^verbatim>\<open>main.c\<close>.

  \<^item> The scan over the load commands computes the extent of the command list.
  \<^item> The mapping it asks for is large enough for every segment of the file.
  \<^item> Loading a segment copies its file bytes to the relocated address, changes no other
    byte, and records where the segment is; the table invariant is kept.
\<close>

section \<open>Alignment\<close>

definition alignMemory :: "u64 \<Rightarrow> u64 \<Rightarrow> u64" where
  "alignMemory pointer alignment =
     (let alignment = alignment - 1 in (pointer + alignment) AND NOT alignment)"

section \<open>The whole-image mapping\<close>

text \<open>One iteration of the scan: the cursor and the bounds found so far.\<close>

definition scan_step :: "memory \<Rightarrow> addr \<times> u64 \<times> u64 \<Rightarrow> (addr \<times> u64 \<times> u64) res" where
  "scan_step m s =
     (case s of (p, min_vmaddr, max_vmaddr) \<Rightarrow>
        res_bind (load32 m p) (\<lambda>c.
        res_bind
          (if c \<noteq> LC_SEGMENT_64 then Ok (min_vmaddr, max_vmaddr)
           else res_bind (str_eq m (p + 8) (lit SEG_PAGEZERO)) (\<lambda>pagezero.
             if pagezero then Ok (min_vmaddr, max_vmaddr)
             else res_bind (load64 m (p + 32)) (\<lambda>size.
               if size = 0 then Ok (min_vmaddr, max_vmaddr)
               else res_bind (load64 m (p + 24)) (\<lambda>va.
                 Ok (if va < min_vmaddr then va else min_vmaddr,
                     if va + size > max_vmaddr then va + size else max_vmaddr)))))
          (\<lambda>(lo, hi).
        res_bind (load32 m (p + 4)) (\<lambda>size. Ok (p + ucast size, lo, hi)))))"

definition ensure_image_mapping_64 :: "host \<Rightarrow> mach_context \<Rightarrow> (int \<times> mach_context) res" where
  "ensure_image_mapping_64 h c =
     (if img_addr c \<noteq> 0 then Ok (0, c)
      else
        res_bind (load32 (mem c) (memblock c + 16)) (\<lambda>n.
        res_bind (for_upto 0 (unat n) (\<lambda>_. scan_step (mem c)) (memblock c + 32, -1, 0))
          (\<lambda>(_, min_vmaddr, max_vmaddr).
        if min_vmaddr = -1 \<or> max_vmaddr \<le> min_vmaddr then Ok (-1, c)
        else
          let map_size = alignMemory (max_vmaddr - min_vmaddr) 0x1000 in
          case host_mmap h (mem c) min_vmaddr map_size of
            None \<Rightarrow> Ok (-1, c)
          | Some a \<Rightarrow>
              Ok (0, c\<lparr>mem := map_anon (mem c) a (unat map_size), img_addr := a,
                      v_addr := min_vmaddr\<rparr>))))"

section \<open>Loading one segment\<close>

text \<open>The tail of \<open>load_segment\<close> and \<open>load_segment_64\<close>: the entry in the segment table.\<close>

definition segment_mapped_addr :: "mach_context \<Rightarrow> byte list \<Rightarrow> addr \<Rightarrow> addr" where
  "segment_mapped_addr c name va =
     (if name_is name SEG_PAGEZERO then 0
      else if name_is name SEG_TEXT then img_addr c
      else if img_addr c \<noteq> 0 \<and> v_addr c \<noteq> 0 then img_addr c + (va - v_addr c)
      else 0)"

definition record_segment :: "mach_context \<Rightarrow> byte list \<Rightarrow> addr \<Rightarrow> u64 \<Rightarrow> mach_context" where
  "record_segment c name va sz =
     (if n_segment_info c < MACH_LOADER_MAX_SEGMENTS
      then c\<lparr>segments := (segments c)[n_segment_info c :=
                 \<lparr>seg_name = name, seg_vmaddr = va, seg_vmsize = sz,
                  mapped_addr = segment_mapped_addr c name va\<rparr>],
              n_segment_info := n_segment_info c + 1\<rparr>
      else c)"

definition copy_segment_64 :: "segment_command_64 \<Rightarrow> mach_context \<Rightarrow> mach_context res" where
  "copy_segment_64 s c =
     (if \<not> name_is (segname s) SEG_PAGEZERO \<and> filesize s \<noteq> 0 \<and> img_addr c \<noteq> 0 \<and> v_addr c \<noteq> 0
      then
        let delta = vmaddr s - v_addr c;
            dest = img_addr c + delta;
            src = memblock c + fileoff s
        in res_bind (memcpy (mem c) dest src (unat (filesize s))) (\<lambda>m. Ok (c\<lparr>mem := m\<rparr>))
      else Ok c)"

definition load_segment_64 :: "host \<Rightarrow> mach_context \<Rightarrow> (int \<times> mach_context) res" where
  "load_segment_64 h c =
     res_bind (read_segment_command_64 (mem c) (ptr c)) (\<lambda>s.
     res_bind (ensure_image_mapping_64 h c) (\<lambda>(_, c1).
     res_bind (copy_segment_64 s c1) (\<lambda>c2.
     Ok (sint (nsects s), record_segment c2 (segname s) (vmaddr s) (vmsize s)))))"

text \<open>
  The 32-bit version maps \<^verbatim>\<open>filesize + 0x3000\<close> bytes (computed in 32 bits) for \<open>__TEXT\<close>
  only and copies the first three pages of the file. After a failed \<open>mmap\<close> it goes on with
  \<open>MAP_FAILED\<close>, the address \<open>-1\<close>.
\<close>

definition map_text_32 :: "host \<Rightarrow> segment_command \<Rightarrow> mach_context \<Rightarrow> mach_context res" where
  "map_text_32 h s c =
     (if \<not> name_is (segname32 s) SEG_TEXT then Ok c
      else
        let size = alignMemory (ucast (filesize32 s + 0x3000)) 0x1000;
            va = ucast (vmaddr32 s);
            (m, a) = (case host_mmap h (mem c) va size of
                        None \<Rightarrow> (mem c, -1)
                      | Some a \<Rightarrow> (map_anon (mem c) a (unat size), a))
        in res_bind (memcpy m a (memblock c) 0x3000) (\<lambda>m'.
           Ok (c\<lparr>mem := m', img_addr := a, v_addr := va\<rparr>)))"

definition load_segment :: "host \<Rightarrow> mach_context \<Rightarrow> (int \<times> mach_context) res" where
  "load_segment h c =
     res_bind (read_segment_command (mem c) (ptr c)) (\<lambda>s.
     res_bind (map_text_32 h s c) (\<lambda>c1.
     Ok (sint (nsects32 s),
         record_segment c1 (segname32 s) (ucast (vmaddr32 s)) (ucast (vmsize32 s)))))"

text \<open>The section printers read the section header and change nothing.\<close>

definition load_section_64 :: "mach_context \<Rightarrow> int res" where
  "load_section_64 c = res_bind (read_section_64 (mem c) (ptr c)) (\<lambda>_. Ok 0)"

definition load_section :: "mach_context \<Rightarrow> int res" where
  "load_section c = res_bind (read_section_32 (mem c) (ptr c)) (\<lambda>_. Ok 0)"

section \<open>Alignment: facts\<close>

lemma and_not_mask: "w AND NOT (mask k) = push_bit k (drop_bit k w)" for w :: "'a::len word"
  by (rule bit_word_eqI) (auto simp: bit_simps)

lemma unat_exp: "k < 64 \<Longrightarrow> unat (2 ^ k :: u64) = 2 ^ k"
proof -
  assume "k < 64"
  then have "(2 :: nat) ^ k < 2 ^ 64" by (intro power_strict_increasing) auto
  moreover have "unat (2 ^ k :: u64) = unat (of_nat (2 ^ k) :: u64)" by simp
  ultimately show ?thesis by (simp only: unat_of_nat) simp
qed

lemma unat_align_offset: "k < 64 \<Longrightarrow> unat (2 ^ k - 1 :: u64) = 2 ^ k - 1"
  by (simp add: unat_sub unat_exp word_le_nat_alt)

lemma alignMemory_pow:
  assumes "k < 64" and "unat p + 2 ^ k \<le> 2 ^ 64"
  shows "unat (alignMemory p (2 ^ k)) = (unat p + (2 ^ k - 1)) div 2 ^ k * 2 ^ k"
proof -
  let ?q = "p + (2 ^ k - 1)"
  have "unat p + (2 ^ k - 1) < 2 ^ 64" using assms(2) by simp
  then have q: "unat ?q = unat p + (2 ^ k - 1)"
    using assms(1) by (simp add: unat_word_ariths unat_align_offset)
  have "unat (drop_bit k ?q) = (unat p + (2 ^ k - 1)) div 2 ^ k"
    unfolding unat_drop_bit_eq q by (rule drop_bit_eq_div)
  moreover have "(unat p + (2 ^ k - 1)) div 2 ^ k * 2 ^ k < 2 ^ 64"
    using \<open>unat p + (2 ^ k - 1) < 2 ^ 64\<close> div_times_less_eq_dividend order.strict_trans1 by blast
  moreover have "unat (push_bit k w) = unat w * 2 ^ k mod 2 ^ 64" for w :: u64
    using assms(1) by (simp add: push_bit_eq_mult unat_word_ariths unat_exp)
  moreover have "alignMemory p (2 ^ k) = push_bit k (drop_bit k ?q)"
    by (simp add: alignMemory_def Let_def and_not_mask flip: mask_eq_exp_minus_1)
  ultimately show ?thesis by (simp only: mod_less)
qed

lemma alignMemory_bounds:
  assumes "k < 64" and "unat p + 2 ^ k \<le> 2 ^ 64"
  shows "2 ^ k dvd unat (alignMemory p (2 ^ k)) \<and> unat p \<le> unat (alignMemory p (2 ^ k)) \<and>
    unat (alignMemory p (2 ^ k)) < unat p + 2 ^ k"
proof -
  let ?a = "2 ^ k :: nat"
  let ?x = "unat p + (?a - 1)"
  have "?x = ?x div ?a * ?a + ?x mod ?a" by (rule div_mod_decomp)
  moreover have "?x mod ?a < ?a" by simp
  moreover have "0 < ?a" by simp
  ultimately have "unat p \<le> ?x div ?a * ?a \<and> ?x div ?a * ?a < unat p + ?a" by linarith
  then show ?thesis unfolding alignMemory_pow [OF assms] by simp
qed

text \<open>C38: bounds. For a power-of-two alignment and no overflow past the last multiple,
  \<open>alignMemory\<close> is the least multiple of the alignment that is not below the pointer.\<close>

theorem alignMemory_rounds_up:
  assumes "k < 64" and "unat p + 2 ^ k \<le> 2 ^ 64"
  shows "2 ^ k dvd unat (alignMemory p (2 ^ k)) \<and> unat p \<le> unat (alignMemory p (2 ^ k)) \<and>
    unat (alignMemory p (2 ^ k)) < unat p + 2 ^ k"
  using assms by (rule alignMemory_bounds)

lemma alignMemory_rounds_up_witness:
  "alignMemory 0x4321 (2 ^ 12) = 0x5000 \<and> unat (alignMemory 0x4321 (2 ^ 12)) < 0x4321 + 2 ^ 12"
  using alignMemory_rounds_up [of 12 "0x4321"] by (simp add: alignMemory_def)

section \<open>The scan\<close>

lemma scan_step_lcmd:
  assumes "wf_lcmd x" and "holds m p (enc_lcmd x)"
  shows "scan_step m (p, b) = Ok (p + of_nat (length (enc_lcmd x)), grow_extent x b)"
proof -
  obtain lo hi where b: "b = (lo, hi)" by (cases b)
  note hdr = lcmd_header_loads [OF assms(2)] ucast_lc_size [OF assms(1)]
  show ?thesis
  proof (cases x)
    case (LC_Seg s ss)
    then have s: "holds m p (enc_segment_command_64 s)" "cmd s = LC_SEGMENT_64" "length (segname s) = 16"
      using assms by (auto simp: holds_append wf_segment_command_64_def)
    then have "str_eq m (p + 8) (lit SEG_PAGEZERO) = Ok (name_is (segname s) SEG_PAGEZERO)"
      by (intro str_eq_name) (auto simp: enc_segment_command_64_def reader_simps SEG_PAGEZERO_def)
    moreover have "load64 m (p + 32) = Ok (vmsize s)" "load64 m (p + 24) = Ok (vmaddr s)"
      using s by (auto simp: enc_segment_command_64_def reader_simps)
    ultimately show ?thesis using hdr s(2) b LC_Seg
      by (auto simp: scan_step_def mappable_def min_def max_def)
  qed (use hdr assms(1) b in \<open>auto simp: scan_step_def macho_consts known_codes_def\<close>)
qed

lemma scan_lcmds:
  assumes "\<forall>x\<in>set cs. wf_lcmd x" and "holds m p (concat (map enc_lcmd cs))"
  shows "for_upto 0 (length cs) (\<lambda>_. scan_step m) (p, b) =
    Ok (p + of_nat (length (concat (map enc_lcmd cs))), fold grow_extent cs b)"
  using assms
proof (induction cs arbitrary: p b)
  case Nil
  then show ?case by simp
next
  case (Cons x cs)
  then have "scan_step m (p, b) = Ok (p + of_nat (length (enc_lcmd x)), grow_extent x b)"
    by (intro scan_step_lcmd) (auto simp: holds_append)
  then show ?case using Cons by (simp add: for_upto_const holds_append add.assoc)
qed

section \<open>The mapping\<close>

text \<open>
  What \<open>mmap\<close> without \<open>MAP_FIXED\<close> promises about a mapping it made next to the blocks
  already mapped: it is not at address 0, it does not wrap, and it overlaps none of them.
\<close>

definition mmap_ok :: "host \<Rightarrow> memory \<Rightarrow> bool" where
  "mmap_ok h m \<longleftrightarrow> (\<forall>hint len a. host_mmap h m hint len = Some a \<longrightarrow>
     a \<noteq> 0 \<and> unat a + unat len \<le> 2 ^ 64 \<and> (\<forall>x\<in>region a (unat len). m x = None))"

lemma holds_map_anon:
  assumes "mmap_ok h m" and "host_mmap h m hint len = Some a" and "holds m p bs"
  shows "holds (map_anon m a (unat len)) p bs"
  using assms(3)
proof (rule holds_cong)
  fix x assume "x \<in> region p (length bs)"
  then have "m x \<noteq> None" using holds_mapped [OF assms(3)] mapped_in_region by blast
  then have "x \<notin> region a (unat len)" using assms(1,2) by (auto simp: mmap_ok_def)
  then show "map_anon m a (unat len) x = m x" by (rule map_anon_other)
qed

lemma map_anon_dom: "dom m \<subseteq> dom (map_anon m a n)"
  by (auto simp: map_anon_def)

definition extent_ok :: "u64 \<times> u64 \<Rightarrow> bool" where
  "extent_ok b \<longleftrightarrow> fst b \<noteq> -1 \<and> fst b < snd b"

definition image_size :: "u64 \<times> u64 \<Rightarrow> u64" where
  "image_size b = alignMemory (snd b - fst b) 0x1000"

text \<open>The file at \<open>p\<close>: the header and the command list it announces.\<close>

definition file_at :: "memory \<Rightarrow> addr \<Rightarrow> mach_header_64 \<Rightarrow> lcmd list \<Rightarrow> bool" where
  "file_at m p hdr cs \<longleftrightarrow>
     holds m p (enc_mach_header_64 hdr @ concat (map enc_lcmd cs)) \<and>
     (\<forall>x\<in>set cs. wf_lcmd x) \<and> unat (ncmds hdr) = length cs"

lemma file_at_ncmds: "file_at m p hdr cs \<Longrightarrow> load32 m (p + 16) = Ok (ncmds hdr)"
  by (auto simp: file_at_def enc_mach_header_64_def reader_simps)

lemma file_at_commands:
  "file_at m p hdr cs \<Longrightarrow> holds m (p + 32) (concat (map enc_lcmd cs))"
  by (auto simp: file_at_def holds_append mh64.width)

lemma ensure_image_mapping_64_file:
  assumes "file_at (mem c) (memblock c) hdr cs" and "img_addr c = 0"
  shows "ensure_image_mapping_64 h c =
    Ok (if \<not> extent_ok (extent cs) then (-1, c)
        else case host_mmap h (mem c) (fst (extent cs)) (image_size (extent cs)) of
               None \<Rightarrow> (-1, c)
             | Some a \<Rightarrow>
                 (0, c\<lparr>mem := map_anon (mem c) a (unat (image_size (extent cs))), img_addr := a,
                       v_addr := fst (extent cs)\<rparr>))"
proof -
  have "for_upto 0 (unat (ncmds hdr)) (\<lambda>_. scan_step (mem c)) (memblock c + 32, -1, 0) =
      Ok (memblock c + 32 + of_nat (length (concat (map enc_lcmd cs))), extent cs)"
    using scan_lcmds [of cs "mem c" "memblock c + 32" "(-1, 0)"] file_at_commands [OF assms(1)] assms(1)
    by (simp add: file_at_def extent_def)
  then show ?thesis
    using assms(2) file_at_ncmds [OF assms(1)]
    by (cases "extent cs")
      (simp add: ensure_image_mapping_64_def extent_ok_def image_size_def Let_def not_less split: option.split)
qed

text \<open>The segments of the file do not wrap around the address space.\<close>

definition segments_fit :: "lcmd list \<Rightarrow> bool" where
  "segments_fit cs \<longleftrightarrow>
     list_all (\<lambda>s. unat (vmaddr s) + unat (vmsize s) < 2 ^ 64) (image_segments cs) \<and>
     unat (snd (extent cs) - fst (extent cs)) + 0x1000 \<le> 2 ^ 64"

definition image_address :: "mach_context \<Rightarrow> addr \<Rightarrow> addr" where
  "image_address c va = img_addr c + (va - v_addr c)"

lemma image_size_ge:
  assumes "segments_fit cs"
  shows "unat (snd (extent cs) - fst (extent cs)) \<le> unat (image_size (extent cs))"
  using alignMemory_bounds [of 12 "snd (extent cs) - fst (extent cs)"] assms
  by (simp add: segments_fit_def image_size_def)

lemma unat_relocated:
  fixes a va lo hi sz :: u64
  assumes "lo \<le> va" and "va + sz \<le> hi" and "unat va + unat sz < 2 ^ 64" and "sz \<noteq> 0"
    and "unat (hi - lo) \<le> n" and "unat a + n \<le> 2 ^ 64"
  shows "unat (a + (va - lo)) = unat a + (unat va - unat lo) \<and>
    unat a + (unat va - unat lo) + unat sz \<le> unat a + n"
proof -
  have sum: "unat (va + sz) = unat va + unat sz" using assms(3) by (simp add: unat_word_ariths)
  then have le: "unat lo \<le> unat va" "unat va + unat sz \<le> unat hi"
    using assms(1,2) by (simp_all add: word_le_nat_alt)
  then have d: "unat (hi - lo) = unat hi - unat lo" "unat (va - lo) = unat va - unat lo"
    by (simp_all add: unat_sub word_le_nat_alt)
  have "0 < unat sz" using assms(4) by (simp add: unat_gt_0)
  then have lt: "unat a + unat (va - lo) < 2 ^ 64" using assms(5,6) le d by linarith
  then have "unat (a + (va - lo)) = unat a + unat (va - lo)" by (simp add: unat_word_ariths)
  then show ?thesis using assms(5) le d by simp
qed

text \<open>C12: safety. When the image mapping is established for a well-formed file whose
  segments do not wrap, every mappable segment of the file lies, at its relocated address and
  over its whole \<open>vmsize\<close>, inside the mapping.\<close>

theorem ensure_image_mapping_64_covers:
  assumes obj: "file_at (mem c) (memblock c) hdr cs" and none: "img_addr c = 0"
    and mmap: "mmap_ok h (mem c)" and fit: "segments_fit cs"
    and run: "ensure_image_mapping_64 h c = Ok (0, c')"
    and seg: "s \<in> set (image_segments cs)"
  shows "img_addr c' \<noteq> 0 \<and> mapped (mem c') (image_address c' (vmaddr s)) (unat (vmsize s))"
proof -
  let ?n = "image_size (extent cs)"
  obtain lo hi where ext: "extent cs = (lo, hi)" by (cases "extent cs")
  obtain a where a: "host_mmap h (mem c) lo ?n = Some a"
    and c': "c' = c\<lparr>mem := map_anon (mem c) a (unat ?n), img_addr := a, v_addr := lo\<rparr>"
    using run ensure_image_mapping_64_file [OF obj none] ext by (auto split: if_splits option.splits)
  have a0: "a \<noteq> 0" and room: "unat a + unat ?n \<le> 2 ^ 64" using a mmap by (auto simp: mmap_ok_def)
  have sz: "vmsize s \<noteq> 0" using seg by (auto simp: image_segments_def mappable_def)
  have "lo \<le> vmaddr s" "vmaddr s + vmsize s \<le> hi" using extent_bounds [OF ext seg] by auto
  moreover have "unat (vmaddr s) + unat (vmsize s) < 2 ^ 64"
    using fit seg by (simp add: segments_fit_def list_all_iff)
  moreover have "unat (hi - lo) \<le> unat ?n" using image_size_ge [OF fit] ext by simp
  ultimately have pos: "unat (a + (vmaddr s - lo)) = unat a + (unat (vmaddr s) - unat lo)"
    and inside: "unat a + (unat (vmaddr s) - unat lo) + unat (vmsize s) \<le> unat a + unat ?n"
    using unat_relocated [of lo "vmaddr s" "vmsize s" hi "unat ?n" a] sz room by auto
  have "mapped (map_anon (mem c) a (unat ?n)) (a + (vmaddr s - lo)) (unat (vmsize s))"
  proof (rule mapped_region)
    show "a + (vmaddr s - lo) \<noteq> 0"
    proof
      assume "a + (vmaddr s - lo) = 0"
      then have "unat a = 0" using pos by simp
      then show False using a0 by (simp add: unat_eq_0)
    qed
    show "unat (a + (vmaddr s - lo)) + unat (vmsize s) \<le> 2 ^ 64" using pos inside room by linarith
    show "map_anon (mem c) a (unat ?n) x \<noteq> None" if "x \<in> region (a + (vmaddr s - lo)) (unat (vmsize s))" for x
      using that pos inside map_anon_zero [of x a "unat ?n" "mem c"] by (auto simp: region_def)
  qed
  then show ?thesis using a0 by (simp add: c' image_address_def)
qed

section \<open>A small file\<close>

text \<open>A header and one segment command, mapped at \<open>0x1000\<close>, for the examples.\<close>

definition example_segment :: segment_command_64 where
  "example_segment =
     \<lparr>cmd = LC_SEGMENT_64, cmdsize = 72, segname = lit ''__TEXT'' @ replicate 10 0,
      vmaddr = 0x100000000, vmsize = 0x4000, fileoff = 0, filesize = 0x10, maxprot = 5,
      initprot = 5, nsects = 0, sc_flags = 0\<rparr>"

definition example_header :: mach_header_64 where
  "example_header =
     \<lparr>magic = MH_MAGIC_64, cputype = 0x01000007, cpusubtype = 3, filetype = MH_EXECUTE,
      ncmds = 1, sizeofcmds = 72, hdr_flags = 0, reserved = 0\<rparr>"

definition example_commands :: "lcmd list" where
  "example_commands = [LC_Seg example_segment []]"

definition example_file :: "byte list" where
  "example_file = (enc_mach_header_64 example_header @ concat (map enc_lcmd example_commands)) @
     replicate 100 0"

definition example_context :: mach_context where
  "example_context =
     (zero_context (map_file Map.empty 0x1000 example_file))\<lparr>memblock := 0x1000, ptr := 0x1020\<rparr>"

definition example_mapped :: mach_context where
  "example_mapped = example_context
     \<lparr>mem := map_anon (mem example_context) 0x200000000 0x4000, img_addr := 0x200000000,
      v_addr := 0x100000000\<rparr>"

lemma example_wf: "wf_lcmd (LC_Seg example_segment [])"
  by (simp add: example_segment_def wf_segment_command_64_def lit_def)

lemma example_lengths:
  "length (enc_lcmd (LC_Seg example_segment [])) = 72" "length example_file = 204"
  using length_enc_lcmd [OF example_wf]
  by (simp_all add: example_file_def example_commands_def mh64.width)

lemma example_holds: "holds (mem example_context) 0x1000 example_file"
  unfolding example_context_def zero_context_def
  by simp (rule map_file_holds; simp add: example_lengths)

lemma example_file_at:
  "file_at (mem example_context) (memblock example_context) example_header example_commands"
  using example_holds example_wf
  by (simp add: file_at_def example_file_def holds_append example_context_def example_commands_def
      example_header_def)

lemma example_host_mmap_ok:
  assumes "host_mmap h = host_mmap example_host" and "\<And>x. 0x200000000 \<le> unat x \<Longrightarrow> m x = None"
  shows "mmap_ok h m"
  unfolding mmap_ok_def
proof (intro allI impI)
  fix hint len a
  assume "host_mmap h m hint len = Some a"
  then have "a = 0x200000000" and "len \<le> 0x10000000"
    by (auto simp: assms(1) example_host_def not_less split: if_splits)
  then show "a \<noteq> 0 \<and> unat a + unat len \<le> 2 ^ 64 \<and> (\<forall>x\<in>region a (unat len). m x = None)"
    using assms(2) by (auto simp: region_def word_le_nat_alt)
qed

lemma example_mmap_ok: "mmap_ok example_host (mem example_context)"
  by (rule example_host_mmap_ok)
    (simp_all add: example_context_def zero_context_def map_file_def example_lengths)

lemma example_extent: "extent example_commands = (0x100000000, 0x100004000)"
  by (simp add: extent_def example_commands_def mappable_def example_segment_def name_is_def lit_def
      SEG_PAGEZERO_def)

lemma example_image_segments: "image_segments example_commands = [example_segment]"
  by (simp add: image_segments_def example_commands_def mappable_def example_segment_def name_is_def
      lit_def SEG_PAGEZERO_def)

lemma example_fit: "segments_fit example_commands"
  by (simp add: segments_fit_def example_extent example_image_segments) (simp add: example_segment_def)

lemma example_seg_in: "example_segment \<in> set (image_segments example_commands)"
  by (simp add: example_image_segments)

lemma example_ensure: "ensure_image_mapping_64 example_host example_context = Ok (0, example_mapped)"
  using ensure_image_mapping_64_file [OF example_file_at, of example_host] example_extent
  by (simp add: example_mapped_def example_context_def zero_context_def extent_ok_def image_size_def
      alignMemory_def example_host_def)

lemma ensure_image_mapping_64_covers_witness:
  "img_addr example_mapped \<noteq> 0 \<and>
   mapped (mem example_mapped) (image_address example_mapped 0x100000000) 0x4000"
  using ensure_image_mapping_64_covers [OF example_file_at _ example_mmap_ok example_fit example_ensure
      example_seg_in]
  by (simp add: example_context_def zero_context_def example_segment_def)

section \<open>Loading: frame and effect\<close>

lemma extends_map_image:
  "dom (mem c) \<subseteq> dom m \<Longrightarrow> extends c (c\<lparr>mem := m, img_addr := a, v_addr := v\<rparr>)"
  by (simp add: extends_def ctx_ok_def)

lemma ensure_image_mapping_64_extends:
  "ensure_image_mapping_64 h c = Ok (r, c') \<Longrightarrow> extends c c'"
  by (auto simp: ensure_image_mapping_64_def Let_def res_bind_eq_Ok
      intro!: extends_map_image [OF map_anon_dom] split: if_splits option.splits prod.splits)

lemma record_segment_extends: "length name = 16 \<Longrightarrow> extends c (record_segment c name va sz)"
  by (auto simp: record_segment_def extends_def ctx_ok_def list_all_iff MACH_LOADER_MAX_SEGMENTS_def
      dest: subsetD [OF set_update_subset_insert])

lemma extends_memcpy: "memcpy (mem c) d p n = Ok m \<Longrightarrow> extends c (c\<lparr>mem := m\<rparr>)"
  by (simp add: extends_mem memcpy_dom)

lemma copy_segment_64_extends: "copy_segment_64 s c = Ok c' \<Longrightarrow> extends c c'"
  by (auto simp: copy_segment_64_def Let_def res_bind_eq_Ok intro: extends_memcpy split: if_splits)

lemma load_segment_64_extends:
  assumes "load_segment_64 h c = Ok (n, c')"
  shows "extends c c'"
proof -
  obtain s r c1 c2 where "length (segname s) = 16" "ensure_image_mapping_64 h c = Ok (r, c1)"
    "copy_segment_64 s c1 = Ok c2" and c': "c' = record_segment c2 (segname s) (vmaddr s) (vmsize s)"
    using assms by (auto simp: load_segment_64_def res_bind_eq_Ok sc64.dec_iff wf_segment_command_64_def)
  then show ?thesis unfolding c'
    by (blast intro: extends_trans ensure_image_mapping_64_extends copy_segment_64_extends
        record_segment_extends)
qed

lemma extends_memcpy_image:
  "memcpy m a p n = Ok m' \<Longrightarrow> dom (mem c) \<subseteq> dom m \<Longrightarrow>
   extends c (c\<lparr>mem := m', img_addr := b, v_addr := v\<rparr>)"
  by (simp add: extends_map_image memcpy_dom)

lemma map_text_32_extends: "map_text_32 h s c = Ok c' \<Longrightarrow> extends c c'"
  by (auto simp: map_text_32_def Let_def res_bind_eq_Ok split: if_splits option.splits
      intro: extends_memcpy_image [OF _ map_anon_dom] extends_memcpy_image [OF _ subset_refl])

lemma load_segment_extends:
  assumes "load_segment h c = Ok (n, c')"
  shows "extends c c'"
proof -
  obtain s c1 where "length (segname32 s) = 16" "map_text_32 h s c = Ok c1"
    and c': "c' = record_segment c1 (segname32 s) (ucast (vmaddr32 s)) (ucast (vmsize32 s))"
    using assms by (auto simp: load_segment_def res_bind_eq_Ok sc32.dec_iff wf_segment_command_def)
  then show ?thesis unfolding c'
    by (blast intro: extends_trans map_text_32_extends record_segment_extends)
qed

lemma record_segment_fields [simp]:
  "mem (record_segment c name va sz) = mem c"
  "memblock (record_segment c name va sz) = memblock c"
  "img_addr (record_segment c name va sz) = img_addr c"
  "v_addr (record_segment c name va sz) = v_addr c"
  "ptr (record_segment c name va sz) = ptr c"
  "b_list (record_segment c name va sz) = b_list c"
  "d_list (record_segment c name va sz) = d_list c"
  by (simp_all add: record_segment_def)

lemma load_segment_64_copy:
  assumes cmd: "read_segment_command_64 (mem c) (ptr c) = Ok s"
    and img: "img_addr c \<noteq> 0" "v_addr c \<noteq> 0"
    and load: "\<not> name_is (segname s) SEG_PAGEZERO"
    and src: "holds (mem c) (memblock c + fileoff s) bs" "length bs = unat (filesize s)"
    and dest: "mapped (mem c) (image_address c (vmaddr s)) (length bs)"
  shows "\<exists>m. load_segment_64 h c =
      Ok (sint (nsects s), record_segment (c\<lparr>mem := m\<rparr>) (segname s) (vmaddr s) (vmsize s)) \<and>
    holds m (image_address c (vmaddr s)) bs \<and>
    (\<forall>a. a \<notin> region (image_address c (vmaddr s)) (length bs) \<longrightarrow> m a = mem c a)"
proof -
  have ensure: "ensure_image_mapping_64 h c = Ok (0, c)"
    using img by (simp add: ensure_image_mapping_64_def)
  obtain m where m: "store_bytes (mem c) (image_address c (vmaddr s)) bs = Ok m"
    using dest by (auto simp: store_bytes_total [symmetric] is_ok_iff)
  have "copy_segment_64 s c = Ok (c\<lparr>mem := m\<rparr>)"
  proof (cases "filesize s = 0")
    case True
    then have "m = mem c" using src m by simp
    then show ?thesis using True by (simp add: copy_segment_64_def)
  next
    case False
    then show ?thesis using img load src m
      by (simp add: copy_segment_64_def memcpy_def image_address_def Let_def)
  qed
  then have "load_segment_64 h c =
      Ok (sint (nsects s), record_segment (c\<lparr>mem := m\<rparr>) (segname s) (vmaddr s) (vmsize s))"
    using cmd ensure by (simp add: load_segment_64_def)
  then show ?thesis
    using store_bytes_holds [OF m] store_bytes_other [OF m] by blast
qed

text \<open>C13: functional. Once the image is mapped, \<open>load_segment_64\<close> copies the \<open>filesize\<close>
  bytes at \<open>fileoff\<close> of the object file to the segment's relocated address, leaves every
  other byte of the address space as it was, returns the section count and records the
  segment.\<close>

theorem load_segment_64_copies:
  assumes cmd: "read_segment_command_64 (mem c) (ptr c) = Ok s"
    and img: "img_addr c \<noteq> 0" "v_addr c \<noteq> 0"
    and load: "\<not> name_is (segname s) SEG_PAGEZERO"
    and src: "holds (mem c) (memblock c + fileoff s) bs" "length bs = unat (filesize s)"
    and dest: "mapped (mem c) (image_address c (vmaddr s)) (length bs)"
  shows "\<exists>m. load_segment_64 h c =
      Ok (sint (nsects s), record_segment (c\<lparr>mem := m\<rparr>) (segname s) (vmaddr s) (vmsize s)) \<and>
    holds m (image_address c (vmaddr s)) bs \<and>
    (\<forall>a. a \<notin> region (image_address c (vmaddr s)) (length bs) \<longrightarrow> m a = mem c a)"
  using assms by (rule load_segment_64_copy)

text \<open>The segment table: an entry below the counter is never overwritten, and the entry a
  load adds says where the segment is.\<close>

lemma record_segment_entry:
  "ctx_ok c \<Longrightarrow> n_segment_info c < MACH_LOADER_MAX_SEGMENTS \<Longrightarrow>
   n_segment_info (record_segment c name va sz) = n_segment_info c + 1 \<and>
   segments (record_segment c name va sz) ! n_segment_info c =
     \<lparr>seg_name = name, seg_vmaddr = va, seg_vmsize = sz,
      mapped_addr = segment_mapped_addr c name va\<rparr>"
  by (simp add: record_segment_def ctx_ok_def)

lemma record_segment_full:
  "\<not> n_segment_info c < MACH_LOADER_MAX_SEGMENTS \<Longrightarrow> record_segment c name va sz = c"
  by (simp add: record_segment_def)

text \<open>Loading any segment command, well-formed or not, 32-bit or 64-bit,
  keeps the invariant of the tables (at most 32 segment entries) and only extends the
  state: entries already recorded and memory already mapped stay.\<close>

theorem load_segments_extend:
  "load_segment_64 h c = Ok (n, c') \<or> load_segment h c = Ok (n, c') \<Longrightarrow>
   extends c c' \<and> (ctx_ok c \<longrightarrow> ctx_ok c')"
  using load_segment_64_extends load_segment_extends extends_ok by blast

section \<open>The 32-bit text segment\<close>

text \<open>Copying the start of the file into a fresh mapping.\<close>

lemma memcpy_fresh:
  assumes mmap: "mmap_ok h m" "host_mmap h m hint len = Some a" and src: "holds m p bs" and le: "length bs \<le> unat len"
  shows "\<exists>m'. memcpy (map_anon m a (unat len)) a p (length bs) = Ok m' \<and> holds m' a bs \<and>
    (\<forall>x. m x \<noteq> None \<longrightarrow> m' x = m x)"
proof -
  let ?m = "map_anon m a (unat len)"
  have a: "a \<noteq> 0" "unat a + unat len \<le> 2 ^ 64" and free: "\<forall>x\<in>region a (unat len). m x = None"
    using mmap by (auto simp: mmap_ok_def)
  have p: "holds ?m p bs" using mmap src by (rule holds_map_anon)
  have "mapped ?m a (length bs)" using map_anon_mapped [OF a] le by (rule mapped_le)
  then have "is_ok (memcpy ?m a p (length bs))" using holds_mapped [OF p] by (simp add: memcpy_total)
  then obtain m' where m': "memcpy ?m a p (length bs) = Ok m'" by (auto simp: is_ok_iff)
  have "load_bytes ?m p (length bs) = Ok bs" using p by (simp add: load_bytes_iff)
  then have "store_bytes ?m a bs = Ok m'" using m' by (simp add: memcpy_def)
  then have "holds m' a bs" by (rule store_bytes_holds)
  moreover have "m' x = m x" if "m x \<noteq> None" for x
  proof -
    have x: "x \<notin> region a (unat len)" using free that by auto
    then have "x \<notin> region a (length bs)" using le by (auto simp: region_def)
    then show ?thesis using memcpy_other [OF m'] map_anon_other [OF x] by simp
  qed
  ultimately show ?thesis using m' by blast
qed

lemma text_size_32:
  assumes "unat n + 0x3000 < 2 ^ 32"
  shows "0x3000 \<le> unat (alignMemory (ucast (n + 0x3000 :: u32)) 0x1000 :: u64)"
proof -
  have n: "unat (n + 0x3000) = unat n + 0x3000" using unat_add_of_nat [of n "0x3000"] assms by simp
  have "unat (ucast (n + 0x3000) :: u64) = unat n + 0x3000"
    using n assms by (simp add: unsigned_ucast_eq take_bit_nat_eq_self)
  then show ?thesis using alignMemory_bounds [of 12 "ucast (n + 0x3000)"] assms by simp
qed

text \<open>C14: functional. On a host that maps the 32-bit \<open>__TEXT\<close> segment, \<open>load_segment\<close> makes the
  mapping the image, copies the first three pages of the file to its start, records the
  segment there and leaves everything that was mapped before as it was.\<close>

theorem load_segment_maps_text:
  assumes cmd: "read_segment_command (mem c) (ptr c) = Ok s" and name: "name_is (segname32 s) SEG_TEXT"
    and mmap: "mmap_ok h (mem c)" "host_mmap h (mem c) (ucast (vmaddr32 s))
      (alignMemory (ucast (filesize32 s + 0x3000)) 0x1000) = Some a"
    and size: "unat (filesize32 s) + 0x3000 < 2 ^ 32"
    and pages: "holds (mem c) (memblock c) bs" "length bs = 0x3000"
  shows "\<exists>m. load_segment h c = Ok (sint (nsects32 s),
      record_segment (c\<lparr>mem := m, img_addr := a, v_addr := ucast (vmaddr32 s)\<rparr>) (segname32 s)
        (ucast (vmaddr32 s)) (ucast (vmsize32 s))) \<and>
    holds m a bs \<and> (\<forall>x. mem c x \<noteq> None \<longrightarrow> m x = mem c x)"
proof -
  have "length bs \<le> unat (alignMemory (ucast (filesize32 s + 0x3000)) 0x1000 :: u64)"
    using text_size_32 [OF size] pages(2) by simp
  from memcpy_fresh [OF mmap pages(1) this] obtain m where
    "memcpy (map_anon (mem c) a (unat (alignMemory (ucast (filesize32 s + 0x3000)) 0x1000 :: u64))) a (memblock c) 0x3000 = Ok m"
    "holds m a bs" "\<forall>x. mem c x \<noteq> None \<longrightarrow> m x = mem c x"
    using pages(2) by auto
  moreover from this(1) have "load_segment h c = Ok (sint (nsects32 s),
      record_segment (c\<lparr>mem := m, img_addr := a, v_addr := ucast (vmaddr32 s)\<rparr>) (segname32 s)
        (ucast (vmaddr32 s)) (ucast (vmsize32 s)))"
    using cmd name mmap(2) by (simp add: load_segment_def map_text_32_def Let_def)
  ultimately show ?thesis by blast
qed

section \<open>Examples\<close>

lemma example_command: "read_segment_command_64 (mem example_mapped) (ptr example_mapped) = Ok example_segment"
proof -
  have "holds (mem example_context) 0x1020 (enc_segment_command_64 example_segment)"
    using example_holds by (simp add: example_file_def holds_append mh64.width example_commands_def)
  then have "holds (mem example_mapped) 0x1020 (enc_segment_command_64 example_segment)"
    using holds_map_anon [OF example_mmap_ok, of 0 "0x4000" "0x200000000"]
    by (simp add: example_mapped_def example_host_def)
  then show ?thesis using example_wf
    by (simp add: sc64.dec_iff example_mapped_def example_context_def)
qed

lemma example_source: "holds (mem example_mapped) 0x1000 (take 16 example_file)"
proof -
  have "holds (mem example_context) 0x1000 (take 16 example_file @ drop 16 example_file)"
    using example_holds by simp
  then have "holds (mem example_context) 0x1000 (take 16 example_file)"
    unfolding holds_append by simp
  then show ?thesis
    using holds_map_anon [OF example_mmap_ok, of 0 "0x4000" "0x200000000"]
    by (simp add: example_mapped_def example_host_def)
qed

lemma example_dest: "mapped (mem example_mapped) (image_address example_mapped (vmaddr example_segment)) 16"
proof -
  have img: "image_address example_mapped (vmaddr example_segment) = 0x200000000"
    by (simp add: image_address_def example_mapped_def example_segment_def)
  have "mapped (mem example_mapped) 0x200000000 0x4000"
    by (simp add: example_mapped_def map_anon_mapped)
  then show ?thesis unfolding img by (rule mapped_le) simp
qed

lemmas example_load_facts = example_command example_source example_dest

lemma example_load_premises:
  "img_addr example_mapped \<noteq> 0" "v_addr example_mapped \<noteq> 0"
  "\<not> name_is (segname example_segment) SEG_PAGEZERO"
  "holds (mem example_mapped) (memblock example_mapped + fileoff example_segment) (take 16 example_file)"
  "length (take 16 example_file) = unat (filesize example_segment)"
  "mapped (mem example_mapped) (image_address example_mapped (vmaddr example_segment)) (length (take 16 example_file))"
  using example_source example_dest
  by (simp_all add: example_mapped_def example_segment_def example_lengths name_is_def lit_def
      SEG_PAGEZERO_def example_context_def)

lemma load_segment_64_copies_witness:
  "\<exists>m. load_segment_64 example_host example_mapped =
      Ok (0, record_segment (example_mapped\<lparr>mem := m\<rparr>) (segname example_segment) 0x100000000 0x4000) \<and>
    holds m (image_address example_mapped 0x100000000) (take 16 example_file)"
  using load_segment_64_copies [OF example_command example_load_premises, of example_host]
  by (auto simp: example_segment_def)

lemma load_segments_extend_witness:
  "\<exists>c'. load_segment_64 example_host example_mapped = Ok (0, c') \<and> extends example_mapped c'"
proof -
  obtain c' where run: "load_segment_64 example_host example_mapped = Ok (0, c')"
    using load_segment_64_copy [OF example_command example_load_premises, of example_host]
    by (auto simp: example_segment_def)
  then show ?thesis
    using load_segments_extend [of example_host example_mapped 0 c'] by blast
qed

definition example_text_32 :: segment_command where
  "example_text_32 =
     \<lparr>cmd = LC_SEGMENT, cmdsize = 56, segname32 = lit ''__TEXT'' @ replicate 10 0, vmaddr32 = 0x1000,
      vmsize32 = 0x4000, fileoff32 = 0, filesize32 = 0x1000, maxprot32 = 5, initprot32 = 5,
      nsects32 = 0, sc_flags32 = 0\<rparr>"

definition example_pages_32 :: "byte list" where
  "example_pages_32 = enc_segment_command example_text_32 @ replicate 12232 0"

definition example_context_32 :: mach_context where
  "example_context_32 =
     (zero_context (map_file Map.empty 0x1000 example_pages_32))\<lparr>memblock := 0x1000, ptr := 0x1000\<rparr>"

lemma example_pages_32: "length example_pages_32 = 12288" "wf_segment_command example_text_32"
  by (simp_all add: example_pages_32_def sc32.width wf_segment_command_def example_text_32_def lit_def)

lemma load_segment_maps_text_witness:
  "\<exists>c'. load_segment example_host example_context_32 = Ok (0, c') \<and> img_addr c' = 0x200000000 \<and>
    holds (mem c') 0x200000000 example_pages_32"
proof -
  have pages: "holds (mem example_context_32) 0x1000 example_pages_32"
    by (simp add: example_context_32_def zero_context_def map_file_holds example_pages_32)
  have cmd: "read_segment_command (mem example_context_32) (ptr example_context_32) = Ok example_text_32"
    using pages example_pages_32(2)
    by (simp add: example_pages_32_def holds_append sc32.dec_iff) (simp add: example_context_32_def)
  have name: "name_is (segname32 example_text_32) SEG_TEXT"
    by (simp add: example_text_32_def name_is_def SEG_TEXT_def lit_def)
  have mmap: "mmap_ok example_host (mem example_context_32)"
    by (rule example_host_mmap_ok)
      (simp_all add: example_context_32_def zero_context_def map_file_def example_pages_32)
  have "host_mmap example_host (mem example_context_32) (ucast (vmaddr32 example_text_32))
      (alignMemory (ucast (filesize32 example_text_32 + 0x3000)) 0x1000) = Some 0x200000000"
    by (simp add: example_text_32_def example_host_def alignMemory_def)
  from load_segment_maps_text [OF cmd name mmap this, of example_pages_32] pages example_pages_32(1)
  obtain m where m: "load_segment example_host example_context_32 = Ok (sint (nsects32 example_text_32),
      record_segment (example_context_32\<lparr>mem := m, img_addr := 0x200000000, v_addr := ucast (vmaddr32 example_text_32)\<rparr>)
        (segname32 example_text_32) (ucast (vmaddr32 example_text_32)) (ucast (vmsize32 example_text_32)))"
    "holds m 0x200000000 example_pages_32"
    by (auto simp: example_context_32_def example_text_32_def)
  moreover have "sint (nsects32 example_text_32) = 0" by (simp add: example_text_32_def)
  ultimately show ?thesis by (simp only: m(1)) simp
qed

end
