(* ===== verification/Mal_Resolver.thy ===== *)
theory Mal_Resolver
  imports Mal_Context
begin

unbundle bit_operations_syntax

text \<open>
  Import symbols: \<open>normalize_macho_symbol_name\<close>, \<open>open_host_libc\<close>, \<open>open_host_libm\<close>,
  \<open>resolve_macho_import_symbol\<close>, \<open>apply_chained_bind\<close> and the replacement functions
  \<open>host_mmap_for_darwin\<close> and \<open>mal_memset_pattern16\<close> of \<^verbatim>\<open>bind.c\<close>.

  \<^item> A resolved address comes from the first provider that has the name, in the order: the
    loader's own replacements, libc, libm, everything loaded.
  \<^item> The library handles are opened at most once (the locale \<open>handle_cache\<close>).
  \<^item> A bind writes one word, or counts an unresolved import and writes nothing.
\<close>

section \<open>Names\<close>

definition strip_underscore :: "cstr \<Rightarrow> cstr" where
  "strip_underscore s = (case s of [] \<Rightarrow> [] | b # t \<Rightarrow> if b = 0x5F then t else s)"

text \<open>
  The C function copies at most \<open>out_size - 1\<close> bytes with \<open>snprintf\<close>, which scans the whole
  source string; its only caller passes a buffer of 256 bytes. \<open>0x5F\<close> is the underscore,
  \<open>0x24\<close> the dollar sign.
\<close>

definition normalize_macho_symbol_name :: "memory \<Rightarrow> addr \<Rightarrow> nat \<Rightarrow> cstr res" where
  "normalize_macho_symbol_name m macho_name out_size =
     (if macho_name = 0 then Ok []
      else
        res_bind (load8 m macho_name) (\<lambda>b.
        let c = (if b = 0x5F then macho_name + 1 else macho_name) in
        res_bind (c_string m c) (\<lambda>s.
        Ok (takeWhile (\<lambda>x. x \<noteq> 0x24) (take (out_size - 1) s)))))"

definition NAMEBUF_SIZE :: nat where "NAMEBUF_SIZE = 256"

definition host_name :: "cstr \<Rightarrow> cstr" where
  "host_name s = takeWhile (\<lambda>x. x \<noteq> 0x24) (take 255 (strip_underscore s))"

section \<open>Providers\<close>

definition shim_for :: "cstr \<Rightarrow> shim option" where
  "shim_for name =
     (if name = lit ''_NSGetEnviron'' \<or> name = lit ''__NSGetEnviron'' then Some Mal_NSGetEnviron
      else if name = lit ''__error'' then Some Mal_Darwin_Error
      else if name = lit ''__stack_chk_guard'' then Some Mal_Stack_Chk_Guard
      else if name = lit ''__stdinp'' then Some Mal_Stdinp
      else if name = lit ''__stdoutp'' then Some Mal_Stdoutp
      else if name = lit ''__stderrp'' then Some Mal_Stderrp
      else if name = lit ''__chkstk_darwin'' then Some Mal_Chkstk_Darwin
      else if name = lit ''__darwin_check_fd_set_overflow'' then Some Mal_Check_Fd_Set_Overflow
      else if name = lit ''memset_pattern16'' then Some Mal_Memset_Pattern16
      else if name = lit ''h_errno'' then Some Mal_H_Errno
      else if name = lit ''atexit'' then Some Mal_Atexit
      else None)"

text \<open>The three stream replacements are set when they are handed out.\<close>

definition use_shim :: "host \<Rightarrow> shim \<Rightarrow> 'a process_scheme \<Rightarrow> addr \<times> 'a process_scheme" where
  "use_shim h s c =
     (host_shim h s,
      case s of
        Mal_Stdinp \<Rightarrow> c\<lparr>mal_stdinp := host_stdin h\<rparr>
      | Mal_Stdoutp \<Rightarrow> c\<lparr>mal_stdoutp := host_stdout h\<rparr>
      | Mal_Stderrp \<Rightarrow> c\<lparr>mal_stderrp := host_stderr h\<rparr>
      | _ \<Rightarrow> c)"

definition open_host_libc :: "host \<Rightarrow> 'a process_scheme \<Rightarrow> addr \<times> 'a process_scheme" where
  "open_host_libc h c =
     (if libc_handle c = 0
      then let v = host_dlopen h (lit ''libc.so.6'') in (v, c\<lparr>libc_handle := v\<rparr>)
      else (libc_handle c, c))"

definition open_host_libm :: "host \<Rightarrow> 'a process_scheme \<Rightarrow> addr \<times> 'a process_scheme" where
  "open_host_libm h c =
     (if libm_handle c = 0
      then let v = host_dlopen h (lit ''libm.so.6'') in (v, c\<lparr>libm_handle := v\<rparr>)
      else (libm_handle c, c))"

definition resolve_in_host :: "host \<Rightarrow> cstr \<Rightarrow> 'a process_scheme \<Rightarrow> addr \<times> 'a process_scheme" where
  "resolve_in_host h name c =
     (let (libc, c1) = open_host_libc h c;
          sym = (if libc \<noteq> 0 then host_dlsym h libc name else 0)
      in if sym \<noteq> 0 then (sym, c1)
         else let (libm, c2) = open_host_libm h c1;
                  sym = (if libm \<noteq> 0 then host_dlsym h libm name else 0)
              in if sym \<noteq> 0 then (sym, c2)
                 else (host_dlsym h RTLD_DEFAULT name, c2))"

definition resolve_macho_import_symbol ::
  "host \<Rightarrow> addr \<Rightarrow> 'a process_scheme \<Rightarrow> (addr \<times> 'a process_scheme) res" where
  "resolve_macho_import_symbol h macho_name c =
     (if macho_name = 0 then Ok (0, c)
      else res_bind (normalize_macho_symbol_name (mem c) macho_name NAMEBUF_SIZE) (\<lambda>namebuf.
        Ok (case shim_for namebuf of
              Some s \<Rightarrow> use_shim h s c
            | None \<Rightarrow> resolve_in_host h namebuf c)))"

definition apply_chained_bind ::
  "host \<Rightarrow> mach_context \<Rightarrow> addr \<Rightarrow> addr \<Rightarrow> u64 \<Rightarrow> (int \<times> mach_context) res" where
  "apply_chained_bind h c loc symbol addend =
     res_bind (resolve_macho_import_symbol h symbol c) (\<lambda>(resolved, c1).
     let c2 = c1\<lparr>chained_bind_count := chained_bind_count c1 + 1\<rparr> in
     if resolved = 0
     then Ok (-1, c2\<lparr>chained_unresolved_bind_count := chained_unresolved_bind_count c2 + 1\<rparr>)
     else
       let final = resolved + addend in
       res_bind (store64 (mem c2) loc final) (\<lambda>m. Ok (0, c2\<lparr>mem := m\<rparr>)))"

section \<open>Replacement functions\<close>

definition DARWIN_MAP_ANON :: u32 where "DARWIN_MAP_ANON = 0x1000"
definition MAP_ANONYMOUS :: u32 where "MAP_ANONYMOUS = 0x20"

text \<open>The flags \<open>host_mmap_for_darwin\<close> passes on to \<open>mmap\<close>; its other arguments are unchanged.\<close>

definition host_mmap_for_darwin_flags :: "u32 \<Rightarrow> u32" where
  "host_mmap_for_darwin_flags flags =
     (if flags AND DARWIN_MAP_ANON \<noteq> 0
      then (flags AND NOT DARWIN_MAP_ANON) OR MAP_ANONYMOUS
      else flags)"

definition mal_memset_pattern16 :: "addr \<Rightarrow> addr \<Rightarrow> nat \<Rightarrow> memory \<Rightarrow> memory res" where
  "mal_memset_pattern16 dst pattern16 len =
     for_upto 0 len (\<lambda>i m.
       res_bind (load8 m (pattern16 + (of_nat i AND 15))) (\<lambda>b.
       store_bytes m (dst + of_nat i) [b]))"

section \<open>Names: facts\<close>

lemma normalize_host_name:
  assumes "c_string m p = Ok s"
  shows "normalize_macho_symbol_name m p NAMEBUF_SIZE = Ok (host_name s)"
proof -
  have p: "p \<noteq> 0" and s: "holds m p (s @ [0])" "0 \<notin> set s"
    using assms by (cases s; auto simp: c_string_iff)+
  show ?thesis
  proof (cases s)
    case Nil
    then show ?thesis using assms p s
      by (auto simp: normalize_macho_symbol_name_def host_name_def strip_underscore_def load8_def)
  next
    case (Cons b t)
    then have "load8 m p = Ok b" and "c_string m (p + 1) = Ok t"
      using s by (auto simp: c_string_iff load8_eq_Ok)
    then show ?thesis using assms p Cons
      by (auto simp: normalize_macho_symbol_name_def host_name_def strip_underscore_def
          NAMEBUF_SIZE_def Let_def)
  qed
qed

text \<open>C34: functional. For any name in memory the normalised name is the name without its
  first underscore, cut at the first dollar sign and at 255 bytes; it never contains a
  dollar sign or a zero byte and always fits the 256-byte buffer with its terminator.\<close>

theorem normalize_macho_symbol_name_spec:
  assumes "c_string m p = Ok s"
  shows "normalize_macho_symbol_name m p NAMEBUF_SIZE = Ok (host_name s) \<and>
    length (host_name s) < NAMEBUF_SIZE \<and> 0x24 \<notin> set (host_name s) \<and> 0 \<notin> set (host_name s)"
proof -
  have "0 \<notin> set s" using assms by (simp add: c_string_iff)
  then have "0 \<notin> set (strip_underscore s)"
    by (auto simp: strip_underscore_def split: list.splits if_splits)
  moreover have "length (host_name s) \<le> 255"
    unfolding host_name_def by (rule order_trans [OF length_takeWhile_le]) simp
  ultimately show ?thesis
    using normalize_host_name [OF assms]
    by (auto simp: host_name_def NAMEBUF_SIZE_def dest: set_takeWhileD in_set_takeD)
qed

section \<open>Handles\<close>

text \<open>A handle opened on first use: afterwards opening it again changes nothing.\<close>

locale handle_cache =
  fixes get :: "'c \<Rightarrow> addr"
    and put :: "addr \<Rightarrow> 'c \<Rightarrow> 'c"
    and fresh :: addr
    and open_it :: "'c \<Rightarrow> addr \<times> 'c"
  assumes get_put: "get (put v c) = v"
    and put_put: "put v (put w c) = put v c"
    and open_it_cached: "get c \<noteq> 0 \<Longrightarrow> open_it c = (get c, c)"
    and open_it_fresh: "get c = 0 \<Longrightarrow> open_it c = (fresh, put fresh c)"
begin

lemma open_handle: "fst (open_it c) = (if get c = 0 then fresh else get c)"
  by (simp add: open_it_cached open_it_fresh)

lemma open_keeps: "snd (open_it c) = (if get c = 0 then put fresh c else c)"
  by (simp add: open_it_cached open_it_fresh)

lemma open_again: "open_it (snd (open_it c)) = open_it c"
  by (cases "get c = 0"; cases "fresh = 0")
    (simp_all add: open_it_cached open_it_fresh get_put put_put)

lemma open_get: "get (snd (open_it c)) = fst (open_it c)"
  by (cases "get c = 0") (simp_all add: open_it_cached open_it_fresh get_put)

end

interpretation libc: handle_cache libc_handle "\<lambda>v c. c\<lparr>libc_handle := v\<rparr>"
    "host_dlopen h (lit ''libc.so.6'')" "open_host_libc h"
  by unfold_locales (simp_all add: open_host_libc_def Let_def)

interpretation libm: handle_cache libm_handle "\<lambda>v c. c\<lparr>libm_handle := v\<rparr>"
    "host_dlopen h (lit ''libm.so.6'')" "open_host_libm h"
  by unfold_locales (simp_all add: open_host_libm_def Let_def)

section \<open>Resolution\<close>

text \<open>What resolving may change: the two handles and the three streams.\<close>

definition only_handles :: "'a process_scheme \<Rightarrow> 'a process_scheme \<Rightarrow> bool" where
  "only_handles c c' \<longleftrightarrow>
     (\<exists>a b x y z. c' = c\<lparr>libc_handle := a, libm_handle := b, mal_stdinp := x,
        mal_stdoutp := y, mal_stderrp := z\<rparr>)"

lemma only_handles_updates [simp]:
  "only_handles c c"
  "only_handles c (c\<lparr>libc_handle := p\<rparr>)"
  "only_handles c (c\<lparr>libm_handle := p\<rparr>)"
  "only_handles c (c\<lparr>mal_stdinp := p\<rparr>)"
  "only_handles c (c\<lparr>mal_stdoutp := p\<rparr>)"
  "only_handles c (c\<lparr>mal_stderrp := p\<rparr>)"
  "only_handles c (c\<lparr>libc_handle := p, libm_handle := q\<rparr>)"
  unfolding only_handles_def by (cases c, simp)+

lemma only_handles_mem: "only_handles c c' \<Longrightarrow> mem c' = mem c"
  by (auto simp: only_handles_def)

lemma only_handles_extends: "only_handles c c' \<Longrightarrow> extends c c'"
  by (auto simp: only_handles_def extends_def ctx_ok_def)

lemma only_handles_context:
  fixes c :: mach_context
  assumes "only_handles c c'"
  shows "mem c' = mem c" and "img_addr c' = img_addr c" and "v_addr c' = v_addr c"
    and "b_list c' = b_list c" and "d_list c' = d_list c" and "ptr c' = ptr c"
    and "segments c' = segments c" and "n_segment_info c' = n_segment_info c"
    and "chained_bind_count c' = chained_bind_count c"
    and "chained_unresolved_bind_count c' = chained_unresolved_bind_count c"
    and "chained_rebase_count c' = chained_rebase_count c"
    and "memblock c' = memblock c" and "entry_point c' = entry_point c"
  using assms by (auto simp: only_handles_def)

lemma use_shim_handles: "only_handles c (snd (use_shim h s c))"
  by (cases s) (simp_all add: use_shim_def)

text \<open>The abstract resolver: the first provider of a non-null address.\<close>

definition first_nonzero :: "addr list \<Rightarrow> addr" where
  "first_nonzero xs = (case dropWhile (\<lambda>x. x = 0) xs of [] \<Rightarrow> 0 | x # _ \<Rightarrow> x)"

definition libc_of :: "host \<Rightarrow> 'a process_scheme \<Rightarrow> addr" where
  "libc_of h c = (if libc_handle c = 0 then host_dlopen h (lit ''libc.so.6'') else libc_handle c)"

definition libm_of :: "host \<Rightarrow> 'a process_scheme \<Rightarrow> addr" where
  "libm_of h c = (if libm_handle c = 0 then host_dlopen h (lit ''libm.so.6'') else libm_handle c)"

definition lookup_in :: "host \<Rightarrow> addr \<Rightarrow> cstr \<Rightarrow> addr" where
  "lookup_in h lib name = (if lib = 0 then 0 else host_dlsym h lib name)"

definition providers :: "host \<Rightarrow> 'a process_scheme \<Rightarrow> cstr \<Rightarrow> addr list" where
  "providers h c name =
     (case shim_for name of
        Some s \<Rightarrow> [host_shim h s]
      | None \<Rightarrow> [lookup_in h (libc_of h c) name, lookup_in h (libm_of h c) name,
                 host_dlsym h RTLD_DEFAULT name])"

lemma resolve_in_host_providers:
  "fst (resolve_in_host h name c) =
     first_nonzero [lookup_in h (libc_of h c) name, lookup_in h (libm_of h c) name,
                    host_dlsym h RTLD_DEFAULT name]"
  by (simp add: resolve_in_host_def libc.open_handle libm.open_handle libc.open_keeps
      libm.open_keeps lookup_in_def libc_of_def libm_of_def first_nonzero_def split_beta Let_def)

lemma resolve_in_host_handles: "only_handles c (snd (resolve_in_host h name c))"
  by (simp add: resolve_in_host_def libc.open_keeps libm.open_keeps split_beta Let_def)

lemma libs_kept:
  "libc_of h (snd (resolve_in_host h name c)) = libc_of h c"
  "libm_of h (snd (resolve_in_host h name c)) = libm_of h c"
  by (simp_all add: resolve_in_host_def libc.open_keeps libm.open_keeps libc_of_def libm_of_def
      split_beta Let_def)

lemma libs_kept_shim:
  "libc_of h (snd (use_shim h s c)) = libc_of h c" "libm_of h (snd (use_shim h s c)) = libm_of h c"
  by (cases s; simp add: use_shim_def libc_of_def libm_of_def)+

definition resolved_by :: "host \<Rightarrow> cstr \<Rightarrow> 'a process_scheme \<Rightarrow> addr \<times> 'a process_scheme" where
  "resolved_by h name c =
     (case shim_for name of Some s \<Rightarrow> use_shim h s c | None \<Rightarrow> resolve_in_host h name c)"

lemma c_string_nonnull: "c_string m p = Ok s \<Longrightarrow> p \<noteq> 0"
  by (cases s) (auto simp: c_string_iff)

lemma resolve_named:
  "c_string (mem c) p = Ok s \<Longrightarrow>
   resolve_macho_import_symbol h p c = Ok (resolved_by h (host_name s) c)"
  using c_string_nonnull
  by (auto simp: resolve_macho_import_symbol_def normalize_host_name resolved_by_def)

lemma resolved_by_first: "fst (resolved_by h name c) = first_nonzero (providers h c name)"
  by (simp add: resolved_by_def providers_def resolve_in_host_providers split: option.split)
    (simp add: use_shim_def first_nonzero_def)

lemma resolved_by_handles: "only_handles c (snd (resolved_by h name c))"
  by (simp add: resolved_by_def resolve_in_host_handles use_shim_handles split: option.split)

lemma providers_kept: "providers h (snd (resolved_by h name c)) n = providers h c n"
  by (simp add: resolved_by_def providers_def libs_kept libs_kept_shim split: option.split)

text \<open>C19: refinement. Resolving an import gives the first non-null answer of the providers in
  order (the loader's own replacement if there is one; otherwise libc, libm, then the global
  scope), changes nothing but the cached handles and streams, and a later resolution of any
  name from the resulting state gives what it would have given before.\<close>

theorem resolve_macho_import_symbol_first:
  assumes "c_string (mem c) p = Ok s"
  shows "\<exists>c'. resolve_macho_import_symbol h p c =
      Ok (first_nonzero (providers h c (host_name s)), c') \<and>
    only_handles c c' \<and> (\<forall>name. providers h c' name = providers h c name)"
  unfolding resolve_named [OF assms]
  using resolved_by_first [of h "host_name s" c] resolved_by_handles [of c h "host_name s"]
    providers_kept [of h "host_name s" c]
  by (intro exI [of _ "snd (resolved_by h (host_name s) c)"]) (metis prod.collapse)

section \<open>Binding one pointer\<close>

lemma resolve_ok_handles:
  assumes "resolve_macho_import_symbol h p c = Ok (a, c')"
  shows "only_handles c c'"
proof (cases "p = 0")
  case True
  then show ?thesis using assms by (simp add: resolve_macho_import_symbol_def)
next
  case False
  then obtain name where "resolved_by h name c = (a, c')"
    using assms by (auto simp: resolve_macho_import_symbol_def res_bind_eq_Ok resolved_by_def)
  then have "c' = snd (resolved_by h name c)" by (metis snd_conv)
  then show ?thesis using resolved_by_handles by metis
qed

lemma extends_store_counted:
  "store64 (mem c) p w = Ok m \<Longrightarrow> extends c (c\<lparr>chained_bind_count := n, mem := m\<rparr>)"
  by (simp add: extends_def ctx_ok_def store64_dom)

lemma extends_counters: "extends c (c\<lparr>chained_bind_count := n, chained_unresolved_bind_count := k\<rparr>)"
  by (simp add: extends_def ctx_ok_def)

lemma apply_chained_bind_extends:
  assumes "apply_chained_bind h c loc p addend = Ok (r, c')"
  shows "extends c c' \<and> dom (mem c') = dom (mem c) \<and> img_addr c' = img_addr c"
proof -
  obtain a c1 where res: "resolve_macho_import_symbol h p c = Ok (a, c1)"
    using assms by (auto simp: apply_chained_bind_def res_bind_eq_Ok)
  note frame = resolve_ok_handles [OF res]
  have "extends c1 c' \<and> dom (mem c') = dom (mem c1) \<and> img_addr c' = img_addr c1"
  proof (cases "a = 0")
    case True
    then show ?thesis using assms res
      by (auto simp: apply_chained_bind_def Let_def extends_counters)
  next
    case False
    then obtain m where "store64 (mem c1) loc (a + addend) = Ok m"
      and "c' = c1\<lparr>chained_bind_count := chained_bind_count c1 + 1, mem := m\<rparr>"
      using assms res by (auto simp: apply_chained_bind_def Let_def res_bind_eq_Ok)
    then show ?thesis by (simp add: extends_store_counted store64_dom)
  qed
  then show ?thesis
    using only_handles_extends [OF frame] only_handles_context [OF frame] extends_trans by metis
qed

text \<open>C20: functional. Applying a bind to a mapped location either stores resolved address plus
  addend there and counts one bind, or, when no provider has the name, returns \<open>-1\<close>, writes
  nothing and counts one bind and one unresolved bind.\<close>

theorem apply_chained_bind_effect:
  assumes name: "c_string (mem c) p = Ok s" and loc: "mapped (mem c) loc 8"
  shows "\<exists>c'. let a = first_nonzero (providers h c (host_name s)) in
    apply_chained_bind h c loc p addend = Ok (if a = 0 then -1 else 0, c') \<and>
    chained_bind_count c' = chained_bind_count c + 1 \<and>
    chained_unresolved_bind_count c' =
      chained_unresolved_bind_count c + (if a = 0 then 1 else 0) \<and>
    (if a = 0 then mem c' = mem c else store64 (mem c) loc (a + addend) = Ok (mem c'))"
proof -
  let ?a = "first_nonzero (providers h c (host_name s))"
  obtain c1 where res: "resolve_macho_import_symbol h p c = Ok (?a, c1)" and frame: "only_handles c c1"
    using resolve_named [OF name, of h] resolved_by_first [of h "host_name s" c]
      resolved_by_handles [of c h "host_name s"] by (metis prod.collapse)
  obtain m where m: "store64 (mem c) loc (?a + addend) = Ok m"
    using loc store64_total [of "mem c" loc "?a + addend"] by (auto simp: is_ok_iff)
  show ?thesis
    using res m only_handles_context [OF frame]
    by (cases "?a = 0") (simp_all add: apply_chained_bind_def Let_def)
qed

section \<open>Replacement functions: facts\<close>

text \<open>The flags the \<open>mmap\<close> replacement passes on never carry Darwin's
  \<open>MAP_ANON\<close> bit; they carry Linux's instead exactly when Darwin's was set (or the caller
  set it), and every other bit is the caller's.\<close>

theorem host_mmap_for_darwin_flags_bits:
  "bit (host_mmap_for_darwin_flags flags) n \<longleftrightarrow>
     (if n = 12 then False
      else if n = 5 then bit flags 5 \<or> bit flags 12
      else bit flags n)"
proof -
  have masks: "bit DARWIN_MAP_ANON k \<longleftrightarrow> k = 12" "bit MAP_ANONYMOUS k \<longleftrightarrow> k = 5" for k
  proof -
    have masks: "DARWIN_MAP_ANON = push_bit 12 1" "MAP_ANONYMOUS = push_bit 5 1"
      by (simp_all add: DARWIN_MAP_ANON_def MAP_ANONYMOUS_def)
    show "bit DARWIN_MAP_ANON k \<longleftrightarrow> k = 12" "bit MAP_ANONYMOUS k \<longleftrightarrow> k = 5"
      by (simp only: masks bit_push_bit_iff bit_1_iff; auto)+
  qed
  have "flags AND DARWIN_MAP_ANON = 0 \<longleftrightarrow> \<not> bit flags 12"
  proof
    assume "flags AND DARWIN_MAP_ANON = 0"
    then have "\<not> bit (flags AND DARWIN_MAP_ANON) 12" by simp
    then show "\<not> bit flags 12" by (simp add: bit_and_iff masks)
  qed (auto intro!: bit_word_eqI simp: bit_and_iff masks)
  then show ?thesis
    by (auto simp: host_mmap_for_darwin_flags_def bit_and_iff bit_or_iff bit_not_iff masks
        dest: bit_imp_le_length)
qed

lemma and_15: "(of_nat n AND 15 :: addr) = of_nat (n mod 16)"
proof -
  have "(15 :: addr) = mask 4" by (simp add: mask_eq_exp_minus_1)
  then have "(of_nat n AND 15 :: addr) = take_bit 4 (of_nat n)" by (simp only: take_bit_eq_mask)
  also have "\<dots> = of_nat (take_bit 4 n)" by (rule take_bit_of_nat)
  finally show ?thesis by (simp add: take_bit_eq_mod)
qed

text \<open>C35: functional. The \<open>memset_pattern16\<close> replacement fills any mapped destination that
  does not overlap the pattern with the 16 pattern bytes repeated, the last repetition cut
  short, and changes nothing outside the destination.\<close>

theorem mal_memset_pattern16_fills:
  assumes pat: "holds m pat ps" "length ps = 16" and dst: "mapped m dst len"
    and disjoint: "apart pat 16 dst len"
  shows "\<exists>m'. mal_memset_pattern16 dst pat len m = Ok m' \<and>
    (\<forall>i<len. m' (dst + of_nat i) = Some (ps ! (i mod 16))) \<and>
    (\<forall>a. a \<notin> region dst len \<longrightarrow> m' a = m a)"
proof (cases "len = 0")
  case True
  then show ?thesis by (simp add: mal_memset_pattern16_def)
next
  case False
  then have nowrap: "unat dst + len \<le> 2 ^ 64" using mapped_no_wrap [OF dst] by simp
  have at: "unat (dst + of_nat i) = unat dst + i" if "i < len" for i
    using nowrap that by (intro unat_add_of_nat) simp
  define P where "P n m' \<longleftrightarrow> dom m' = dom m \<and>
      (\<forall>i<n. m' (dst + of_nat i) = Some (ps ! (i mod 16))) \<and>
      (\<forall>a. a \<notin> region dst n \<longrightarrow> m' a = m a)" for n m'
  let ?body = "\<lambda>i m. res_bind (load8 m (pat + (of_nat i AND 15))) (\<lambda>b. store_bytes m (dst + of_nat i) [b])"
  have "\<exists>m'. for_upto 0 len ?body m = Ok m' \<and> P len m'"
  proof (rule for_upto_total)
    show "P 0 m" by (simp add: P_def)
  next
    fix n m' assume n: "n < len" and P: "P n m'"
    have "holds m' pat ps"
      using pat(1) by (rule holds_cong)
        (use P n pat(2) disjoint in \<open>auto simp: P_def apart_def region_def\<close>)
    then have "load8 m' (pat + (of_nat n AND 15)) = Ok (ps ! (n mod 16))"
      using pat(2) holds_nth [of m' pat ps "n mod 16"] mapped_offset [of m' pat 16 "n mod 16" 1]
        holds_mapped [of m' pat ps]
      by (simp add: and_15 load8_eq_Ok)
    moreover have "dst + of_nat n \<noteq> 0" "m (dst + of_nat n) \<noteq> None"
      using mapped_offset [OF dst, of n 1] n by auto
    ultimately have step: "?body n m' = Ok (m'(dst + of_nat n \<mapsto> ps ! (n mod 16)))"
      using P by (auto simp: P_def)
    have "dst + of_nat i \<noteq> dst + of_nat n" if "i < n" for i
      using at [of i] at [OF n] that n by (metis add_left_cancel less_irrefl order.strict_trans)
    moreover have "a \<noteq> dst + of_nat n \<and> a \<notin> region dst n" if "a \<notin> region dst (Suc n)" for a
      using that at [OF n] by (auto simp: region_def)
    moreover have "dst + of_nat n \<in> dom m'" using P \<open>m (dst + of_nat n) \<noteq> None\<close>
      by (simp add: P_def domIff)
    ultimately have "P (Suc n) (m'(dst + of_nat n \<mapsto> ps ! (n mod 16)))"
      using P by (auto simp: P_def less_Suc_eq)
    then show "\<exists>t'. ?body n m' = Ok t' \<and> P (Suc n) t'" using step by blast
  qed simp
  then show ?thesis by (auto simp: mal_memset_pattern16_def P_def)
qed

section \<open>Examples\<close>

text \<open>A name with a Darwin suffix, followed by a location to bind.\<close>

definition example_name :: cstr where
  "example_name = lit ''_puts$DARWIN''"

definition example_name_context :: mach_context where
  "example_name_context =
     zero_context (map_file Map.empty 0x1000 (example_name @ [0] @ replicate 18 0xAA))"

lemma example_name_mem:
  "mem example_name_context = map_file Map.empty 0x1000 (example_name @ [0] @ replicate 18 0xAA)"
  by (simp add: example_name_context_def zero_context_def)

lemma example_name_length: "length example_name = 12"
  by (simp add: example_name_def lit_def)

lemma example_name_string: "c_string (mem example_name_context) 0x1000 = Ok example_name"
proof -
  have "holds (mem example_name_context) 0x1000 (example_name @ [0] @ replicate 18 0xAA)"
    unfolding example_name_mem by (rule map_file_holds) (simp_all add: example_name_length)
  then have "holds (mem example_name_context) 0x1000 ((example_name @ [0]) @ replicate 18 0xAA)" by simp
  then have "holds (mem example_name_context) 0x1000 (example_name @ [0])"
    unfolding holds_append by simp
  then show ?thesis by (simp add: c_string_iff) (simp add: example_name_def lit_def)
qed

lemma example_host_name: "host_name example_name = lit ''puts''"
  by (simp add: host_name_def example_name_def strip_underscore_def lit_def)

lemma normalize_macho_symbol_name_spec_witness:
  "normalize_macho_symbol_name (mem example_name_context) 0x1000 NAMEBUF_SIZE = Ok (lit ''puts'')"
  using normalize_macho_symbol_name_spec [OF example_name_string] by (simp add: example_host_name)

lemma example_providers: "first_nonzero (providers example_host example_name_context (lit ''puts'')) = 0x7100"
  by (simp add: first_nonzero_def providers_def shim_for_def lookup_in_def libc_of_def libm_of_def
      example_host_def example_name_context_def zero_context_def lit_def)

lemma resolve_macho_import_symbol_first_witness:
  "\<exists>c'. resolve_macho_import_symbol example_host 0x1000 example_name_context = Ok (0x7100, c')"
  using resolve_macho_import_symbol_first [OF example_name_string, of example_host]
  by (auto simp: example_host_name example_providers)

lemma example_location: "mapped (mem example_name_context) 0x1010 8"
proof -
  have "mapped (mem example_name_context) 0x1000 31"
    using holds_mapped [OF map_file_holds [of "0x1000" "example_name @ [0] @ replicate 18 0xAA" Map.empty]]
    by (simp add: example_name_mem example_name_length)
  from mapped_numeral [OF this, of "Num.num.Bit0 (num.Bit0 (num.Bit0 (num.Bit0 num.One)))" 8]
  show ?thesis by simp
qed

lemma apply_chained_bind_effect_witness:
  "\<exists>c'. apply_chained_bind example_host example_name_context 0x1010 0x1000 4 = Ok (0, c') \<and>
    chained_bind_count c' = 1 \<and> chained_unresolved_bind_count c' = 0 \<and>
    store64 (mem example_name_context) 0x1010 0x7104 = Ok (mem c')"
proof -
  have "chained_bind_count example_name_context = 0"
    "chained_unresolved_bind_count example_name_context = 0"
    by (simp_all add: example_name_context_def zero_context_def)
  then show ?thesis
    using apply_chained_bind_effect [OF example_name_string example_location, of example_host 4]
    by (auto simp: example_host_name example_providers Let_def)
qed

lemma mal_memset_pattern16_fills_witness:
  "\<exists>m'. mal_memset_pattern16 0x1010 0x1000 20
      (map_file Map.empty 0x1000 (map of_nat [0..<16] @ replicate 20 0xFF)) = Ok m' \<and>
    m' 0x1010 = Some 0 \<and> m' (0x1010 + of_nat 17) = Some 1"
proof -
  let ?ps = "map of_nat [0..<16] :: byte list"
  let ?m = "map_file Map.empty 0x1000 (?ps @ replicate 20 0xFF)"
  have h: "holds ?m 0x1000 (?ps @ replicate 20 0xFF)" by (rule map_file_holds) simp_all
  then have "holds ?m 0x1000 ?ps" and "holds ?m 0x1010 (replicate 20 0xFF)"
    unfolding holds_append by simp_all
  moreover from holds_mapped [OF this(2)] have "mapped ?m 0x1010 20" by simp
  ultimately have "\<exists>m'. mal_memset_pattern16 0x1010 0x1000 20 ?m = Ok m' \<and>
      (\<forall>i<20. m' (0x1010 + of_nat i) = Some (?ps ! (i mod 16))) \<and>
      (\<forall>a. a \<notin> region 0x1010 20 \<longrightarrow> m' a = ?m a)"
    by (intro mal_memset_pattern16_fills) (simp_all add: apart_def)
  then obtain m' where run: "mal_memset_pattern16 0x1010 0x1000 20 ?m = Ok m'"
    and val: "\<And>i. i < 20 \<Longrightarrow> m' (0x1010 + of_nat i) = Some (?ps ! (i mod 16))" by blast
  from val [of 0] val [of 17] run show ?thesis by auto
qed

end
