(* ===== verification/Mal_Chained.thy ===== *)
theory Mal_Chained
  imports Mal_Resolver
begin

unbundle bit_operations_syntax

text \<open>
  Chained fixups (\<open>LC_DYLD_CHAINED_FIXUPS\<close>): the structs of \<^verbatim>\<open>mach-o/fixup-chains.h\<close> the
  loader reads and the functions of \<^verbatim>\<open>main.c\<close> from \<open>chained_import_format_name\<close> to
  \<open>dump_chained_64_offset_entries\<close>. A chain is walked by \<open>chain_walk\<close>, one entry by
  \<open>fixup_entry\<close>; the tables of the file are read where the C code dereferences its pointers,
  from the memory of that moment.

  \<^item> The accessors agree with the bit fields of the header's structs.
  \<^item> On a chain (the inductive predicate \<open>chain\<close>) the walk applies the entries in order,
    at most 512 of them, and reads each raw value as it was before the walk.
  \<^item> No fixup maps or unmaps memory, and the tables keep their invariant.
\<close>

section \<open>Structs\<close>

text \<open>\<open>page_start\<close> follows \<open>page_count\<close> at offset 22; with its one element the C struct has 24 bytes.\<close>

record chained_fixups_header = 
  fixups_version :: u32
  starts_offset :: u32
  imports_offset :: u32
  symbols_offset :: u32
  imports_count :: u32
  imports_format :: u32
  symbols_format :: u32

definition read_chained_fixups_header :: "memory \<Rightarrow> addr \<Rightarrow> chained_fixups_header res" where
  "read_chained_fixups_header m p =
     res_bind (load32 m p) (\<lambda>v0.
     res_bind (load32 m (p + 4)) (\<lambda>v1.
     res_bind (load32 m (p + 8)) (\<lambda>v2.
     res_bind (load32 m (p + 12)) (\<lambda>v3.
     res_bind (load32 m (p + 16)) (\<lambda>v4.
     res_bind (load32 m (p + 20)) (\<lambda>v5.
     res_bind (load32 m (p + 24)) (\<lambda>v6.
     Ok \<lparr>fixups_version = v0, starts_offset = v1, imports_offset = v2, symbols_offset = v3,
         imports_count = v4, imports_format = v5, symbols_format = v6\<rparr>)))))))"

definition enc_chained_fixups_header :: "chained_fixups_header \<Rightarrow> byte list" where
  "enc_chained_fixups_header s =
     word_bytes 4 (fixups_version s) @ word_bytes 4 (starts_offset s) @
     word_bytes 4 (imports_offset s) @ word_bytes 4 (symbols_offset s) @
     word_bytes 4 (imports_count s) @ word_bytes 4 (imports_format s) @
     word_bytes 4 (symbols_format s)"

interpretation chdr: fixed_codec "\<lambda>_. True" enc_chained_fixups_header
    read_chained_fixups_header 28
proof unfold_locales
  show "read_chained_fixups_header m p = Ok s \<longleftrightarrow>
      True \<and> holds m p (enc_chained_fixups_header s)" for m p s
    by (cases s) (auto simp: read_chained_fixups_header_def enc_chained_fixups_header_def
        reader_simps)
  show "is_ok (read_chained_fixups_header m p)" if "mapped m p 28" for m p
    using that
    by (auto simp: read_chained_fixups_header_def reader_total intro: mapped_numeral mapped_le)
qed (simp add: enc_chained_fixups_header_def)

record chained_starts = 
  css_size :: u32
  css_page_size :: u16
  css_pointer_format :: u16
  css_segment_offset :: u64
  css_max_valid_pointer :: u32
  css_page_count :: u16

definition read_chained_starts :: "memory \<Rightarrow> addr \<Rightarrow> chained_starts res" where
  "read_chained_starts m p =
     res_bind (load32 m p) (\<lambda>v0.
     res_bind (load16 m (p + 4)) (\<lambda>v1.
     res_bind (load16 m (p + 6)) (\<lambda>v2.
     res_bind (load64 m (p + 8)) (\<lambda>v3.
     res_bind (load32 m (p + 16)) (\<lambda>v4.
     res_bind (load16 m (p + 20)) (\<lambda>v5.
     Ok \<lparr>css_size = v0, css_page_size = v1, css_pointer_format = v2, css_segment_offset =
         v3, css_max_valid_pointer = v4, css_page_count = v5\<rparr>))))))"

definition enc_chained_starts :: "chained_starts \<Rightarrow> byte list" where
  "enc_chained_starts s =
     word_bytes 4 (css_size s) @ word_bytes 2 (css_page_size s) @
     word_bytes 2 (css_pointer_format s) @ word_bytes 8 (css_segment_offset s) @
     word_bytes 4 (css_max_valid_pointer s) @ word_bytes 2 (css_page_count s)"

interpretation cstarts: fixed_codec "\<lambda>_. True" enc_chained_starts
    read_chained_starts 22
proof unfold_locales
  show "read_chained_starts m p = Ok s \<longleftrightarrow>
      True \<and> holds m p (enc_chained_starts s)" for m p s
    by (cases s) (auto simp: read_chained_starts_def enc_chained_starts_def
        reader_simps)
  show "is_ok (read_chained_starts m p)" if "mapped m p 22" for m p
    using that
    by (auto simp: read_chained_starts_def reader_total intro: mapped_numeral mapped_le)
qed (simp add: enc_chained_starts_def)

section \<open>Constants\<close>

definition MAL_DYLD_CHAINED_PTR_START_NONE :: u16 where
  [macho_consts]: "MAL_DYLD_CHAINED_PTR_START_NONE = 0xFFFF"
definition MAL_DYLD_CHAINED_PTR_START_MULTI :: u16 where
  [macho_consts]: "MAL_DYLD_CHAINED_PTR_START_MULTI = 0x8000"
definition MAL_DYLD_CHAINED_PTR_64_OFFSET :: u16 where
  [macho_consts]: "MAL_DYLD_CHAINED_PTR_64_OFFSET = 6"
definition MAL_DYLD_CHAINED_IMPORT :: u32 where [macho_consts]: "MAL_DYLD_CHAINED_IMPORT = 1"
definition MAL_DYLD_CHAINED_IMPORT_ADDEND :: u32 where [macho_consts]: "MAL_DYLD_CHAINED_IMPORT_ADDEND = 2"
definition MAL_DYLD_CHAINED_IMPORT_ADDEND64 :: u32 where [macho_consts]: "MAL_DYLD_CHAINED_IMPORT_ADDEND64 = 3"

definition MAL_DYLD_CHAINED_PTR_ARM64E :: u16 where [macho_consts]: "MAL_DYLD_CHAINED_PTR_ARM64E = 1"
definition MAL_DYLD_CHAINED_PTR_64 :: u16 where [macho_consts]: "MAL_DYLD_CHAINED_PTR_64 = 2"
definition MAL_DYLD_CHAINED_PTR_32 :: u16 where [macho_consts]: "MAL_DYLD_CHAINED_PTR_32 = 3"
definition MAL_DYLD_CHAINED_PTR_32_CACHE :: u16 where [macho_consts]: "MAL_DYLD_CHAINED_PTR_32_CACHE = 4"
definition MAL_DYLD_CHAINED_PTR_32_FIRMWARE :: u16 where [macho_consts]: "MAL_DYLD_CHAINED_PTR_32_FIRMWARE = 5"
definition MAL_DYLD_CHAINED_PTR_64_KERNEL_CACHE :: u16 where [macho_consts]: "MAL_DYLD_CHAINED_PTR_64_KERNEL_CACHE = 8"
definition MAL_DYLD_CHAINED_PTR_ARM64E_USERLAND :: u16 where [macho_consts]: "MAL_DYLD_CHAINED_PTR_ARM64E_USERLAND = 9"
definition MAL_DYLD_CHAINED_PTR_ARM64E_USERLAND24 :: u16 where [macho_consts]: "MAL_DYLD_CHAINED_PTR_ARM64E_USERLAND24 = 12"

definition CHAIN_LIMIT :: nat where "CHAIN_LIMIT = 512"

definition chained_import_format_name :: "u32 \<Rightarrow> string" where
  "chained_import_format_name fmt =
     (if fmt = MAL_DYLD_CHAINED_IMPORT then ''DYLD_CHAINED_IMPORT''
      else if fmt = MAL_DYLD_CHAINED_IMPORT_ADDEND then ''DYLD_CHAINED_IMPORT_ADDEND''
      else if fmt = MAL_DYLD_CHAINED_IMPORT_ADDEND64 then ''DYLD_CHAINED_IMPORT_ADDEND64''
      else ''unknown'')"

definition chained_symbol_format_name :: "u32 \<Rightarrow> string" where
  "chained_symbol_format_name fmt =
     (if fmt = 0 then ''uncompressed'' else if fmt = 1 then ''zlib compressed'' else ''unknown'')"

definition chained_pointer_format_name :: "u16 \<Rightarrow> string" where
  "chained_pointer_format_name fmt =
     (if fmt = MAL_DYLD_CHAINED_PTR_ARM64E then ''DYLD_CHAINED_PTR_ARM64E''
      else if fmt = MAL_DYLD_CHAINED_PTR_64 then ''DYLD_CHAINED_PTR_64''
      else if fmt = MAL_DYLD_CHAINED_PTR_64_OFFSET then ''DYLD_CHAINED_PTR_64_OFFSET''
      else if fmt = MAL_DYLD_CHAINED_PTR_64_KERNEL_CACHE then ''DYLD_CHAINED_PTR_64_KERNEL_CACHE''
      else if fmt = MAL_DYLD_CHAINED_PTR_32 then ''DYLD_CHAINED_PTR_32''
      else if fmt = MAL_DYLD_CHAINED_PTR_32_CACHE then ''DYLD_CHAINED_PTR_32_CACHE''
      else if fmt = MAL_DYLD_CHAINED_PTR_32_FIRMWARE then ''DYLD_CHAINED_PTR_32_FIRMWARE''
      else if fmt = MAL_DYLD_CHAINED_PTR_ARM64E_USERLAND then ''DYLD_CHAINED_PTR_ARM64E_USERLAND''
      else if fmt = MAL_DYLD_CHAINED_PTR_ARM64E_USERLAND24 then ''DYLD_CHAINED_PTR_ARM64E_USERLAND24''
      else ''unknown'')"

section \<open>One entry\<close>

definition chained64_bind_ordinal :: "u64 \<Rightarrow> u32" where
  "chained64_bind_ordinal raw = ucast (raw AND 0xFFFFFF)"

definition chained64_bind_addend :: "u64 \<Rightarrow> int" where
  "chained64_bind_addend raw = sint (ucast (drop_bit 24 raw AND 0xFF) :: byte)"

definition chained64_rebase_target :: "u64 \<Rightarrow> u64" where
  "chained64_rebase_target raw = raw AND 0xFFFFFFFFF"

definition chained64_next :: "u64 \<Rightarrow> u16" where
  "chained64_next raw = ucast (drop_bit 51 raw AND 0xFFF)"

definition chained64_is_bind :: "u64 \<Rightarrow> bool" where
  "chained64_is_bind raw \<longleftrightarrow> drop_bit 63 raw AND 1 \<noteq> 0"

text \<open>The \<open>name_offset\<close> bit field of a \<open>dyld_chained_import\<close>: its upper 23 bits.\<close>

definition import_name_offset :: "u32 \<Rightarrow> u32" where
  "import_name_offset w = drop_bit 9 w"

text \<open>The header's fields are read through the pointer, \<open>imports_offset\<close> at 8, \<open>symbols_offset\<close>
  at 12, \<open>imports_count\<close> at 16. The result 0 is \<open>NULL\<close>.\<close>

definition chained_import_name :: "memory \<Rightarrow> addr \<Rightarrow> addr \<Rightarrow> u32 \<Rightarrow> addr res" where
  "chained_import_name m fixups_base hdr ordinal =
     res_bind (load32 m (hdr + 16)) (\<lambda>n.
     if ordinal \<ge> n then Ok 0
     else
       res_bind (load32 m (hdr + 8)) (\<lambda>imports_off.
       res_bind (load32 m (hdr + 12)) (\<lambda>symbols_off.
       res_bind (load32 m (fixups_base + ucast imports_off + ucast ordinal * 4)) (\<lambda>w.
       Ok (fixups_base + ucast symbols_off + ucast (import_name_offset w))))))"

definition apply_chained_64_offset_rebase ::
  "mach_context \<Rightarrow> addr \<Rightarrow> u64 \<Rightarrow> mach_context res" where
  "apply_chained_64_offset_rebase c loc raw =
     (let target = chained64_rebase_target raw;
          final = img_addr c + target
      in res_bind (store64 (mem c) loc final) (\<lambda>m. Ok (c\<lparr>mem := m\<rparr>)))"

text \<open>
  The body of the innermost loop after the raw value was read. The name is also printed,
  which reads the whole string.
\<close>

definition fixup_entry ::
  "host \<Rightarrow> addr \<Rightarrow> addr \<Rightarrow> addr \<Rightarrow> u64 \<Rightarrow> mach_context \<Rightarrow> mach_context res" where
  "fixup_entry h fixups_base hdr loc raw c =
     (if chained64_is_bind raw then
        let ordinal = chained64_bind_ordinal raw;
            addend = chained64_bind_addend raw
        in
        res_bind (chained_import_name (mem c) fixups_base hdr ordinal) (\<lambda>name.
        if name \<noteq> 0 then
          res_bind (c_string (mem c) name) (\<lambda>_.
          res_bind (apply_chained_bind h c loc name (of_int addend)) (\<lambda>(_, c').
          Ok c'))
        else
          Ok (c\<lparr>chained_bind_count := chained_bind_count c + 1,
                chained_unresolved_bind_count := chained_unresolved_bind_count c + 1\<rparr>))
      else
        res_bind (apply_chained_64_offset_rebase c loc raw) (\<lambda>c'.
        Ok (c'\<lparr>chained_rebase_count := chained_rebase_count c' + 1\<rparr>)))"

section \<open>Chains, pages, segments\<close>

text \<open>The first argument counts the iterations the loop may still make.\<close>

primrec chain_walk ::
  "nat \<Rightarrow> host \<Rightarrow> addr \<Rightarrow> addr \<Rightarrow> addr \<Rightarrow> mach_context \<Rightarrow> mach_context res" where
  "chain_walk 0 h fixups_base hdr loc c = Ok c"
| "chain_walk (Suc n) h fixups_base hdr loc c =
     res_bind (load64 (mem c) loc) (\<lambda>raw.
     let next = chained64_next raw in
     res_bind (fixup_entry h fixups_base hdr loc raw c) (\<lambda>c'.
     if next = 0 then Ok c'
     else chain_walk n h fixups_base hdr (loc + ucast next * 4) c'))"

definition page_fixups ::
  "host \<Rightarrow> addr \<Rightarrow> addr \<Rightarrow> addr \<Rightarrow> nat \<Rightarrow> mach_context \<Rightarrow> mach_context res" where
  "page_fixups h fixups_base hdr seg page c =
     res_bind (load16 (mem c) (seg + 22 + of_nat (2 * page))) (\<lambda>page_start.
     if page_start = MAL_DYLD_CHAINED_PTR_START_NONE then Ok c
     else if page_start AND MAL_DYLD_CHAINED_PTR_START_MULTI \<noteq> 0 then Ok c
     else
       res_bind (load64 (mem c) (seg + 8)) (\<lambda>segment_off.
       res_bind (load16 (mem c) (seg + 4)) (\<lambda>page_size.
       let chain_offset = segment_off + of_nat page * ucast page_size + ucast page_start
       in chain_walk CHAIN_LIMIT h fixups_base hdr (img_addr c + chain_offset) c)))"

definition dump_chained_64_offset_entries ::
  "host \<Rightarrow> mach_context \<Rightarrow> addr \<Rightarrow> addr \<Rightarrow> nat \<Rightarrow> addr \<Rightarrow> mach_context res" where
  "dump_chained_64_offset_entries h c fixups_base hdr segment_idx seg =
     (if n_segment_info c \<le> segment_idx then Ok c
      else if mapped_addr (segments c ! segment_idx) = 0 then Ok c
      else for_below 0 (2 ^ 16)
             (\<lambda>c. res_bind (load16 (mem c) (seg + 20)) (\<lambda>n. Ok (unat n)))
             (page_fixups h fixups_base hdr seg) c)"

text \<open>One iteration of the loop over \<open>seg_info_offset\<close>; the first eight page starts are printed.\<close>

definition segment_fixups ::
  "host \<Rightarrow> addr \<Rightarrow> addr \<Rightarrow> addr \<Rightarrow> addr \<Rightarrow> nat \<Rightarrow> mach_context \<Rightarrow> mach_context res" where
  "segment_fixups h fixups_base fixups_end hdr starts i c =
     res_bind (load32 (mem c) (starts + 4 + of_nat (4 * i))) (\<lambda>seg_info_off.
     if seg_info_off = 0 then Ok c
     else
       let seg = starts + ucast seg_info_off in
       if seg + 24 > fixups_end then Ok c
       else
         res_bind (read_chained_starts (mem c) seg) (\<lambda>s.
         res_bind (for_upto 0 (min 8 (unat (css_page_count s)))
                    (\<lambda>page _. res_bind (load16 (mem c) (seg + 22 + of_nat (2 * page))) (\<lambda>_. Ok ())) ())
           (\<lambda>_.
         res_bind
           (if css_pointer_format s = MAL_DYLD_CHAINED_PTR_64_OFFSET
            then dump_chained_64_offset_entries h c fixups_base hdr i seg
            else Ok c) (\<lambda>c'.
         res_bind (load16 (mem c') (seg + 20)) (\<lambda>_. Ok c')))))"

definition dump_chained_fixups ::
  "host \<Rightarrow> mach_context \<Rightarrow> u32 \<Rightarrow> u32 \<Rightarrow> mach_context res" where
  "dump_chained_fixups h c off sz =
     (let fixups_base = memblock c + ucast off;
          fixups_end = fixups_base + ucast sz;
          c = c\<lparr>chained_rebase_count := 0, chained_bind_count := 0\<rparr>
      in
      if sz < 28 then Ok c
      else
        res_bind (read_chained_fixups_header (mem c) fixups_base) (\<lambda>hdr.
        if starts_offset hdr \<ge> sz then Ok c
        else
          let starts = fixups_base + ucast (starts_offset hdr) in
          if starts + 4 > fixups_end then Ok c
          else
            res_bind (load32 (mem c) starts) (\<lambda>_.
            for_below 0 (2 ^ 32)
              (\<lambda>c. res_bind (load32 (mem c) starts) (\<lambda>n. Ok (unat n)))
              (segment_fixups h fixups_base fixups_end fixups_base starts) c)))"

section \<open>Bit fields\<close>

text \<open>
  The two layouts of a \<open>DYLD_CHAINED_PTR_64_OFFSET\<close> entry, from the least significant bit:
  a rebase has 36 bits of target, 8 high bits, 7 reserved, 12 of \<open>next\<close>; a bind 24 bits of
  ordinal, 8 of addend, 19 reserved, 12 of \<open>next\<close>, and the top bit set.
\<close>

datatype chained_ptr =
    Rebase_Ptr "36 word" "8 word" "12 word"
  | Bind_Ptr "24 word" "8 word" "12 word"

fun enc_ptr :: "chained_ptr \<Rightarrow> u64" where
  "enc_ptr (Rebase_Ptr t high8 n) =
     ucast t OR push_bit 36 (ucast high8) OR push_bit 51 (ucast n)"
| "enc_ptr (Bind_Ptr ordinal addend n) =
     ucast ordinal OR push_bit 24 (ucast addend) OR push_bit 51 (ucast n) OR push_bit 63 1"

lemma field_masks:
  "(0xFFFFFF :: u64) = mask 24" "(0xFF :: u64) = mask 8" "(0xFFFFFFFFF :: u64) = mask 36"
  "(0xFFF :: u64) = mask 12" "(1 :: u64) = mask 1"
  by (simp_all add: mask_eq_exp_minus_1)

lemma is_bind_bit: "chained64_is_bind raw \<longleftrightarrow> bit raw 63"
proof -
  have "drop_bit 63 raw AND 1 = of_bool (bit raw 63)"
    by (rule bit_word_eqI) (auto simp: bit_simps)
  then show ?thesis by (simp add: chained64_is_bind_def)
qed

lemma take_fields:
  "take_bit 36 (enc_ptr (Rebase_Ptr t high8 n)) = ucast t"
  "take_bit 24 (enc_ptr (Bind_Ptr ordinal addend n)) = ucast ordinal"
  "take_bit 8 (drop_bit 24 (enc_ptr (Bind_Ptr ordinal addend n))) = ucast addend"
  by (rule bit_word_eqI; auto simp: bit_simps dest: bit_imp_le_length)+

lemma take_next: "take_bit 12 (drop_bit 51 (enc_ptr x)) =
    ucast (case x of Rebase_Ptr _ _ n \<Rightarrow> n | Bind_Ptr _ _ n \<Rightarrow> n)"
  by (cases x; rule bit_word_eqI; auto simp: bit_simps dest: bit_imp_le_length)

text \<open>C28: round trip. On the bits of any entry the accessors give back its fields: the kind,
  the distance to the next entry, the rebase target, the import ordinal. The addend comes
  back as a signed byte, so an addend of 128 or more is read as a negative number.\<close>

theorem chained64_fields:
  "chained64_is_bind (enc_ptr x) = (case x of Rebase_Ptr _ _ _ \<Rightarrow> False | Bind_Ptr _ _ _ \<Rightarrow> True) \<and>
   chained64_next (enc_ptr x) = ucast (case x of Rebase_Ptr _ _ n \<Rightarrow> n | Bind_Ptr _ _ n \<Rightarrow> n) \<and>
   (case x of
      Rebase_Ptr t _ _ \<Rightarrow> chained64_rebase_target (enc_ptr x) = ucast t
    | Bind_Ptr ordinal addend _ \<Rightarrow>
        chained64_bind_ordinal (enc_ptr x) = ucast ordinal \<and>
        chained64_bind_addend (enc_ptr x) = sint addend \<and>
        (chained64_bind_addend (enc_ptr x) < 0 \<longleftrightarrow> 128 \<le> addend))"
proof -
  have neg: "sint a < 0 \<longleftrightarrow> 128 \<le> a" for a :: "8 word"
  proof -
    have "unat a < 256" using unsigned_less [of a, where ?'a = nat] by simp
    then have "unat a div 128 = (if 128 \<le> unat a then 1 else 0)"
      by (auto simp: le_div_geq div_less)
    then have "odd (unat a div 2 ^ 7) \<longleftrightarrow> 128 \<le> unat a" by simp
    moreover have "bit (unat a) 7 \<longleftrightarrow> bit a 7" by (simp add: bit_unsigned_iff bit_imp_le_length)
    ultimately have "bit a 7 \<longleftrightarrow> 128 \<le> a" by (simp add: word_le_nat_alt bit_iff_odd [of "unat a"])
    then show ?thesis using bit_last_iff [of a] by simp
  qed
  have "chained64_next (enc_ptr x) = ucast (case x of Rebase_Ptr _ _ n \<Rightarrow> n | Bind_Ptr _ _ n \<Rightarrow> n)"
    unfolding chained64_next_def field_masks take_bit_eq_mask [symmetric] take_next
    by (cases x) (rule bit_word_eqI; auto simp: bit_simps)+
  moreover have "chained64_is_bind (enc_ptr x) =
      (case x of Rebase_Ptr _ _ _ \<Rightarrow> False | Bind_Ptr _ _ _ \<Rightarrow> True)"
    by (cases x) (auto simp: is_bind_bit bit_simps dest: bit_imp_le_length)
  moreover have "case x of
      Rebase_Ptr t _ _ \<Rightarrow> chained64_rebase_target (enc_ptr x) = ucast t
    | Bind_Ptr ordinal addend _ \<Rightarrow>
        chained64_bind_ordinal (enc_ptr x) = ucast ordinal \<and>
        chained64_bind_addend (enc_ptr x) = sint addend"
  proof (cases x)
    case (Rebase_Ptr t high8 n)
    then show ?thesis
      unfolding chained64_rebase_target_def field_masks take_bit_eq_mask [symmetric]
      by (simp only: take_fields chained_ptr.case)
  next
    case (Bind_Ptr ordinal addend n)
    have "(ucast (ucast ordinal :: u64) :: u32) = ucast ordinal" "(ucast (ucast addend :: u64) :: 8 word) = addend"
      by (rule bit_word_eqI; auto simp: bit_simps)+
    then show ?thesis
      unfolding Bind_Ptr chained64_bind_ordinal_def chained64_bind_addend_def field_masks
        take_bit_eq_mask [symmetric]
      by (simp only: take_fields chained_ptr.case simp_thms)
  qed
  ultimately show ?thesis using neg by (cases x) simp_all
qed

section \<open>Frames\<close>

text \<open>What fixups may change: the bytes of the image, the cached handles and the counters.\<close>

definition only_fixups :: "mach_context \<Rightarrow> mach_context \<Rightarrow> bool" where
  "only_fixups c c' \<longleftrightarrow>
     dom (mem c') = dom (mem c) \<and> img_addr c' = img_addr c \<and> v_addr c' = v_addr c \<and>
     memblock c' = memblock c \<and> ptr c' = ptr c \<and> entry_point c' = entry_point c \<and>
     b_list c' = b_list c \<and> d_list c' = d_list c \<and> segments c' = segments c \<and>
     n_segment_info c' = n_segment_info c \<and> argc c' = argc c \<and> argv c' = argv c \<and>
     bit_width c' = bit_width c"

lemma only_fixups_refl [simp]: "only_fixups c c"
  by (simp add: only_fixups_def)

lemma only_fixups_trans: "only_fixups c d \<Longrightarrow> only_fixups d e \<Longrightarrow> only_fixups c e"
  by (simp add: only_fixups_def)

lemma only_fixups_extends: "only_fixups c d \<Longrightarrow> extends c d"
  by (simp add: only_fixups_def extends_def ctx_ok_def)

lemma only_fixups_counters [simp]:
  "only_fixups c (c\<lparr>chained_rebase_count := n, chained_bind_count := k\<rparr>)"
  "only_fixups c (c\<lparr>chained_bind_count := n, chained_unresolved_bind_count := k\<rparr>)"
  by (simp_all add: only_fixups_def)

lemma only_handles_fixups: "only_handles c c' \<Longrightarrow> only_fixups (c :: mach_context) c'"
  by (auto simp: only_handles_def only_fixups_def)

lemma apply_chained_bind_frame:
  assumes "apply_chained_bind h c loc p addend = Ok (r, c')"
  shows "only_fixups c c' \<and> (\<forall>a. a \<notin> region loc 8 \<longrightarrow> mem c' a = mem c a)"
proof -
  obtain a c1 where res: "resolve_macho_import_symbol h p c = Ok (a, c1)"
    using assms by (auto simp: apply_chained_bind_def res_bind_eq_Ok)
  note frame = only_handles_fixups [OF resolve_ok_handles [OF res]]
    only_handles_mem [OF resolve_ok_handles [OF res]]
  show ?thesis
  proof (cases "a = 0")
    case True
    then show ?thesis using assms res frame
      by (auto simp: apply_chained_bind_def Let_def only_fixups_def)
  next
    case False
    then obtain m where "store64 (mem c1) loc (a + addend) = Ok m"
      and c': "c' = c1\<lparr>chained_bind_count := chained_bind_count c1 + 1, mem := m\<rparr>"
      using assms res by (auto simp: apply_chained_bind_def Let_def res_bind_eq_Ok)
    then have "dom m = dom (mem c1)" "\<And>a. a \<notin> region loc 8 \<Longrightarrow> m a = mem c1 a"
      by (simp_all add: store64_dom store64_other)
    then show ?thesis using frame by (simp add: c' only_fixups_def)
  qed
qed

lemma fixup_entry_frame:
  assumes "fixup_entry h b hdr loc raw c = Ok c'"
  shows "only_fixups c c'" and "\<And>a. a \<notin> region loc 8 \<Longrightarrow> mem c' a = mem c a"
proof -
  have "only_fixups c c' \<and> (\<forall>a. a \<notin> region loc 8 \<longrightarrow> mem c' a = mem c a)"
  proof (cases "chained64_is_bind raw")
    case True
    then show ?thesis using assms
      by (auto simp: fixup_entry_def Let_def res_bind_eq_Ok split: if_splits
          dest: apply_chained_bind_frame)
  next
    case False
    then obtain m where m: "store64 (mem c) loc (img_addr c + chained64_rebase_target raw) = Ok m"
      and "c' = c\<lparr>mem := m, chained_rebase_count := chained_rebase_count c + 1\<rparr>"
      using assms by (auto simp: fixup_entry_def apply_chained_64_offset_rebase_def Let_def res_bind_eq_Ok)
    then show ?thesis using store64_dom [OF m] store64_other [OF m] by (simp add: only_fixups_def)
  qed
  then show "only_fixups c c'" "\<And>a. a \<notin> region loc 8 \<Longrightarrow> mem c' a = mem c a" by blast+
qed

section \<open>Walking a chain\<close>

text \<open>
  A chain in memory: its entries with their raw values, from the first location to the entry
  whose \<open>next\<close> is 0. Entries do not overlap (\<open>next\<close> counts four bytes, so it is at least 2)
  and the chain does not wrap around the address space.
\<close>

inductive chain :: "memory \<Rightarrow> addr \<Rightarrow> (addr \<times> u64) list \<Rightarrow> bool" for m where
  chain_last:
    "load64 m loc = Ok raw \<Longrightarrow> chained64_next raw = 0 \<Longrightarrow> chain m loc [(loc, raw)]"
| chain_link:
    "load64 m loc = Ok raw \<Longrightarrow> 2 \<le> unat (chained64_next raw) \<Longrightarrow>
     unat loc + 4 * unat (chained64_next raw) < 2 ^ 64 \<Longrightarrow>
     chain m (loc + ucast (chained64_next raw) * 4) es \<Longrightarrow> chain m loc ((loc, raw) # es)"

inductive_cases chain_NilE: "chain m loc []"
inductive_cases chain_ConsE: "chain m loc (e # es)"
inductive_simps chain_single: "chain m loc [e]"

lemma chain_next_pos:
  fixes loc :: addr
  assumes "unat loc + 4 * unat (chained64_next raw) < 2 ^ 64"
  shows "unat (loc + ucast (chained64_next raw) * 4) = unat loc + 4 * unat (chained64_next raw)"
proof -
  have "loc + ucast (chained64_next raw) * 4 = loc + of_nat (4 * unat (chained64_next raw))"
    by (simp add: mult.commute)
  then show ?thesis using assms unat_add_of_nat [of loc "4 * unat (chained64_next raw)"]
    by (simp add: mult.commute)
qed

lemma chain_entries:
  "chain m loc es \<Longrightarrow> (l, raw) \<in> set es \<Longrightarrow> unat loc \<le> unat l \<and> load64 m l = Ok raw"
proof (induction loc es rule: chain.induct)
  case (chain_link loc raw' es)
  then show ?case using chain_next_pos [of loc raw'] by fastforce
qed auto

lemma chain_cong:
  assumes "chain m loc es" and "\<And>a. unat loc \<le> unat a \<Longrightarrow> m' a = m a"
  shows "chain m' loc es"
  using assms
proof (induction loc es rule: chain.induct)
  case (chain_last loc raw)
  have "load64 m' loc = Ok raw"
    by (rule c64.dec_unchanged [OF chain_last(1)]) (auto simp: region_def chain_last(3))
  then show ?case using chain_last(2) by (rule chain.chain_last)
next
  case (chain_link loc raw es)
  have "load64 m' loc = Ok raw"
    by (rule c64.dec_unchanged [OF chain_link(1)]) (auto simp: region_def chain_link(6))
  moreover have "chain m' (loc + ucast (chained64_next raw) * 4) es"
    using chain_link chain_next_pos [of loc raw] by simp
  ultimately show ?case using chain_link(2,3) by (intro chain.chain_link)
qed

definition spaced :: "(addr \<times> u64) list \<Rightarrow> bool" where
  "spaced es \<longleftrightarrow> sorted_wrt (\<lambda>e e'. unat (fst e) + 8 \<le> unat (fst e')) es"

lemma chain_spaced: "chain m loc es \<Longrightarrow> spaced es"
proof (induction loc es rule: chain.induct)
  case (chain_link loc raw es)
  have "unat loc + 8 \<le> unat l" if "(l, r) \<in> set es" for l r
    using chain_entries [OF chain_link(4) that] chain_next_pos [of loc raw] chain_link(2,3) by simp
  then show ?case using chain_link by (auto simp: spaced_def)
qed (simp add: spaced_def)

lemma chain_walk_fold:
  "chain (mem c) loc es \<Longrightarrow>
   chain_walk n h b hdr loc c = res_fold (\<lambda>(l, raw). fixup_entry h b hdr l raw) (take n es) c"
proof (induction n arbitrary: loc es c)
  case 0
  then show ?case by simp
next
  case (Suc n)
  from Suc.prems show ?case
  proof (cases rule: chain.cases)
    case (chain_last raw)
    then show ?thesis by simp
  next
    case (chain_link raw es')
    let ?next = "loc + ucast (chained64_next raw) * 4"
    have "chained64_next raw \<noteq> 0" using chain_link(3) by auto
    moreover have "chain_walk n h b hdr ?next c' =
        res_fold (\<lambda>(l, raw). fixup_entry h b hdr l raw) (take n es') c'"
      if run: "fixup_entry h b hdr loc raw c = Ok c'" for c'
    proof (rule Suc.IH)
      have "mem c' a = mem c a" if "unat ?next \<le> unat a" for a
        using that chain_next_pos [OF chain_link(4)] chain_link(3)
        by (intro fixup_entry_frame(2) [OF run]) (simp add: region_def)
      then show "chain (mem c') ?next es'" by (rule chain_cong [OF chain_link(5)])
    qed
    ultimately show ?thesis using chain_link(1,2) by (simp cong: res_bind_cong)
  qed
qed

text \<open>C24: refinement. On a chain the walk is the list of its entries, each with the raw value
  it had before the walk, applied in order and cut after the given number of iterations
  (512 in the loader): the same final state, or the same fault.\<close>

theorem chain_walk_refines:
  "chain (mem c) loc es \<Longrightarrow>
   chain_walk n h b hdr loc c = res_fold (\<lambda>(l, raw). fixup_entry h b hdr l raw) (take n es) c"
  by (rule chain_walk_fold)

lemma apply_chained_bind_counts:
  assumes "apply_chained_bind h c loc p addend = Ok (r, c')"
  shows "chained_rebase_count c' = chained_rebase_count c \<and>
    chained_bind_count c' = chained_bind_count c + 1"
proof -
  obtain a c1 where res: "resolve_macho_import_symbol h p c = Ok (a, c1)"
    using assms by (auto simp: apply_chained_bind_def res_bind_eq_Ok)
  then show ?thesis
    using assms only_handles_context [OF resolve_ok_handles [OF res]]
    by (auto simp: apply_chained_bind_def Let_def res_bind_eq_Ok split: if_splits)
qed

lemma fixup_entry_counts:
  assumes "fixup_entry h b hdr loc raw c = Ok c'"
  shows "chained_rebase_count c' = chained_rebase_count c + (if chained64_is_bind raw then 0 else 1) \<and>
    chained_bind_count c' = chained_bind_count c + (if chained64_is_bind raw then 1 else 0)"
  using assms
  by (auto simp: fixup_entry_def apply_chained_64_offset_rebase_def Let_def res_bind_eq_Ok
      split: if_splits dest: apply_chained_bind_counts)

lemma fixup_entry_rebase:
  assumes "fixup_entry h b hdr loc raw c = Ok c'" and "\<not> chained64_is_bind raw"
  shows "load64 (mem c') loc = Ok (img_addr c + chained64_rebase_target raw)"
  using assms by (auto simp: fixup_entry_def apply_chained_64_offset_rebase_def Let_def res_bind_eq_Ok
      intro: store64_load64)

text \<open>The entries of a list of fixups, spaced out, do not disturb each other.\<close>

definition fixups_done :: "(addr \<times> u64) list \<Rightarrow> mach_context \<Rightarrow> mach_context \<Rightarrow> bool" where
  "fixups_done es c c' \<longleftrightarrow>
     only_fixups c c' \<and>
     chained_rebase_count c' = chained_rebase_count c +
       of_nat (length (filter (\<lambda>(_, raw). \<not> chained64_is_bind raw) es)) \<and>
     chained_bind_count c' = chained_bind_count c +
       of_nat (length (filter (\<lambda>(_, raw). chained64_is_bind raw) es)) \<and>
     (\<forall>(l, raw) \<in> set es. chained64_is_bind raw \<or>
        load64 (mem c') l = Ok (img_addr c + chained64_rebase_target raw)) \<and>
     (\<forall>a. (\<forall>(l, raw) \<in> set es. a \<notin> region l 8) \<longrightarrow> mem c' a = mem c a)"

lemma fixups_fold:
  assumes "res_fold (\<lambda>(l, raw). fixup_entry h b hdr l raw) es c = Ok c'" and "spaced es"
  shows "fixups_done es c c'"
  using assms
proof (induction es arbitrary: c)
  case Nil
  then show ?case by (simp add: fixups_done_def)
next
  case (Cons e es)
  obtain l raw where e: "e = (l, raw)" by (cases e)
  then obtain d where d: "fixup_entry h b hdr l raw c = Ok d"
    and rest: "res_fold (\<lambda>(l, raw). fixup_entry h b hdr l raw) es d = Ok c'"
    using Cons.prems(1) by auto
  have apart: "unat l + 8 \<le> unat (fst e')" if "e' \<in> set es" for e'
    using Cons.prems(2) that e by (auto simp: spaced_def)
  have IH: "fixups_done es d c'"
    using Cons.prems(2) by (intro Cons.IH rest) (simp add: spaced_def)
  have img: "img_addr d = img_addr c" using fixup_entry_frame(1) [OF d] by (simp add: only_fixups_def)
  have "load64 (mem c') l = Ok (img_addr c + chained64_rebase_target raw)"
    if "\<not> chained64_is_bind raw"
  proof (rule c64.dec_unchanged [OF fixup_entry_rebase [OF d that]])
    fix a assume "a \<in> region l (length (word_bytes 8 (img_addr c + chained64_rebase_target raw)))"
    then have "\<forall>(l', raw') \<in> set es. a \<notin> region l' 8" using apart by (fastforce simp: region_def)
    then show "mem c' a = mem d a" using IH by (simp add: fixups_done_def)
  qed
  moreover have "mem c' a = mem c a" if "\<forall>(l', raw) \<in> set (e # es). a \<notin> region l' 8" for a
    using that IH fixup_entry_frame(2) [OF d] e by (auto simp: fixups_done_def)
  moreover have "only_fixups c c'"
    using fixup_entry_frame(1) [OF d] IH by (auto simp: fixups_done_def intro: only_fixups_trans)
  ultimately show ?case
    using IH img fixup_entry_counts [OF d] e by (auto simp: fixups_done_def)
qed

text \<open>C17: functional. When the walk over a chain of at most 512 entries returns, every rebase
  entry holds the image address plus its 36-bit target, whatever binds lie between them, each
  entry was counted once under its kind, and no byte outside the entries changed.\<close>

theorem chain_walk_values:
  assumes "chain (mem c) loc es" and "length es \<le> CHAIN_LIMIT"
    and "chain_walk CHAIN_LIMIT h b hdr loc c = Ok c'"
  shows "fixups_done es c c'"
  using assms chain_spaced [OF assms(1)] fixups_fold [of h b hdr es c c']
  by (simp add: chain_walk_fold)

text \<open>C30: bounds. A chain longer than 512 entries is processed silently only up to its 512th
  entry: when the walk returns, every later location still holds its raw chain value.\<close>

theorem chain_walk_limit:
  assumes "chain (mem c) loc es" and "chain_walk CHAIN_LIMIT h b hdr loc c = Ok c'"
    and "CHAIN_LIMIT \<le> i" and "i < length es"
  shows "load64 (mem c') (fst (es ! i)) = Ok (snd (es ! i))"
proof -
  have sp: "spaced es" by (rule chain_spaced [OF assms(1)])
  then have "spaced (take CHAIN_LIMIT es)" by (simp add: spaced_def sorted_wrt_take)
  then have "fixups_done (take CHAIN_LIMIT es) c c'"
    using assms(1,2) by (intro fixups_fold) (simp add: chain_walk_fold)
  moreover have "a \<notin> region l 8"
    if e: "(l, raw) \<in> set (take CHAIN_LIMIT es)" and a: "a \<in> region (fst (es ! i)) 8" for l raw a
  proof -
    obtain j where "j < length (take CHAIN_LIMIT es)" "take CHAIN_LIMIT es ! j = (l, raw)"
      using e unfolding in_set_conv_nth by blast
    then have "j < CHAIN_LIMIT" "j < length es" "es ! j = (l, raw)" by simp_all
    then have "unat l + 8 \<le> unat (fst (es ! i))"
      using sorted_wrt_nth_less [OF sp [unfolded spaced_def], of j i] assms(3,4) by simp
    then show ?thesis using a by (auto simp: region_def)
  qed
  ultimately have same: "mem c' a = mem c a" if "a \<in> region (fst (es ! i)) 8" for a
    using that by (fastforce simp: fixups_done_def)
  have "load64 (mem c) (fst (es ! i)) = Ok (snd (es ! i))"
    using chain_entries [OF assms(1)] assms(4) by (metis nth_mem prod.collapse)
  then show ?thesis by (rule c64.dec_unchanged) (simp add: same)
qed

section \<open>Pages and segments\<close>

lemma chain_walk_frame: "chain_walk n h b hdr loc c = Ok c' \<Longrightarrow> only_fixups c c'"
  by (induction n arbitrary: loc c)
    (auto simp: res_bind_eq_Ok Let_def split: if_splits
      intro: only_fixups_trans dest: fixup_entry_frame(1))

lemma page_fixups_frame: "page_fixups h b hdr seg page c = Ok c' \<Longrightarrow> only_fixups c c'"
  by (auto simp: page_fixups_def res_bind_eq_Ok Let_def split: if_splits dest: chain_walk_frame)

text \<open>Loops over steps that only apply fixups only apply fixups.\<close>

lemma fixup_loop_frame:
  assumes "for_below i cap bound body c = Ok c'"
    and "\<And>j t t'. body j t = Ok t' \<Longrightarrow> only_fixups t t'"
  shows "only_fixups c c'"
  using assms(1) only_fixups_refl [of c]
  by (rule for_below_rule [where P = "only_fixups c"]) (blast intro: only_fixups_trans assms(2))

lemma dump_chained_64_offset_entries_frame:
  "dump_chained_64_offset_entries h c b hdr i seg = Ok c' \<Longrightarrow> only_fixups c c'"
  by (auto simp: dump_chained_64_offset_entries_def split: if_splits
      intro: fixup_loop_frame page_fixups_frame)

lemma segment_fixups_frame: "segment_fixups h b e hdr starts i c = Ok c' \<Longrightarrow> only_fixups c c'"
  by (auto simp: segment_fixups_def res_bind_eq_Ok Let_def split: if_splits
      dest: dump_chained_64_offset_entries_frame)

lemma dump_chained_fixups_frame: "dump_chained_fixups h c off sz = Ok c' \<Longrightarrow> only_fixups c c'"
  by (auto simp: dump_chained_fixups_def res_bind_eq_Ok Let_def split: if_splits
      intro: only_fixups_trans [OF only_fixups_counters(1)] dest!: fixup_loop_frame
      dest: segment_fixups_frame)

interpretation fixups: invariant_op ctx_ok "segment_fixups h b e hdr starts"
  by unfold_locales (metis segment_fixups_frame only_fixups_extends extends_ok)

text \<open>The offset of a page's first entry in the image, and the chain that starts there.\<close>

definition page_start_offset :: "chained_starts \<Rightarrow> nat \<Rightarrow> u16 \<Rightarrow> u64" where
  "page_start_offset s page start =
     css_segment_offset s + of_nat page * ucast (css_page_size s) + ucast start"

definition page_skipped :: "u16 \<Rightarrow> bool" where
  "page_skipped start \<longleftrightarrow>
     start = MAL_DYLD_CHAINED_PTR_START_NONE \<or> start AND MAL_DYLD_CHAINED_PTR_START_MULTI \<noteq> 0"

definition page_chain :: "memory \<Rightarrow> addr \<Rightarrow> chained_starts \<Rightarrow> nat \<Rightarrow> u16 \<Rightarrow> (addr \<times> u64) list \<Rightarrow> bool" where
  "page_chain m img s page start es \<longleftrightarrow>
     (if page_skipped start then es = [] else chain m (img + page_start_offset s page start) es)"

definition starts_table :: "memory \<Rightarrow> addr \<Rightarrow> chained_starts \<Rightarrow> u16 list \<Rightarrow> bool" where
  "starts_table m seg s ps \<longleftrightarrow>
     holds m seg (enc_chained_starts s @ concat (map (word_bytes 2) ps)) \<and>
     length ps = unat (css_page_count s)"

lemma starts_table_loads:
  assumes "starts_table m seg s ps"
  shows "load16 m (seg + 20) = Ok (css_page_count s)"
    and "load64 m (seg + 8) = Ok (css_segment_offset s)"
    and "load16 m (seg + 4) = Ok (css_page_size s)"
    and "k < length ps \<Longrightarrow> load16 m (seg + 22 + of_nat (2 * k)) = Ok (ps ! k)"
proof -
  have h: "holds m seg (enc_chained_starts s)" and p: "holds m (seg + 22) (concat (map (word_bytes 2) ps))"
    using assms by (simp_all add: starts_table_def holds_append cstarts.width)
  show "load16 m (seg + 20) = Ok (css_page_count s)" "load64 m (seg + 8) = Ok (css_segment_offset s)"
    "load16 m (seg + 4) = Ok (css_page_size s)"
    using h by (simp_all add: enc_chained_starts_def reader_simps)
  show "k < length ps \<Longrightarrow> load16 m (seg + 22 + of_nat (2 * k)) = Ok (ps ! k)"
    using c16.dec_array [of ps m "seg + 22" k] p by simp
qed

lemma chain_entry_frame:
  assumes "chain m loc es" and "\<And>l raw a. (l, raw) \<in> set es \<Longrightarrow> a \<in> region l 8 \<Longrightarrow> m' a = m a"
  shows "chain m' loc es"
  using assms
proof (induction loc es rule: chain.induct)
  case (chain_last loc raw)
  have "load64 m' loc = Ok raw"
    by (rule c64.dec_unchanged [OF chain_last(1)]) (auto intro: chain_last(3))
  then show ?case using chain_last(2) by (rule chain.chain_last)
next
  case (chain_link loc raw es)
  have "load64 m' loc = Ok raw"
    by (rule c64.dec_unchanged [OF chain_link(1)]) (auto intro: chain_link(6))
  moreover have "chain m' (loc + ucast (chained64_next raw) * 4) es"
    using chain_link(5,6) by (meson list.set_intros(2))
  ultimately show ?case using chain_link(2,3) by (intro chain.chain_link)
qed

lemma spaced_nth: "spaced (concat ess) \<Longrightarrow> j < length ess \<Longrightarrow> spaced (ess ! j)"
proof -
  assume sp: "spaced (concat ess)" and j: "j < length ess"
  have "concat ess = concat (take j ess @ ess ! j # drop (Suc j) ess)"
    using id_take_nth_drop [OF j] by simp
  then show "spaced (ess ! j)" using sp by (simp add: spaced_def sorted_wrt_append)
qed

lemma spaced_pages:
  assumes "spaced (concat ess)" and "j < k" and "k < length ess"
    and "e \<in> set (ess ! j)" and "e' \<in> set (ess ! k)"
  shows "unat (fst e) + 8 \<le> unat (fst e')"
proof -
  have "concat ess = concat (take k ess) @ concat (drop k ess)"
    by (metis append_take_drop_id concat_append)
  moreover have "ess ! j \<in> set (take k ess)"
    using assms(2,3) by (auto simp: in_set_conv_nth intro!: exI [of _ j])
  moreover have "ess ! k \<in> set (drop k ess)"
    using assms(3) by (auto simp: in_set_conv_nth intro!: exI [of _ 0])
  ultimately show ?thesis
    using assms(1,4,5) by (auto simp: spaced_def sorted_wrt_append simp del: set_drop_subset)
qed

lemma page_fixups_table:
  assumes "starts_table (mem t) seg s ps" and "j < length ps"
    and "page_chain (mem t) (img_addr t) s j (ps ! j) es"
  shows "page_fixups h b hdr seg j t =
    res_fold (\<lambda>(l, raw). fixup_entry h b hdr l raw) (take CHAIN_LIMIT es) t"
  using starts_table_loads [OF assms(1)] assms(2,3)
  by (auto simp: page_fixups_def page_chain_def page_skipped_def page_start_offset_def Let_def
      chain_walk_fold split: if_splits)

definition table_apart :: "addr \<Rightarrow> u16 list \<Rightarrow> (addr \<times> u64) list \<Rightarrow> bool" where
  "table_apart seg ps es \<longleftrightarrow> (\<forall>(l, raw) \<in> set es. apart l 8 seg (22 + 2 * length ps))"

lemma starts_table_frame:
  assumes "starts_table m seg s ps"
    and "\<And>a. a \<in> region seg (22 + 2 * length ps) \<Longrightarrow> m' a = m a"
  shows "starts_table m' seg s ps"
proof -
  have "length (enc_chained_starts s @ concat (map (word_bytes 2) ps)) = 22 + 2 * length ps"
    by (simp add: cstarts.width c16.length_concat_enc)
  then show ?thesis using assms holds_cong [of m seg _ m'] unfolding starts_table_def by metis
qed

text \<open>Between two pages: the table is as it was, and so are the chains of the pages to come.\<close>

definition pages_ready ::
  "memory \<Rightarrow> addr \<Rightarrow> addr \<Rightarrow> chained_starts \<Rightarrow> u16 list \<Rightarrow> (addr \<times> u64) list list \<Rightarrow> nat \<Rightarrow> bool" where
  "pages_ready m img seg s ps ess j \<longleftrightarrow> starts_table m seg s ps \<and>
     (\<forall>k. j \<le> k \<longrightarrow> k < length ps \<longrightarrow> page_chain m img s k (ps ! k) (ess ! k))"

lemma page_chain_frame:
  assumes "page_chain m img s k p es"
    and "\<And>l raw a. (l, raw) \<in> set es \<Longrightarrow> a \<in> region l 8 \<Longrightarrow> m' a = m a"
  shows "page_chain m' img s k p es"
  using assms chain_entry_frame by (auto simp: page_chain_def split: if_splits)

lemma pages_ready_step:
  assumes ready: "pages_ready m img seg s ps ess j" and j: "j < length ps" and len: "length ess = length ps"
    and sp: "spaced (concat ess)" and ap: "table_apart seg ps (concat ess)"
    and same: "\<And>a. \<forall>(l, raw) \<in> set (take CHAIN_LIMIT (ess ! j)). a \<notin> region l 8 \<Longrightarrow> m' a = m a"
  shows "pages_ready m' img seg s ps ess (Suc j)"
proof -
  have other: "m' a = m a" if "\<And>l raw. (l, raw) \<in> set (ess ! j) \<Longrightarrow> a \<notin> region l 8" for a
    using that by (intro same) (auto dest: in_set_takeD)
  have in_page: "e \<in> set (concat ess)" if "e \<in> set (ess ! j)" for e
    using that j len by auto
  have "starts_table m' seg s ps"
  proof (rule starts_table_frame)
    show "starts_table m seg s ps" using ready by (simp add: pages_ready_def)
    fix a assume a: "a \<in> region seg (22 + 2 * length ps)"
    show "m' a = m a" using ap in_page a by (intro other) (fastforce simp: table_apart_def apart_def region_def)
  qed
  moreover have "page_chain m' img s k (ps ! k) (ess ! k)" if k: "Suc j \<le> k" "k < length ps" for k
  proof (rule page_chain_frame)
    show "page_chain m img s k (ps ! k) (ess ! k)" using ready k by (simp add: pages_ready_def)
    fix l raw a assume a: "(l, raw) \<in> set (ess ! k)" "a \<in> region l 8"
    show "m' a = m a"
    proof (rule other)
      fix l' raw' assume "(l', raw') \<in> set (ess ! j)"
      then have "unat l' + 8 \<le> unat l"
        using spaced_pages [OF sp, of j k "(l', raw')" "(l, raw)"] a(1) k len by simp
      then show "a \<notin> region l' 8" using a(2) by (simp add: region_def)
    qed
  qed
  ultimately show ?thesis by (simp add: pages_ready_def)
qed

lemma pages_run:
  assumes ready: "pages_ready (mem c) (img_addr c) seg s ps ess 0" and len: "length ess = length ps"
    and loaded: "i < n_segment_info c" "mapped_addr (segments c ! i) \<noteq> 0"
    and sp: "spaced (concat ess)" and ap: "table_apart seg ps (concat ess)"
  shows "dump_chained_64_offset_entries h c b hdr i seg =
    res_fold (\<lambda>(l, raw). fixup_entry h b hdr l raw) (concat (map (take CHAIN_LIMIT) ess)) c"
proof -
  let ?f = "\<lambda>(l, raw). fixup_entry h b hdr l raw"
  let ?n = "length ps"
  define P where "P j t \<longleftrightarrow> only_fixups c t \<and> pages_ready (mem t) (img_addr c) seg s ps ess j" for j t
  have n: "?n = unat (css_page_count s)" using ready by (simp add: pages_ready_def starts_table_def)
  then have cap: "?n < 2 ^ 16" using unsigned_less [of "css_page_count s", where ?'a = nat] by simp
  have step: "page_fixups h b hdr seg j t = res_fold ?f (take CHAIN_LIMIT (ess ! j)) t \<and>
      (\<forall>t'. res_fold ?f (take CHAIN_LIMIT (ess ! j)) t = Ok t' \<longrightarrow> P (Suc j) t')"
    if j: "j < ?n" and P: "P j t" for j t
  proof (intro conjI allI impI)
    have img: "img_addr t = img_addr c" using P by (simp add: P_def only_fixups_def)
    show "page_fixups h b hdr seg j t = res_fold ?f (take CHAIN_LIMIT (ess ! j)) t"
      using P j img by (intro page_fixups_table) (auto simp: P_def pages_ready_def)
  next
    fix t' assume run: "res_fold ?f (take CHAIN_LIMIT (ess ! j)) t = Ok t'"
    have "spaced (take CHAIN_LIMIT (ess ! j))"
      using spaced_nth [OF sp] j len by (simp add: spaced_def sorted_wrt_take)
    then have fx: "fixups_done (take CHAIN_LIMIT (ess ! j)) t t'" by (rule fixups_fold [OF run])
    have "pages_ready (mem t') (img_addr c) seg s ps ess (Suc j)"
      using P fx by (intro pages_ready_step [OF _ j len sp ap]) (auto simp: P_def fixups_done_def)
    then show "P (Suc j) t'" using fx P only_fixups_trans by (auto simp: P_def fixups_done_def)
  qed
  have "for_below 0 (2 ^ 16) (\<lambda>c. res_bind (load16 (mem c) (seg + 20)) (\<lambda>n. Ok (unat n)))
      (page_fixups h b hdr seg) c = res_fold (\<lambda>j. res_fold ?f (take CHAIN_LIMIT (ess ! j))) [0..<?n] c"
  proof (rule for_below_fold [where P = P])
    show "P 0 c" using ready by (simp add: P_def)
    show "res_bind (load16 (mem t) (seg + 20)) (\<lambda>n. Ok (unat n)) = Ok ?n" if "P j t" for j t
      using that starts_table_loads(1) [of "mem t" seg s ps] n by (simp add: P_def pages_ready_def)
  qed (use cap step in auto)
  also have "\<dots> = res_fold ?f (concat (map (take CHAIN_LIMIT) ess)) c"
  proof -
    have "map (\<lambda>j. take CHAIN_LIMIT (ess ! j)) [0..<?n] = map (take CHAIN_LIMIT) ess"
      by (rule nth_equalityI) (simp_all add: len)
    then show ?thesis by (simp only: res_fold_concat)
  qed
  finally show ?thesis using loaded by (simp add: dump_chained_64_offset_entries_def)
qed

text \<open>C11: refinement. Given the table of page starts of a loaded segment, with the chains of
  its pages in ascending order and outside the table, the function applies exactly the entries
  of the page chains, page after page (pages marked \<open>NONE\<close> or \<open>MULTI\<close> skipped, 512 entries
  per page at most), each entry with its original raw value.\<close>

theorem dump_chained_64_offset_entries_refines:
  assumes table: "starts_table (mem c) seg s ps" and len: "length ess = length ps"
    and loaded: "i < n_segment_info c" "mapped_addr (segments c ! i) \<noteq> 0"
    and chains: "\<And>k. k < length ps \<Longrightarrow> page_chain (mem c) (img_addr c) s k (ps ! k) (ess ! k)"
    and sp: "spaced (concat ess)" and ap: "table_apart seg ps (concat ess)"
  shows "dump_chained_64_offset_entries h c b hdr i seg =
    res_fold (\<lambda>(l, raw). fixup_entry h b hdr l raw) (concat (map (take CHAIN_LIMIT) ess)) c"
proof (rule pages_run [OF _ len loaded sp ap])
  show "pages_ready (mem c) (img_addr c) seg s ps ess 0"
    unfolding pages_ready_def using table chains by blast
qed

section \<open>Imports and guards\<close>

lemma import_name_run:
  fixes ws :: "u32 list"
  assumes hdr: "read_chained_fixups_header m b = Ok hdr0"
    and names: "holds m (b + ucast (imports_offset hdr0)) (concat (map (word_bytes 4) ws))"
    and len: "length ws = unat (imports_count hdr0)"
  shows "chained_import_name m b b ordinal =
    Ok (if unat ordinal < length ws
        then b + ucast (symbols_offset hdr0) + ucast (drop_bit 9 (ws ! unat ordinal))
        else 0)"
proof -
  have h: "load32 m (b + 16) = Ok (imports_count hdr0)" "load32 m (b + 8) = Ok (imports_offset hdr0)"
    "load32 m (b + 12) = Ok (symbols_offset hdr0)"
    using hdr by (simp_all add: chdr.dec_iff enc_chained_fixups_header_def reader_simps)
  have "load32 m (b + ucast (imports_offset hdr0) + ucast ordinal * 4) = Ok (ws ! unat ordinal)"
    if "unat ordinal < length ws"
    using c32.dec_array [of ws m "b + ucast (imports_offset hdr0)" "unat ordinal"] names that
    by (simp add: mult.commute)
  then show ?thesis using h len
    by (auto simp: chained_import_name_def import_name_offset_def word_le_nat_alt not_le)
qed

text \<open>With the import table of the header in memory, an ordinal inside the table
  gives the address of that import's name (its 23-bit offset into the symbol strings) and
  any other ordinal gives \<open>NULL\<close>, without reading the table.\<close>

theorem chained_import_name_table:
  fixes ws :: "u32 list"
  assumes hdr: "read_chained_fixups_header m b = Ok hdr0"
    and names: "holds m (b + ucast (imports_offset hdr0)) (concat (map (word_bytes 4) ws))"
    and len: "length ws = unat (imports_count hdr0)"
  shows "chained_import_name m b b ordinal =
    Ok (if unat ordinal < length ws
        then b + ucast (symbols_offset hdr0) + ucast (drop_bit 9 (ws ! unat ordinal))
        else 0)"
  using assms by (rule import_name_run)

text \<open>A fixup blob that is too small for its header, or whose starts table lies
  outside it, is skipped: the two counters are reset and nothing else happens.\<close>

theorem dump_chained_fixups_rejects:
  assumes "sz < 28 \<or>
    (read_chained_fixups_header (mem c) (memblock c + ucast off) = Ok hdr0 \<and>
     (sz \<le> starts_offset hdr0 \<or>
      memblock c + ucast off + ucast sz < memblock c + ucast off + ucast (starts_offset hdr0) + 4))"
  shows "dump_chained_fixups h c off sz =
    Ok (c\<lparr>chained_rebase_count := 0, chained_bind_count := 0\<rparr>)"
  using assms by (auto simp: dump_chained_fixups_def Let_def)

text \<open>Segments in any other pointer format are printed and left alone.\<close>

lemma segment_fixups_other_format:
  assumes "segment_fixups h b e hdr starts i c = Ok c'" and "load32 (mem c) (starts + 4 + of_nat (4 * i)) = Ok off"
    and "read_chained_starts (mem c) (starts + ucast off) = Ok s"
    and "css_pointer_format s \<noteq> MAL_DYLD_CHAINED_PTR_64_OFFSET"
  shows "c' = c"
  using assms by (auto simp: segment_fixups_def Let_def res_bind_eq_Ok split: if_splits)

section \<open>Rebase-only chains\<close>

text \<open>A chain without binds needs nothing from the host and never faults.\<close>

definition only_rebases :: "(addr \<times> u64) list \<Rightarrow> bool" where
  "only_rebases es \<longleftrightarrow> list_all (\<lambda>(l, raw). \<not> chained64_is_bind raw) es"

lemma rebases_total:
  "only_rebases es \<Longrightarrow> \<forall>(l, raw) \<in> set es. mapped (mem c) l 8 \<Longrightarrow>
   \<exists>c'. res_fold (\<lambda>(l, raw). fixup_entry h b hdr l raw) es c = Ok c'"
proof (induction es arbitrary: c)
  case Nil
  then show ?case by simp
next
  case (Cons e es)
  obtain l raw where e: "e = (l, raw)" by (cases e)
  have "mapped (mem c) l 8" and nb: "\<not> chained64_is_bind raw" using Cons.prems e by (auto simp: only_rebases_def)
  then obtain m where m: "store64 (mem c) l (img_addr c + chained64_rebase_target raw) = Ok m"
    using store64_total [of "mem c" l "img_addr c + chained64_rebase_target raw"] by (auto simp: is_ok_iff)
  let ?d = "c\<lparr>mem := m, chained_rebase_count := chained_rebase_count c + 1\<rparr>"
  have "fixup_entry h b hdr l raw c = Ok ?d"
    using m nb by (simp add: fixup_entry_def apply_chained_64_offset_rebase_def Let_def)
  moreover have "\<forall>(l, raw) \<in> set es. mapped (mem ?d) l 8"
    using Cons.prems(2) store64_mapped [OF m] by auto
  then have "\<exists>c'. res_fold (\<lambda>(l, raw). fixup_entry h b hdr l raw) es ?d = Ok c'"
    using Cons.prems(1) by (intro Cons.IH) (simp_all add: only_rebases_def)
  ultimately show ?case using e by auto
qed

lemma chain_rebases_total:
  assumes "chain (mem c) loc es" and "only_rebases es"
  shows "\<exists>c'. chain_walk n h b hdr loc c = Ok c'"
proof -
  have "\<forall>(l, raw) \<in> set (take n es). mapped (mem c) l 8"
    using chain_entries [OF assms(1)] load_mapped(3) [of "mem c"]
    by (auto simp: is_ok_iff dest!: in_set_takeD)
  moreover have "only_rebases (take n es)"
    using assms(2) by (auto simp: only_rebases_def list_all_iff dest!: in_set_takeD)
  ultimately show ?thesis
    using rebases_total chain_walk_fold [OF assms(1)] by metis
qed

text \<open>C33: termination. A chain of at most 512 rebases is always processed to its end without a
  fault, and every location gets the image address plus its target.\<close>

theorem chain_walk_rebases:
  assumes ch: "chain (mem c) loc es" and "length es \<le> CHAIN_LIMIT" and reb: "only_rebases es"
  shows "\<exists>c'. chain_walk CHAIN_LIMIT h b hdr loc c = Ok c' \<and>
    (\<forall>(l, raw) \<in> set es. load64 (mem c') l = Ok (img_addr c + chained64_rebase_target raw))"
proof -
  obtain c' where run: "chain_walk CHAIN_LIMIT h b hdr loc c = Ok c'"
    using chain_rebases_total [OF ch reb] by blast
  then have "fixups_done es c c'"
    using assms(2) chain_spaced [OF ch] fixups_fold [of h b hdr es c c'] by (simp add: chain_walk_fold [OF ch])
  then show ?thesis using run reb by (fastforce simp: fixups_done_def only_rebases_def list_all_iff)
qed

section \<open>Examples\<close>

text \<open>A run of \<open>n\<close> rebase entries eight bytes apart and a last one, as bytes and as a chain.\<close>

definition LINK :: u64 where "LINK = 0x0010000000000123"

primrec link_run :: "nat \<Rightarrow> addr \<Rightarrow> (addr \<times> u64) list" where
  "link_run 0 loc = [(loc, 0)]"
| "link_run (Suc n) loc = (loc, LINK) # link_run n (loc + 8)"

definition run_bytes :: "nat \<Rightarrow> byte list" where
  "run_bytes n = concat (replicate n (word_bytes 8 LINK)) @ word_bytes 8 (0 :: u64)"

lemma LINK_fields: "chained64_next LINK = 2" "\<not> chained64_is_bind LINK" "chained64_rebase_target LINK = 0x123"
  by (simp_all add: LINK_def chained64_next_def chained64_is_bind_def chained64_rebase_target_def)

lemma zero_fields: "chained64_next 0 = 0" "\<not> chained64_is_bind 0"
  by (simp_all add: chained64_next_def chained64_is_bind_def)

lemma run_chain:
  "holds m loc (run_bytes n) \<Longrightarrow> unat loc + 8 * n < 2 ^ 64 \<Longrightarrow> chain m loc (link_run n loc)"
proof (induction n arbitrary: loc)
  case 0
  then show ?case by (auto simp: run_bytes_def load64_iff zero_fields intro: chain_last)
next
  case (Suc n)
  have "load64 m loc = Ok LINK" and rest: "holds m (loc + 8) (run_bytes n)"
    using Suc.prems(1) by (simp_all add: run_bytes_def holds_append load64_iff)
  moreover have "chain m (loc + 8) (link_run n (loc + 8))"
    using unat_add_of_nat [of loc 8] Suc.prems(2) by (intro Suc.IH rest) simp
  ultimately show ?case
    using Suc.prems(2) by (auto simp: LINK_fields intro!: chain_link)
qed

lemma run_rebases: "only_rebases (link_run n loc)"
  by (induction n arbitrary: loc) (simp_all add: only_rebases_def LINK_fields zero_fields)

lemma run_length [simp]: "length (link_run n loc) = Suc n"
  by (induction n arbitrary: loc) simp_all

lemma run_nth: "i \<le> n \<Longrightarrow> link_run n loc ! i = (loc + of_nat (8 * i), if i < n then LINK else 0)"
  by (induction n arbitrary: loc i) (auto simp: nth_Cons' algebra_simps)

lemma length_run_bytes: "length (run_bytes n) = 8 * Suc n"
  by (simp add: run_bytes_def length_concat sum_list_replicate)

definition run_context :: "nat \<Rightarrow> mach_context" where
  "run_context n = (zero_context (map_file Map.empty 0x200000000 (run_bytes n)))\<lparr>img_addr := 0x200000000\<rparr>"

lemma run_context_chain: "n \<le> 1000 \<Longrightarrow> chain (mem (run_context n)) 0x200000000 (link_run n 0x200000000)"
  by (rule run_chain) (simp_all add: run_context_def zero_context_def map_file_holds length_run_bytes)

lemma run_one: "link_run 1 0x200000000 = [(0x200000000, LINK), (0x200000008, 0)]"
  by (simp add: eval_nat_numeral)

lemma chain_walk_refines_witness:
  "chain_walk 1 example_host 0 0 0x200000000 (run_context 1) =
   fixup_entry example_host 0 0 0x200000000 LINK (run_context 1)"
  using chain_walk_refines [OF run_context_chain, of 1 1 example_host 0 0] by (simp add: run_one)

lemma run_walk:
  "n \<le> 1000 \<Longrightarrow> \<exists>c'. chain_walk k h b hdr 0x200000000 (run_context n) = Ok c'"
  using chain_rebases_total [OF run_context_chain run_rebases] by blast

lemma chain_walk_values_witness:
  "\<exists>c'. chain_walk CHAIN_LIMIT example_host 0 0 0x200000000 (run_context 1) = Ok c' \<and>
    load64 (mem c') 0x200000000 = Ok 0x200000123 \<and> chained_rebase_count c' = 2"
proof -
  obtain c' where run: "chain_walk CHAIN_LIMIT example_host 0 0 0x200000000 (run_context 1) = Ok c'"
    using run_walk [of 1 CHAIN_LIMIT example_host 0 0] by auto
  have "fixups_done (link_run 1 0x200000000) (run_context 1) c'"
    by (rule chain_walk_values [OF run_context_chain _ run]) (simp_all add: CHAIN_LIMIT_def)
  then show ?thesis using run
    by (auto simp: run_one fixups_done_def LINK_fields zero_fields run_context_def zero_context_def)
qed

lemma chain_walk_limit_witness:
  "\<exists>c'. chain_walk CHAIN_LIMIT example_host 0 0 0x200000000 (run_context 512) = Ok c' \<and>
    load64 (mem c') 0x200001000 = Ok 0"
proof -
  obtain c' where run: "chain_walk CHAIN_LIMIT example_host 0 0 0x200000000 (run_context 512) = Ok c'"
    using run_walk [of 512 CHAIN_LIMIT example_host 0 0] by auto
  have "load64 (mem c') (fst (link_run 512 0x200000000 ! 512)) = Ok (snd (link_run 512 0x200000000 ! 512))"
    by (rule chain_walk_limit [OF run_context_chain run]) (simp_all add: CHAIN_LIMIT_def)
  then show ?thesis using run run_nth [of 512 512 "0x200000000"] by simp
qed

lemma chain_walk_rebases_witness:
  "\<exists>c'. chain_walk CHAIN_LIMIT example_host 0 0 0x200000000 (run_context 1) = Ok c' \<and>
    load64 (mem c') 0x200000000 = Ok 0x200000123"
  using chain_walk_rebases [OF run_context_chain _ run_rebases, of 1 example_host 0 0]
  by (auto simp: run_one LINK_fields run_context_def zero_context_def CHAIN_LIMIT_def)

text \<open>A loaded segment with one page, its table at \<open>0x1000\<close> and its chain in the image.\<close>

definition example_starts :: chained_starts where
  "example_starts =
     \<lparr>css_size = 24, css_page_size = 0x1000, css_pointer_format = MAL_DYLD_CHAINED_PTR_64_OFFSET,
      css_segment_offset = 0, css_max_valid_pointer = 0, css_page_count = 1\<rparr>"

definition example_table :: "byte list" where
  "example_table = enc_chained_starts example_starts @ concat (map (word_bytes 2) [0 :: u16])"

definition example_fixup_context :: mach_context where
  "example_fixup_context = (run_context 1)
     \<lparr>mem := map_file (mem (run_context 1)) 0x1000 example_table, n_segment_info := 1,
      segments := [zero_segment_info\<lparr>mapped_addr := 0x200000000\<rparr>]\<rparr>"

lemma length_example_table: "length example_table = 24"
  by (simp add: example_table_def cstarts.width)

lemma example_starts_table: "starts_table (mem example_fixup_context) 0x1000 example_starts [0]"
proof -
  have "holds (mem example_fixup_context) 0x1000 example_table"
    using length_example_table by (simp add: example_fixup_context_def map_file_holds)
  then show ?thesis by (simp add: starts_table_def example_table_def example_starts_def)
qed

lemma example_page_chain:
  "page_chain (mem example_fixup_context) 0x200000000 example_starts 0 0 (link_run 1 0x200000000)"
proof -
  have "chain (mem example_fixup_context) 0x200000000 (link_run 1 0x200000000)"
  proof (rule chain_cong [OF run_context_chain])
    fix a :: addr assume "unat (0x200000000 :: addr) \<le> unat a"
    then show "mem example_fixup_context a = mem (run_context 1) a"
      by (simp add: example_fixup_context_def map_file_def length_example_table)
  qed simp
  then show ?thesis
    by (simp add: page_chain_def page_skipped_def page_start_offset_def example_starts_def macho_consts)
qed

lemma dump_chained_64_offset_entries_refines_witness:
  "dump_chained_64_offset_entries example_host example_fixup_context 0 0 0 0x1000 =
   res_fold (\<lambda>(l, raw). fixup_entry example_host 0 0 l raw)
     [(0x200000000, LINK), (0x200000008, 0)] example_fixup_context"
proof -
  have "dump_chained_64_offset_entries example_host example_fixup_context 0 0 0 0x1000 =
      res_fold (\<lambda>(l, raw). fixup_entry example_host 0 0 l raw)
        (concat (map (take CHAIN_LIMIT) [link_run 1 0x200000000])) example_fixup_context"
  proof (rule dump_chained_64_offset_entries_refines [OF example_starts_table])
    show "0 < n_segment_info example_fixup_context" "mapped_addr (segments example_fixup_context ! 0) \<noteq> 0"
      by (simp_all add: example_fixup_context_def)
    show "page_chain (mem example_fixup_context) (img_addr example_fixup_context) example_starts k
        ([0] ! k) ([link_run 1 0x200000000] ! k)" if "k < length [0 :: u16]" for k
      using that example_page_chain by (simp add: example_fixup_context_def run_context_def)
    show "spaced (concat [link_run 1 0x200000000])" by (simp add: run_one spaced_def)
    show "table_apart 0x1000 [0] (concat [link_run 1 0x200000000])"
      by (simp add: run_one table_apart_def apart_def)
  qed simp
  then show ?thesis by (simp add: run_one CHAIN_LIMIT_def)
qed

definition example_fixups_header :: chained_fixups_header where
  "example_fixups_header =
     \<lparr>fixups_version = 0, starts_offset = 0x40, imports_offset = 28, symbols_offset = 36,
      imports_count = 2, imports_format = 1, symbols_format = 0\<rparr>"

definition example_fixups_memory :: memory where
  "example_fixups_memory =
     map_file Map.empty 0x1000
       (enc_chained_fixups_header example_fixups_header @ concat (map (word_bytes 4) [0x200, 0x1401 :: u32]))"

lemma example_fixups_holds:
  "holds example_fixups_memory 0x1000
     (enc_chained_fixups_header example_fixups_header @ concat (map (word_bytes 4) [0x200, 0x1401 :: u32]))"
  unfolding example_fixups_memory_def by (rule map_file_holds) (simp_all add: chdr.width)

lemma chained_import_name_table_witness:
  "chained_import_name example_fixups_memory 0x1000 0x1000 1 = Ok 0x102E \<and>
   chained_import_name example_fixups_memory 0x1000 0x1000 2 = Ok 0"
proof -
  have "read_chained_fixups_header example_fixups_memory 0x1000 = Ok example_fixups_header"
    using example_fixups_holds unfolding holds_append by (simp add: chdr.dec_iff)
  moreover have "holds example_fixups_memory (0x1000 + ucast (imports_offset example_fixups_header))
      (concat (map (word_bytes 4) [0x200, 0x1401 :: u32]))"
    using example_fixups_holds unfolding holds_append
    by (simp add: chdr.width example_fixups_header_def)
  moreover have "length [0x200, 0x1401 :: u32] = unat (imports_count example_fixups_header)"
    by (simp add: example_fixups_header_def)
  ultimately have "chained_import_name example_fixups_memory 0x1000 0x1000 ordinal =
      Ok (if unat ordinal < length [0x200, 0x1401 :: u32]
          then 0x1000 + ucast (symbols_offset example_fixups_header) +
            ucast (drop_bit 9 ([0x200, 0x1401 :: u32] ! unat ordinal))
          else 0)" for ordinal
    by (rule chained_import_name_table)
  from this [of 1] this [of 2] show ?thesis by (simp add: example_fixups_header_def)
qed

lemma dump_chained_fixups_rejects_witness:
  "dump_chained_fixups example_host (run_context 1) 0 27 =
   Ok ((run_context 1)\<lparr>chained_rebase_count := 0, chained_bind_count := 0\<rparr>)"
  by (rule dump_chained_fixups_rejects) simp

end
