(* ===== verification/Mal_Uleb.thy ===== *)
theory Mal_Uleb
  imports Mal_Context
begin

unbundle bit_operations_syntax

text \<open>
  \<open>read_uleb128\<close> of \<^verbatim>\<open>bind.c\<close>: the variable-length integers of the bind opcode stream.
  The C loop has no bound on the number of bytes; from the eleventh byte on it shifts a
  64-bit value by 70 bits or more, which C leaves undefined, and which is the fault
  \<open>Bad_Shift\<close> here.

  \<^item> \<open>uleb_encode\<close> is the canonical encoding, \<open>is_leb\<close> any well-formed one.
  \<^item> Shown: the reader inverts the encoder; its cursor moves forward and never passes the
    end; it terminates (its recursion is bounded by the distance to the end); a value
    that runs past ten bytes is the undefined shift.
\<close>

function read_uleb128_loop :: "memory \<Rightarrow> addr \<Rightarrow> addr \<Rightarrow> u64 \<Rightarrow> nat \<Rightarrow> (u64 \<times> addr) res" where
  "read_uleb128_loop m e p result bt =
     (if p < e
      then res_bind (load8 m p) (\<lambda>b.
           if 64 \<le> bt then Fault (Bad_Shift bt)
           else let result' = result OR push_bit bt (ucast (b AND 0x7f)) in
                if b AND 0x80 = 0 then Ok (result', p + 1)
                else read_uleb128_loop m e (p + 1) result' (bt + 7))
      else Ok (result, p))"
  by pat_completeness auto
termination
  by (relation "measure (\<lambda>(m, e, p, _). unat e - unat p)")
    (auto simp: unat_plus_one word_less_nat_alt)

declare read_uleb128_loop.simps [simp del]

definition read_uleb128 :: "memory \<Rightarrow> addr \<Rightarrow> addr \<Rightarrow> (u64 \<times> addr) res" where
  "read_uleb128 m p e = read_uleb128_loop m e p 0 0"

section \<open>The cursor\<close>

lemma read_uleb128_loop_cursor:
  "read_uleb128_loop m e p r bt = Ok (v, p') \<Longrightarrow>
     (p < e \<longrightarrow> unat p < unat p' \<and> unat p' \<le> unat e) \<and> (\<not> p < e \<longrightarrow> p' = p)"
proof (induction m e p r bt arbitrary: v p' rule: read_uleb128_loop.induct)
  case (1 m e p r bt)
  show ?case
  proof (cases "p < e")
    case False
    then show ?thesis using 1(2) by (simp add: read_uleb128_loop.simps [of m e p])
  next
    case True
    note u = unat_plus_one [OF True]
    from True 1(2) obtain b where b: "load8 m p = Ok b" and bt: "\<not> 64 \<le> bt"
      by (auto simp: read_uleb128_loop.simps [of m e p] res_bind_eq_Ok split: if_splits)
    let ?r = "r OR push_bit bt (ucast (b AND 0x7f))"
    show ?thesis
    proof (cases "b AND 0x80 = 0")
      case True
      then have "p' = p + 1"
        using 1(2) \<open>p < e\<close> b bt by (simp add: read_uleb128_loop.simps [of m e p] Let_def)
      then show ?thesis using \<open>p < e\<close> u by (simp add: word_less_nat_alt)
    next
      case False
      then have "read_uleb128_loop m e (p + 1) ?r (bt + 7) = Ok (v, p')"
        using 1(2) \<open>p < e\<close> b bt by (simp add: read_uleb128_loop.simps [of m e p] Let_def)
      from 1(1) [OF \<open>p < e\<close> b bt refl False this] show ?thesis
        using \<open>p < e\<close> u by (auto simp: word_less_nat_alt)
    qed
  qed
qed

lemma read_uleb128_cursor:
  "read_uleb128 m p e = Ok (v, p') \<Longrightarrow> p \<le> e \<Longrightarrow> unat p \<le> unat p' \<and> unat p' \<le> unat e"
  unfolding read_uleb128_def
  using read_uleb128_loop_cursor [of m e p 0 0 v p'] by (auto simp: word_le_nat_alt word_less_nat_alt)

lemma read_uleb128_forward:
  "read_uleb128 m p e = Ok (v, p') \<Longrightarrow> unat p \<le> unat p'"
  unfolding read_uleb128_def
  using read_uleb128_loop_cursor [of m e p 0 0 v p'] by (cases "p < e") auto

section \<open>Well-formed encodings\<close>

fun is_leb :: "byte list \<Rightarrow> bool" where
  "is_leb [] = False"
| "is_leb [b] = (b AND 0x80 = 0)"
| "is_leb (b # bs) = (b AND 0x80 \<noteq> 0 \<and> is_leb bs)"

primrec leb_value :: "nat \<Rightarrow> byte list \<Rightarrow> u64" where
  "leb_value bt [] = 0"
| "leb_value bt (b # bs) = push_bit bt (ucast (b AND 0x7f)) OR leb_value (bt + 7) bs"

lemma read_uleb128_loop_leb:
  assumes "holds m p bs" and "is_leb bs" and "unat p + length bs \<le> unat e"
    and "bt + 7 * (length bs - 1) < 64"
  shows "read_uleb128_loop m e p r bt = Ok (r OR leb_value bt bs, p + of_nat (length bs))"
  using assms
proof (induction bs arbitrary: p r bt)
  case Nil
  then show ?case by simp
next
  case (Cons b bs)
  from Cons.prems have b: "load8 m p = Ok b" by (simp add: load8_eq_Ok)
  have lt: "p < e" using Cons.prems(3) by (simp add: word_less_nat_alt)
  have bt: "\<not> 64 \<le> bt" using Cons.prems(4) by simp
  let ?r = "r OR push_bit bt (ucast (b AND 0x7f))"
  show ?case
  proof (cases bs)
    case Nil
    then show ?thesis using Cons.prems b lt bt
      by (simp add: read_uleb128_loop.simps [of m e p] Let_def)
  next
    case (Cons b' bs')
    then have cont: "b AND 0x80 \<noteq> 0" and rest: "is_leb bs" using Cons.prems(2) by auto
    have "read_uleb128_loop m e (p + 1) ?r (bt + 7) =
        Ok (?r OR leb_value (bt + 7) bs, (p + 1) + of_nat (length bs))"
    proof (rule Cons.IH)
      show "holds m (p + 1) bs" using Cons.prems(1) by simp
      show "is_leb bs" by (rule rest)
      show "unat (p + 1) + length bs \<le> unat e"
        using Cons.prems(3) unat_plus_one [OF lt] by simp
      show "bt + 7 + 7 * (length bs - 1) < 64" using Cons.prems(4) Cons by simp
    qed
    then show ?thesis using b lt bt cont
      by (simp add: read_uleb128_loop.simps [of m e p] Let_def algebra_simps or.assoc)
  qed
qed

lemma read_uleb128_leb:
  "holds m p bs \<Longrightarrow> is_leb bs \<Longrightarrow> length bs \<le> 10 \<Longrightarrow> unat p + length bs \<le> unat e \<Longrightarrow>
   read_uleb128 m p e = Ok (leb_value 0 bs, p + of_nat (length bs))"
  unfolding read_uleb128_def by (subst read_uleb128_loop_leb) auto

section \<open>The canonical encoding\<close>

lemma unat_drop_bit_7: "unat (drop_bit 7 w) = unat w div 128" for w :: u64
  by (simp add: drop_bit_eq_div unat_div)

lemma and_low7: "w AND 0x7f = take_bit 7 w" for w :: "'a::len word"
  by (simp add: take_bit_eq_mask mask_eq_exp_minus_1)

lemma and_high: "b AND 0x80 = 0 \<longleftrightarrow> \<not> bit b 7" for b :: byte
  using and_exp_eq_0_iff_not_bit [of b 7] by simp

lemma bit_high: "bit (0x80 :: byte) n \<longleftrightarrow> n = 7"
proof -
  have "(0x80 :: byte) = 2 ^ 7" by simp
  then show ?thesis by (simp only: bit_exp_iff) auto
qed

lemmas leb_bits = and_low7 and_high bit_high bit_simps

function uleb_encode :: "u64 \<Rightarrow> byte list" where
  "uleb_encode w =
     (if w < 128 then [ucast w]
      else (ucast (w AND 0x7f) OR 0x80) # uleb_encode (drop_bit 7 w))"
  by pat_completeness auto
termination
  by (relation "measure unat") (simp_all add: unat_drop_bit_7 not_less word_le_nat_alt)

declare uleb_encode.simps [simp del]

lemma leb_split:
  fixes w :: u64
  shows "push_bit bt (take_bit 7 w) OR push_bit (bt + 7) (drop_bit 7 w) = push_bit bt w"
proof (rule bit_eqI)
  fix n
  show "bit (push_bit bt (take_bit 7 w) OR push_bit (bt + 7) (drop_bit 7 w)) n = bit (push_bit bt w) n"
  proof (cases "bt + 7 \<le> n")
    case True
    then have "7 + (n - (bt + 7)) = n - bt" by arith
    then show ?thesis using True by (auto simp: bit_simps)
  next
    case False
    then show ?thesis by (auto simp: bit_simps)
  qed
qed

lemma small_take_bit: "take_bit 7 w = w" if "w < 128" for w :: u64
proof -
  have "drop_bit 7 w = 0"
    using that unat_drop_bit_7 [of w] by (simp add: word_less_nat_alt unat_eq_0 flip: unat_0_iff)
  then show ?thesis by (simp add: take_bit_eq_self_iff_drop_bit_eq_0)
qed

lemma leb_value_encode: "leb_value bt (uleb_encode w) = push_bit bt w"
proof (induction w arbitrary: bt rule: uleb_encode.induct)
  case (1 w)
  show ?case
  proof (cases "w < 128")
    case True
    have "ucast (ucast w AND 0x7f :: byte) = take_bit 7 w"
      by (rule bit_eqI) (auto simp: leb_bits)
    then show ?thesis using True by (simp add: uleb_encode.simps [of w] small_take_bit)
  next
    case False
    have "ucast ((ucast (w AND 0x7f) OR 0x80) AND 0x7f :: byte) = take_bit 7 w"
      by (rule bit_eqI) (auto simp: leb_bits)
    then show ?thesis using False "1.IH" [OF False, of "bt + 7"]
      by (simp add: uleb_encode.simps [of w] leb_split)
  qed
qed

lemma is_leb_encode: "is_leb (uleb_encode w)"
proof (induction w rule: uleb_encode.induct)
  case (1 w)
  show ?case
  proof (cases "w < 128")
    case True
    have "\<not> bit w 7" using small_take_bit [OF True] by (metis bit_take_bit_iff less_irrefl)
    then show ?thesis using True by (simp add: uleb_encode.simps [of w] and_high bit_simps)
  next
    case False
    have "(ucast (w AND 0x7f) OR 0x80) AND 0x80 \<noteq> (0 :: byte)"
      by (simp add: and_high bit_simps)
    then show ?thesis using 1 False
      by (cases "uleb_encode (drop_bit 7 w)") (auto simp: uleb_encode.simps [of w])
  qed
qed

lemma length_uleb_encode_le:
  "unat w < 2 ^ (7 * k) \<Longrightarrow> 0 < k \<Longrightarrow> length (uleb_encode w) \<le> k"
proof (induction k arbitrary: w)
  case 0
  then show ?case by simp
next
  case (Suc k)
  show ?case
  proof (cases "w < 128")
    case True
    then show ?thesis by (simp add: uleb_encode.simps [of w])
  next
    case False
    then have "k \<noteq> 0" using Suc.prems by (cases k) (auto simp: word_less_nat_alt)
    moreover have "unat (drop_bit 7 w) < 2 ^ (7 * k)"
      using Suc.prems by (simp add: unat_drop_bit_7 less_mult_imp_div_less power_add mult.commute)
    ultimately have "length (uleb_encode (drop_bit 7 w)) \<le> k" using Suc.IH by simp
    then show ?thesis using False by (simp add: uleb_encode.simps [of w])
  qed
qed

lemma length_uleb_encode: "length (uleb_encode w) \<le> 10"
proof (rule length_uleb_encode_le)
  have "unat w < 2 ^ 64" using unsigned_less [of w, where ?'a = nat] by simp
  also have "(2 ^ 64 :: nat) \<le> 2 ^ (7 * 10)" by (rule power_increasing) auto
  finally show "unat w < 2 ^ (7 * 10)" .
qed simp

lemma uleb_encode_nonempty [simp]: "uleb_encode w \<noteq> []"
  using is_leb_encode [of w] by auto

lemma read_uleb128_encode:
  "holds m p (uleb_encode w) \<Longrightarrow> unat p + length (uleb_encode w) \<le> unat e \<Longrightarrow>
   read_uleb128 m p e = Ok (w, p + of_nat (length (uleb_encode w)))"
  using read_uleb128_leb [of m p "uleb_encode w" e] is_leb_encode length_uleb_encode
  by (simp add: leb_value_encode)

section \<open>Bounds\<close>

lemma read_uleb128_loop_short:
  "read_uleb128_loop m e p r bt = Ok (v, p') \<Longrightarrow> bt = 7 * k \<Longrightarrow> k \<le> 10 \<Longrightarrow> unat p' \<le> unat p + (10 - k)"
proof (induction m e p r bt arbitrary: v p' k rule: read_uleb128_loop.induct)
  case (1 m e p r bt)
  show ?case
  proof (cases "p < e")
    case False
    then show ?thesis using 1(2) by (simp add: read_uleb128_loop.simps [of m e p])
  next
    case True
    note u = unat_plus_one [OF True]
    from True 1(2) obtain b where b: "load8 m p = Ok b" and bt: "\<not> 64 \<le> bt"
      by (auto simp: read_uleb128_loop.simps [of m e p] res_bind_eq_Ok split: if_splits)
    then have k: "k < 10" using 1(3) by simp
    show ?thesis
    proof (cases "b AND 0x80 = 0")
      case True
      then have "p' = p + 1"
        using 1(2) \<open>p < e\<close> b bt by (simp add: read_uleb128_loop.simps [of m e p] Let_def)
      then show ?thesis using u k by simp
    next
      case False
      then have run: "read_uleb128_loop m e (p + 1) (r OR push_bit bt (ucast (b AND 0x7f))) (bt + 7) = Ok (v, p')"
        using 1(2) \<open>p < e\<close> b bt by (simp add: read_uleb128_loop.simps [of m e p] Let_def)
      have "unat p' \<le> unat (p + 1) + (10 - (k + 1))"
        by (rule 1(1) [OF \<open>p < e\<close> b bt refl False run]) (use 1(3) k in simp_all)
      then show ?thesis using u k by simp
    qed
  qed
qed

definition continued :: "byte \<Rightarrow> bool" where
  "continued b \<longleftrightarrow> b AND 0x80 \<noteq> 0"

lemma read_uleb128_loop_overlong:
  assumes "holds m p bs" and "unat p + length bs \<le> unat e" and "k + length bs = 11" and "bs \<noteq> []"
    and "list_all continued (butlast bs)"
  shows "read_uleb128_loop m e p r (7 * k) = Fault (Bad_Shift 70)"
  using assms
proof (induction bs arbitrary: p r k)
  case Nil
  then show ?case by simp
next
  case (Cons b bs)
  from Cons.prems have b: "load8 m p = Ok b" by (simp add: load8_eq_Ok)
  have lt: "p < e" using Cons.prems(2) by (simp add: word_less_nat_alt)
  show ?case
  proof (cases "bs = []")
    case True
    then have "k = 10" using Cons.prems(3) by simp
    then show ?thesis using b lt by (simp add: read_uleb128_loop.simps [of m e p])
  next
    case False
    then have k: "k < 10" and cont: "b AND 0x80 \<noteq> 0" using Cons.prems(3,5)
      by (cases bs; simp add: continued_def)+
    have "read_uleb128_loop m e (p + 1) r' (7 * (k + 1)) = Fault (Bad_Shift 70)" for r'
      by (rule Cons.IH) (use Cons.prems False unat_plus_one [OF lt] in auto)
    then show ?thesis using b lt k cont by (simp add: read_uleb128_loop.simps [of m e p] Let_def add.commute)
  qed
qed

section \<open>Properties\<close>

text \<open>C26: round trip. Reading the canonical encoding of any 64-bit value, wherever it lies in
  memory before the end of the stream, gives the value back and leaves the cursor right after
  it; the encoding never needs more than ten bytes.\<close>

theorem read_uleb128_roundtrip:
  "holds m p (uleb_encode w) \<Longrightarrow> unat p + length (uleb_encode w) \<le> unat e \<Longrightarrow>
   read_uleb128 m p e = Ok (w, p + of_nat (length (uleb_encode w))) \<and> length (uleb_encode w) \<le> 10"
  using read_uleb128_encode length_uleb_encode by blast

lemma uleb_300: "uleb_encode 300 = [0xAC, 0x02]"
  by (simp add: uleb_encode.simps)

lemma read_uleb128_roundtrip_witness:
  "read_uleb128 (map_file Map.empty 0x1000 [0xAC, 0x02]) 0x1000 0x1002 = Ok (300, 0x1002)"
  using read_uleb128_roundtrip [where m = "map_file Map.empty 0x1000 [0xAC, 0x02]" and p = "0x1000"
      and w = 300 and e = "0x1002"]
  by (simp add: uleb_300 map_file_def)

text \<open>C27: bounds. Whatever the bytes are, a read that returns never moves the cursor backwards,
  past the end of the stream or by more than ten bytes; at the end of the stream it consumes
  nothing and yields 0.\<close>

theorem read_uleb128_bounds:
  assumes "read_uleb128 m p e = Ok (v, p')" and "p \<le> e"
  shows "unat p \<le> unat p' \<and> unat p' \<le> unat e \<and> unat p' \<le> unat p + 10 \<and>
    (p = e \<longrightarrow> v = 0 \<and> p' = p)"
  using assms read_uleb128_cursor [OF assms] read_uleb128_loop_short [of m e p 0 0 v p' 0]
  by (auto simp: read_uleb128_def read_uleb128_loop.simps [of m e e])

lemma read_uleb128_bounds_witness:
  "unat (0x1002 :: addr) \<le> unat (0x1000 :: addr) + 10 \<and> unat (0x1002 :: addr) \<le> unat (0x1005 :: addr)"
proof -
  have "read_uleb128 (map_file Map.empty 0x1000 [0xAC, 0x02]) 0x1000 0x1005 = Ok (300, 0x1002)"
    using read_uleb128_encode [where m = "map_file Map.empty 0x1000 [0xAC, 0x02]" and p = "0x1000"
        and w = 300 and e = "0x1005"]
    by (simp add: uleb_300 map_file_def)
  from read_uleb128_bounds [OF this] show ?thesis by simp
qed

text \<open>An encoding that continues past its tenth byte is not diagnosed: the eleventh
  iteration shifts a 64-bit value by 70, which C leaves undefined.\<close>

theorem read_uleb128_overlong:
  assumes "holds m p bs" and "length bs = 11" and "list_all continued (butlast bs)"
    and "unat p + 11 \<le> unat e"
  shows "read_uleb128 m p e = Fault (Bad_Shift 70)"
  unfolding read_uleb128_def
  using read_uleb128_loop_overlong [of m p bs e 0 0] assms by (cases bs) auto

lemma read_uleb128_overlong_witness:
  "read_uleb128 (map_file Map.empty 0x1000 (replicate 10 0x80 @ [0])) 0x1000 0x2000 = Fault (Bad_Shift 70)"
  by (rule read_uleb128_overlong [of _ _ "replicate 10 0x80 @ [0]"])
    (simp_all add: map_file_holds continued_def list_all_iff)

end
