(* ===== verification/Mal_Bind_Stream.thy ===== *)
theory Mal_Bind_Stream
  imports Mal_Uleb
begin

unbundle bit_operations_syntax

text \<open>
  The bind opcode stream of \<open>LC_DYLD_INFO\<close>: \<open>append_bind_info\<close>,
  \<open>bind_address_for_segment_offset\<close> and the interpreter \<open>bind_list_retriever\<close> of
  \<^verbatim>\<open>bind.c\<close>. One iteration of the C \<open>while\<close> loop is \<open>bind_step\<close> over the local variables
  (\<open>bind_cursor\<close>) and the context; \<open>bind_loop\<close> is the loop.

  \<^item> Termination: every iteration moves the cursor forward, so the loop is a total
    function, whatever bytes it reads.
  \<^item> Any stream: the interpreter only appends to \<open>b_list\<close>, and \<open>stream_entry\<close> says what the entries
    can be.
  \<^item> Refinement: on the bytes of a list of operations (\<open>bind_op\<close>, the table of
    \<^verbatim>\<open>loader.h\<close>) the interpreter appends exactly the binds of the abstract machine
    \<open>run_ops\<close>.
\<close>

section \<open>Opcodes\<close>

definition BIND_OPCODE_MASK :: byte where [macho_consts]: "BIND_OPCODE_MASK = 0xF0"
definition BIND_IMMEDIATE_MASK :: byte where [macho_consts]: "BIND_IMMEDIATE_MASK = 0x0F"
definition BIND_OPCODE_DONE :: byte where [macho_consts]: "BIND_OPCODE_DONE = 0x00"
definition BIND_OPCODE_SET_DYLIB_ORDINAL_IMM :: byte where
  [macho_consts]: "BIND_OPCODE_SET_DYLIB_ORDINAL_IMM = 0x10"
definition BIND_OPCODE_SET_DYLIB_ORDINAL_ULEB :: byte where
  [macho_consts]: "BIND_OPCODE_SET_DYLIB_ORDINAL_ULEB = 0x20"
definition BIND_OPCODE_SET_DYLIB_SPECIAL_IMM :: byte where
  [macho_consts]: "BIND_OPCODE_SET_DYLIB_SPECIAL_IMM = 0x30"
definition BIND_OPCODE_SET_SYMBOL_TRAILING_FLAGS_IMM :: byte where
  [macho_consts]: "BIND_OPCODE_SET_SYMBOL_TRAILING_FLAGS_IMM = 0x40"
definition BIND_OPCODE_SET_TYPE_IMM :: byte where
  [macho_consts]: "BIND_OPCODE_SET_TYPE_IMM = 0x50"
definition BIND_OPCODE_SET_ADDEND_SLEB :: byte where
  [macho_consts]: "BIND_OPCODE_SET_ADDEND_SLEB = 0x60"
definition BIND_OPCODE_SET_SEGMENT_AND_OFFSET_ULEB :: byte where
  [macho_consts]: "BIND_OPCODE_SET_SEGMENT_AND_OFFSET_ULEB = 0x70"
definition BIND_OPCODE_ADD_ADDR_ULEB :: byte where
  [macho_consts]: "BIND_OPCODE_ADD_ADDR_ULEB = 0x80"
definition BIND_OPCODE_DO_BIND :: byte where [macho_consts]: "BIND_OPCODE_DO_BIND = 0x90"
definition BIND_OPCODE_DO_BIND_ADD_ADDR_ULEB :: byte where
  [macho_consts]: "BIND_OPCODE_DO_BIND_ADD_ADDR_ULEB = 0xA0"
definition BIND_OPCODE_DO_BIND_ADD_ADDR_IMM_SCALED :: byte where
  [macho_consts]: "BIND_OPCODE_DO_BIND_ADD_ADDR_IMM_SCALED = 0xB0"
definition BIND_OPCODE_DO_BIND_ULEB_TIMES_SKIPPING_ULEB :: byte where
  [macho_consts]: "BIND_OPCODE_DO_BIND_ULEB_TIMES_SKIPPING_ULEB = 0xC0"

text \<open>\<open>sizeof(ptrval)\<close> on an LP64 target and \<open>sizeof(bind_info)\<close>.\<close>

definition pointer_size :: u64 where "pointer_size = 8"
definition sizeof_bind_info :: nat where "sizeof_bind_info = 16"

section \<open>The bind list\<close>

definition append_bind_info :: "host \<Rightarrow> mach_context \<Rightarrow> addr \<Rightarrow> addr \<Rightarrow> mach_context res" where
  "append_bind_info h c name address =
     (let n = length (b_list c) in
      if INT_MAX \<le> n then Fault Signed_Overflow
      else if \<not> host_alloc h (sizeof_bind_info * (n + 1)) then Fault Null_Alloc
      else Ok (c\<lparr>b_list := b_list c @ [\<lparr>func_name = name, bind_address = address\<rparr>]\<rparr>))"

definition bind_address_for_segment_offset :: "mach_context \<Rightarrow> int \<Rightarrow> u64 \<Rightarrow> addr" where
  "bind_address_for_segment_offset c segment_index off =
     (if segment_index < 0 \<or> int (n_segment_info c) \<le> segment_index then 0
      else let seg = segments c ! nat segment_index in
           if mapped_addr seg = 0 then 0 else mapped_addr seg + off)"

section \<open>The interpreter\<close>

record bind_cursor =
  bp :: addr
  symbol_name :: addr
  segment_index :: int
  segment_offset :: u64

type_synonym bind_state = "bind_cursor \<times> mach_context"

text \<open>Record one bind at the current segment and offset, then move by \<open>stride\<close>.\<close>

definition emit_bind :: "host \<Rightarrow> u64 \<Rightarrow> bind_state \<Rightarrow> bind_state res" where
  "emit_bind h stride s =
     (case s of (cur, c) \<Rightarrow>
        let address = bind_address_for_segment_offset c (segment_index cur) (segment_offset cur) in
        res_bind (append_bind_info h c (symbol_name cur) address) (\<lambda>c'.
        Ok (cur\<lparr>segment_offset := segment_offset cur + stride\<rparr>, c')))"

definition bind_step :: "host \<Rightarrow> addr \<Rightarrow> bind_state \<Rightarrow> bind_state res" where
  "bind_step h e s =
     (case s of (cur0, c) \<Rightarrow>
      let m = mem c in
      res_bind (load8 m (bp cur0)) (\<lambda>b.
      let p = bp cur0 + 1;
          cur = cur0\<lparr>bp := p\<rparr>;
          opcode = b AND BIND_OPCODE_MASK;
          immediate = b AND BIND_IMMEDIATE_MASK
      in
      if opcode = BIND_OPCODE_DONE then Ok (cur, c)
      else if opcode = BIND_OPCODE_SET_DYLIB_ORDINAL_IMM then Ok (cur, c)
      else if opcode = BIND_OPCODE_SET_DYLIB_ORDINAL_ULEB then
        res_bind (read_uleb128 m p e) (\<lambda>(_, p'). Ok (cur\<lparr>bp := p'\<rparr>, c))
      else if opcode = BIND_OPCODE_SET_DYLIB_SPECIAL_IMM then Ok (cur, c)
      else if opcode = BIND_OPCODE_SET_SYMBOL_TRAILING_FLAGS_IMM then
        res_bind (c_string m p) (\<lambda>name.
        Ok (cur\<lparr>symbol_name := p, bp := p + of_nat (length name + 1)\<rparr>, c))
      else if opcode = BIND_OPCODE_SET_TYPE_IMM then Ok (cur, c)
      else if opcode = BIND_OPCODE_SET_ADDEND_SLEB then
        res_bind (read_uleb128 m p e) (\<lambda>(_, p'). Ok (cur\<lparr>bp := p'\<rparr>, c))
      else if opcode = BIND_OPCODE_SET_SEGMENT_AND_OFFSET_ULEB then
        res_bind (read_uleb128 m p e) (\<lambda>(v, p').
        Ok (cur\<lparr>segment_index := uint immediate, segment_offset := v, bp := p'\<rparr>, c))
      else if opcode = BIND_OPCODE_ADD_ADDR_ULEB then
        res_bind (read_uleb128 m p e) (\<lambda>(v, p').
        Ok (cur\<lparr>segment_offset := segment_offset cur + v, bp := p'\<rparr>, c))
      else if opcode = BIND_OPCODE_DO_BIND then
        emit_bind h pointer_size (cur, c)
      else if opcode = BIND_OPCODE_DO_BIND_ADD_ADDR_ULEB then
        res_bind (emit_bind h pointer_size (cur, c)) (\<lambda>(cur1, c1).
        res_bind (read_uleb128 m p e) (\<lambda>(v, p').
        Ok (cur1\<lparr>segment_offset := segment_offset cur1 + v, bp := p'\<rparr>, c1)))
      else if opcode = BIND_OPCODE_DO_BIND_ADD_ADDR_IMM_SCALED then
        emit_bind h (pointer_size + ucast immediate * pointer_size) (cur, c)
      else if opcode = BIND_OPCODE_DO_BIND_ULEB_TIMES_SKIPPING_ULEB then
        res_bind (read_uleb128 m p e) (\<lambda>(count, p1).
        res_bind (read_uleb128 m p1 e) (\<lambda>(skip, p2).
        for_upto 0 (unat count) (\<lambda>_. emit_bind h (pointer_size + skip)) (cur\<lparr>bp := p2\<rparr>, c)))
      else Ok (cur, c)))"

lemma append_bind_info_frame:
  "append_bind_info h c n a = Ok c' \<Longrightarrow>
     c' = c\<lparr>b_list := b_list c @ [\<lparr>func_name = n, bind_address = a\<rparr>]\<rparr> \<and> length (b_list c) < INT_MAX"
  by (auto simp: append_bind_info_def Let_def split: if_splits)

text \<open>What recording binds may change: the offset and the list.\<close>

definition only_binds :: "mach_context \<Rightarrow> mach_context \<Rightarrow> bool" where
  "only_binds c c' \<longleftrightarrow>
     (\<exists>xs. c' = c\<lparr>b_list := b_list c @ xs\<rparr> \<and>
           (length (b_list c) \<le> INT_MAX \<longrightarrow> length (b_list c @ xs) \<le> INT_MAX))"

lemma only_binds_refl [simp]: "only_binds c c"
  unfolding only_binds_def by (rule exI [of _ "[]"]) simp

lemma only_binds_trans: "only_binds c d \<Longrightarrow> only_binds d e \<Longrightarrow> only_binds c e"
proof -
  assume "only_binds c d" and "only_binds d e"
  then obtain xs ys where
    "d = c\<lparr>b_list := b_list c @ xs\<rparr>"
    "length (b_list c) \<le> INT_MAX \<longrightarrow> length (b_list c @ xs) \<le> INT_MAX"
    "e = d\<lparr>b_list := b_list d @ ys\<rparr>"
    "length (b_list d) \<le> INT_MAX \<longrightarrow> length (b_list d @ ys) \<le> INT_MAX"
    unfolding only_binds_def by blast
  then show ?thesis unfolding only_binds_def by (intro exI [of _ "xs @ ys"]) auto
qed

lemma only_binds_extends: "only_binds c d \<Longrightarrow> extends c d"
  by (auto simp: only_binds_def extends_def ctx_ok_def)

lemma append_only_binds: "append_bind_info h c n a = Ok c' \<Longrightarrow> only_binds c c'"
  by (auto simp: only_binds_def dest!: append_bind_info_frame)

definition emitted :: "bind_state \<Rightarrow> bind_state \<Rightarrow> bool" where
  "emitted s s' \<longleftrightarrow> only_binds (snd s) (snd s') \<and> bp (fst s') = bp (fst s)"

lemma emit_bind_frame: "emit_bind h stride s = Ok s' \<Longrightarrow> emitted s s'"
  by (auto simp: emit_bind_def emitted_def res_bind_eq_Ok dest: append_only_binds split: prod.splits)

interpretation emit: framed_op emitted "emit_bind h"
proof unfold_locales
  show "emitted s u" if "emitted s t" and "emitted t u" for s t u
    using that only_binds_trans by (auto simp: emitted_def)
qed (simp_all add: emitted_def emit_bind_frame [unfolded emitted_def])

text \<open>The cursor only moves forward (or wraps to 0, where the next load faults).\<close>

definition forward :: "addr \<Rightarrow> addr \<Rightarrow> bool" where
  "forward p q \<longleftrightarrow> q = 0 \<or> unat p < unat q"

lemma forward_uleb:
  "p < e \<Longrightarrow> read_uleb128 m (p + 1) e' = Ok (v, q) \<Longrightarrow> forward p q"
  using read_uleb128_forward [of m "p + 1" e' v q] by (simp add: forward_def unat_plus_one)

lemma forward_string:
  assumes "p < e" and "c_string m (p + 1) = Ok s"
  shows "forward p (p + 1 + of_nat (length s + 1))"
proof -
  have "holds m (p + 1) (s @ [0])" using assms(2) by (simp add: c_string_iff)
  then have le: "unat (p + 1) + (length s + 1) \<le> 2 ^ 64" using holds_no_wrap by fastforce
  show ?thesis
  proof (cases "unat (p + 1) + (length s + 1) = 2 ^ 64")
    case True
    then have "p + 1 + of_nat (length s + 1) = 0" by (intro add_of_nat_wrap) simp
    then show ?thesis by (simp add: forward_def)
  next
    case False
    then have "unat (p + 1 + of_nat (length s + 1)) = unat (p + 1) + (length s + 1)"
      using le by (intro unat_add_of_nat) simp
    then show ?thesis by (simp add: forward_def unat_plus_one [OF assms(1)])
  qed
qed

lemma forward_next: "p < e \<Longrightarrow> forward p (p + 1)"
  by (simp add: forward_def unat_plus_one)

lemma forward_uleb2:
  "p < e \<Longrightarrow> read_uleb128 m (p + 1) e' = Ok (v, q) \<Longrightarrow> read_uleb128 m q e'' = Ok (v', r) \<Longrightarrow>
   forward p r"
  using read_uleb128_forward [of m "p + 1" e' v q] read_uleb128_forward [of m q e'' v' r]
  by (simp add: forward_def unat_plus_one)

lemma bind_step_forward:
  assumes "bind_step h e (cur, c) = Ok (cur', c')" and "bp cur < e"
  shows "bp cur \<noteq> 0 \<and> forward (bp cur) (bp cur') \<and> only_binds c c'"
  using assms
  apply (simp add: bind_step_def Let_def res_bind_eq_Ok)
  apply (elim exE conjE)
  apply (simp add: load8_eq_Ok split: if_splits)
  apply (auto simp: res_bind_eq_Ok emitted_def
      dest: forward_uleb forward_string forward_uleb2 dest!: emit_bind_frame emit.loop_R
      intro: forward_next)
  done

section \<open>The loop\<close>

function bind_loop :: "host \<Rightarrow> addr \<Rightarrow> bind_state \<Rightarrow> bind_state res" where
  "bind_loop h e s =
     (if bp (fst s) < e then res_bind (bind_step h e s) (bind_loop h e) else Ok s)"
  by pat_completeness auto
termination
proof (relation "measure (\<lambda>(h, e, s :: bind_state). if bp (fst s) = 0 then 0 else 2 ^ 64 - unat (bp (fst s)))")
  fix h e and s s' :: bind_state
  assume lt: "bp (fst s) < e" and run: "bind_step h e s = Ok s'"
  then have "bp (fst s) \<noteq> 0" and "forward (bp (fst s)) (bp (fst s'))"
    using bind_step_forward [of h e "fst s" "snd s" "fst s'" "snd s'"] by auto
  moreover have "unat (bp (fst s)) < 2 ^ 64"
    using unsigned_less [of "bp (fst s)", where ?'a = nat] by simp
  ultimately show "((h, e, s'), (h, e, s)) \<in> measure
      (\<lambda>(h, e, s :: bind_state). if bp (fst s) = 0 then 0 else 2 ^ 64 - unat (bp (fst s)))"
    by (auto simp: forward_def)
qed simp

declare bind_loop.simps [simp del]

definition bind_list_retriever :: "host \<Rightarrow> mach_context \<Rightarrow> addr \<Rightarrow> addr \<Rightarrow> mach_context res" where
  "bind_list_retriever h c start e =
     res_bind
       (bind_loop h e (\<lparr>bp = start, symbol_name = 0, segment_index = -1, segment_offset = 0\<rparr>, c))
       (\<lambda>(_, c'). Ok c')"

lemma bind_loop_binds: "bind_loop h e s = Ok s' \<Longrightarrow> only_binds (snd s) (snd s')"
proof (induction h e s rule: bind_loop.induct)
  case (1 h e s)
  show ?case
  proof (cases "bp (fst s) < e")
    case True
    then obtain t where t: "bind_step h e s = Ok t" "bind_loop h e t = Ok s'"
      using "1.prems" by (auto simp: bind_loop.simps [of h e s])
    then have "only_binds (snd s) (snd t)"
      using bind_step_forward [of h e "fst s" "snd s" "fst t" "snd t"] True by simp
    from this "1.IH" [OF True t] show ?thesis by (rule only_binds_trans)
  next
    case False
    then show ?thesis using "1.prems" by (simp add: bind_loop.simps [of h e s])
  qed
qed

lemma bind_list_retriever_binds: "bind_list_retriever h c start e = Ok c' \<Longrightarrow> only_binds c c'"
  by (auto simp: bind_list_retriever_def res_bind_eq_Ok dest!: bind_loop_binds)

section \<open>The abstract machine\<close>

datatype bind_op =
    Op_Done
  | Op_Dylib_Ordinal_Imm "4 word"
  | Op_Dylib_Ordinal_Uleb u64
  | Op_Dylib_Special_Imm "4 word"
  | Op_Symbol "4 word" cstr
  | Op_Type_Imm "4 word"
  | Op_Addend_Sleb "byte list"
  | Op_Segment_Offset "4 word" u64
  | Op_Add_Addr u64
  | Op_Do_Bind
  | Op_Do_Bind_Add_Addr u64
  | Op_Do_Bind_Imm_Scaled "4 word"
  | Op_Do_Bind_Times u64 u64
  | Op_Unknown byte

fun wf_op :: "bind_op \<Rightarrow> bool" where
  "wf_op (Op_Symbol _ s) \<longleftrightarrow> 0 \<notin> set s"
| "wf_op (Op_Addend_Sleb bs) \<longleftrightarrow> is_leb bs \<and> length bs \<le> 10"
| "wf_op (Op_Unknown b) \<longleftrightarrow> b AND 0xF0 \<in> {0xD0, 0xE0, 0xF0}"
| "wf_op _ \<longleftrightarrow> True"

definition op_byte :: "byte \<Rightarrow> 4 word \<Rightarrow> byte" where
  "op_byte opcode imm = opcode OR ucast imm"

fun enc_op :: "bind_op \<Rightarrow> byte list" where
  "enc_op Op_Done = [BIND_OPCODE_DONE]"
| "enc_op (Op_Dylib_Ordinal_Imm i) = [op_byte BIND_OPCODE_SET_DYLIB_ORDINAL_IMM i]"
| "enc_op (Op_Dylib_Ordinal_Uleb v) = BIND_OPCODE_SET_DYLIB_ORDINAL_ULEB # uleb_encode v"
| "enc_op (Op_Dylib_Special_Imm i) = [op_byte BIND_OPCODE_SET_DYLIB_SPECIAL_IMM i]"
| "enc_op (Op_Symbol i s) = op_byte BIND_OPCODE_SET_SYMBOL_TRAILING_FLAGS_IMM i # s @ [0]"
| "enc_op (Op_Type_Imm i) = [op_byte BIND_OPCODE_SET_TYPE_IMM i]"
| "enc_op (Op_Addend_Sleb bs) = BIND_OPCODE_SET_ADDEND_SLEB # bs"
| "enc_op (Op_Segment_Offset i v) =
     op_byte BIND_OPCODE_SET_SEGMENT_AND_OFFSET_ULEB i # uleb_encode v"
| "enc_op (Op_Add_Addr v) = BIND_OPCODE_ADD_ADDR_ULEB # uleb_encode v"
| "enc_op Op_Do_Bind = [BIND_OPCODE_DO_BIND]"
| "enc_op (Op_Do_Bind_Add_Addr v) = BIND_OPCODE_DO_BIND_ADD_ADDR_ULEB # uleb_encode v"
| "enc_op (Op_Do_Bind_Imm_Scaled i) = [op_byte BIND_OPCODE_DO_BIND_ADD_ADDR_IMM_SCALED i]"
| "enc_op (Op_Do_Bind_Times k v) =
     BIND_OPCODE_DO_BIND_ULEB_TIMES_SKIPPING_ULEB # uleb_encode k @ uleb_encode v"
| "enc_op (Op_Unknown b) = [b]"

record bind_regs =
  reg_symbol :: "cstr option"
  reg_segment :: int
  reg_offset :: u64

type_synonym bind_entry = "cstr option \<times> addr"

text \<open>
  \<open>run_op\<close> is what one operation does to the registers and which binds it emits, given
  where a segment offset is in memory. Consecutive binds are \<open>8 + skip\<close> bytes apart.
\<close>

definition emitted_run :: "(int \<Rightarrow> u64 \<Rightarrow> addr) \<Rightarrow> bind_regs \<Rightarrow> u64 \<Rightarrow> nat \<Rightarrow> bind_entry list" where
  "emitted_run at r stride n =
     map (\<lambda>i. (reg_symbol r, at (reg_segment r) (reg_offset r + of_nat i * stride))) [0..<n]"

fun run_op :: "(int \<Rightarrow> u64 \<Rightarrow> addr) \<Rightarrow> bind_op \<Rightarrow> bind_regs \<Rightarrow> bind_regs \<times> bind_entry list" where
  "run_op at (Op_Symbol _ s) r = (r\<lparr>reg_symbol := Some s\<rparr>, [])"
| "run_op at (Op_Segment_Offset i v) r = (r\<lparr>reg_segment := uint i, reg_offset := v\<rparr>, [])"
| "run_op at (Op_Add_Addr v) r = (r\<lparr>reg_offset := reg_offset r + v\<rparr>, [])"
| "run_op at Op_Do_Bind r =
     (r\<lparr>reg_offset := reg_offset r + 8\<rparr>, emitted_run at r 8 1)"
| "run_op at (Op_Do_Bind_Add_Addr v) r =
     (r\<lparr>reg_offset := reg_offset r + 8 + v\<rparr>, emitted_run at r 8 1)"
| "run_op at (Op_Do_Bind_Imm_Scaled i) r =
     (r\<lparr>reg_offset := reg_offset r + (8 + ucast i * 8)\<rparr>, emitted_run at r 8 1)"
| "run_op at (Op_Do_Bind_Times k v) r =
     (r\<lparr>reg_offset := reg_offset r + k * (8 + v)\<rparr>, emitted_run at r (8 + v) (unat k))"
| "run_op at _ r = (r, [])"

fun run_ops :: "(int \<Rightarrow> u64 \<Rightarrow> addr) \<Rightarrow> bind_op list \<Rightarrow> bind_regs \<Rightarrow> bind_entry list" where
  "run_ops at [] r = []"
| "run_ops at (x # xs) r = (case run_op at x r of (r', es) \<Rightarrow> es @ run_ops at xs r')"

definition init_regs :: bind_regs where
  "init_regs = \<lparr>reg_symbol = None, reg_segment = -1, reg_offset = 0\<rparr>"

section \<open>Simulation\<close>

definition sym_ok :: "memory \<Rightarrow> addr \<Rightarrow> cstr option \<Rightarrow> bool" where
  "sym_ok m p so \<longleftrightarrow> (case so of None \<Rightarrow> p = 0 | Some s \<Rightarrow> c_string m p = Ok s)"

definition entry_ok :: "memory \<Rightarrow> bind_info \<Rightarrow> bind_entry \<Rightarrow> bool" where
  "entry_ok m bi en \<longleftrightarrow> bind_address bi = snd en \<and> sym_ok m (func_name bi) (fst en)"

definition sim :: "memory \<Rightarrow> bind_cursor \<Rightarrow> bind_regs \<Rightarrow> bool" where
  "sim m cur r \<longleftrightarrow>
     segment_index cur = reg_segment r \<and> segment_offset cur = reg_offset r \<and>
     sym_ok m (symbol_name cur) (reg_symbol r)"

lemma nibbles:
  fixes i :: "4 word" and b :: byte
  assumes "b AND 0x0F = 0"
  shows "(b OR ucast i) AND 0xF0 = b" and "uint ((b OR ucast i) AND 0x0F) = uint i"
    and "ucast ((b OR ucast i) AND 0x0F) = (ucast i :: u64)"
proof -
  have lo: "bit (0x0F :: byte) n \<longleftrightarrow> n < 4" for n
    using bit_mask_iff [of 4 n, where ?'a = byte] by (auto simp: mask_eq_exp_minus_1)
  have hi: "bit (0xF0 :: byte) n \<longleftrightarrow> 4 \<le> n \<and> n < 8" for n
  proof -
    have "(0xF0 :: byte) = push_bit 4 0x0F" by (simp add: push_bit_eq_mult)
    then show ?thesis by (simp only: bit_push_bit_iff lo) auto
  qed
  have b: "\<not> bit b n" if "n < 4" for n
    using that assms lo [of n] by (metis bit_and_iff bit_0_eq bot_apply bot_bool_def)
  have i: "\<not> bit (ucast i :: byte) n" if "4 \<le> n" for n
    using that by (auto simp: bit_simps dest: bit_imp_le_length)
  show "(b OR ucast i) AND 0xF0 = b"
  proof (rule bit_word_eqI)
    fix n assume "n < LENGTH(8)"
    then show "bit ((b OR ucast i) AND 0xF0) n = bit b n"
      using b [of n] i [of n] by (simp only: bit_and_iff bit_or_iff hi) (cases "n < 4", auto)
  qed
  have lo8: "(b OR ucast i) AND 0x0F = ucast i"
  proof (rule bit_word_eqI)
    fix n assume "n < LENGTH(8)"
    then show "bit ((b OR ucast i) AND 0x0F) n = bit (ucast i :: byte) n"
      using b [of n] i [of n] by (simp only: bit_and_iff bit_or_iff lo) (cases "n < 4", auto)
  qed
  show "uint ((b OR ucast i) AND 0x0F) = uint i" unfolding lo8
    by (rule bit_eqI) (auto simp: bit_simps dest: bit_imp_le_length)
  show "ucast ((b OR ucast i) AND 0x0F) = (ucast i :: u64)" unfolding lo8
    by (rule bit_eqI) (auto simp: bit_simps dest: bit_imp_le_length)
qed

text \<open>Which opcode a byte carries, for the bytes of the encoder.\<close>

lemma op_byte_opcode:
  assumes "opcode AND 0x0F = 0"
  shows "op_byte opcode i AND BIND_OPCODE_MASK = opcode"
    and "uint (op_byte opcode i AND BIND_IMMEDIATE_MASK) = uint i"
    and "ucast (op_byte opcode i AND BIND_IMMEDIATE_MASK) = (ucast i :: u64)"
  using nibbles [OF assms, of i] by (simp_all add: op_byte_def macho_consts)

lemma plain_opcode: "opcode AND 0x0F = 0 \<Longrightarrow> opcode AND BIND_OPCODE_MASK = opcode"
  using op_byte_opcode(1) [of opcode 0] by (simp add: op_byte_def)

text \<open>Recording a run of binds.\<close>

definition alloc_ok :: "host \<Rightarrow> bool" where
  "alloc_ok h \<longleftrightarrow> (\<forall>n. host_alloc h n)"

lemma emit_bind_Ok:
  assumes "alloc_ok h" and "length (b_list c) < INT_MAX"
  shows "emit_bind h stride (cur, c) =
    Ok (cur\<lparr>segment_offset := segment_offset cur + stride\<rparr>,
        c\<lparr>b_list := b_list c @ [\<lparr>func_name = symbol_name cur,
           bind_address = bind_address_for_segment_offset c (segment_index cur) (segment_offset cur)\<rparr>]\<rparr>)"
  using assms by (simp add: emit_bind_def append_bind_info_def alloc_ok_def)

lemma bind_address_b_list [simp]:
  "bind_address_for_segment_offset (c\<lparr>b_list := xs\<rparr>) = bind_address_for_segment_offset c"
  by (simp add: bind_address_for_segment_offset_def fun_eq_iff)

definition run_entries :: "bind_cursor \<Rightarrow> mach_context \<Rightarrow> u64 \<Rightarrow> nat \<Rightarrow> bind_info list" where
  "run_entries cur c stride n =
     map (\<lambda>i. \<lparr>func_name = symbol_name cur,
               bind_address = bind_address_for_segment_offset c (segment_index cur)
                 (segment_offset cur + of_nat i * stride)\<rparr>) [0..<n]"

lemma emit_run:
  assumes "alloc_ok h" and "length (b_list c) + n \<le> INT_MAX"
  shows "for_upto 0 n (\<lambda>_. emit_bind h stride) (cur, c) =
    Ok (cur\<lparr>segment_offset := segment_offset cur + of_nat n * stride\<rparr>,
        c\<lparr>b_list := b_list c @ run_entries cur c stride n\<rparr>)"
  using assms(2)
proof (induction n)
  case 0
  then show ?case by (simp add: run_entries_def)
next
  case (Suc n)
  have "for_upto 0 (Suc n) (\<lambda>_. emit_bind h stride) (cur, c) =
      res_bind (for_upto 0 n (\<lambda>_. emit_bind h stride) (cur, c)) (emit_bind h stride)"
    by (rule for_upto_Suc)
  also have "\<dots> = emit_bind h stride
      (cur\<lparr>segment_offset := segment_offset cur + of_nat n * stride\<rparr>,
       c\<lparr>b_list := b_list c @ run_entries cur c stride n\<rparr>)"
    using Suc by simp
  also have "\<dots> = Ok (cur\<lparr>segment_offset := segment_offset cur + of_nat (Suc n) * stride\<rparr>,
        c\<lparr>b_list := b_list c @ run_entries cur c stride (Suc n)\<rparr>)"
    using Suc.prems assms(1)
    by (subst emit_bind_Ok) (simp_all add: run_entries_def algebra_simps)
  finally show ?case .
qed

lemma run_entries_ok:
  assumes "sim m cur r"
  shows "list_all2 (entry_ok m) (run_entries cur c stride n)
    (emitted_run (bind_address_for_segment_offset c) r stride n)"
  using assms
  by (auto simp: run_entries_def emitted_run_def list_all2_map1 list_all2_map2 list_all2_same
      entry_ok_def sim_def)

text \<open>One operation of the stream, executed from its bytes.\<close>

definition op_done :: "memory \<Rightarrow> host \<Rightarrow> addr \<Rightarrow> bind_cursor \<Rightarrow> mach_context \<Rightarrow> bind_regs \<Rightarrow> bind_op \<Rightarrow> bool" where
  "op_done m h e cur c r x \<longleftrightarrow>
     (let (r', es) = run_op (bind_address_for_segment_offset c) x r in
      \<exists>cur' xs. bind_step h e (cur, c) = Ok (cur', c\<lparr>b_list := b_list c @ xs\<rparr>) \<and>
        bp cur' = bp cur + of_nat (length (enc_op x)) \<and> sim m cur' r' \<and>
        list_all2 (entry_ok m) xs es)"

lemma op_doneI:
  assumes "run_op (bind_address_for_segment_offset c) x r = (r', es)"
    and "bind_step h e (cur, c) = Ok (cur', c\<lparr>b_list := b_list c @ xs\<rparr>)"
    and "bp cur' = bp cur + of_nat (length (enc_op x))"
    and "sim m cur' r'" and "list_all2 (entry_ok m) xs es"
  shows "op_done m h e cur c r x"
  using assms unfolding op_done_def by auto

text \<open>An operation that emits nothing.\<close>

lemma op_done_silent:
  assumes "run_op (bind_address_for_segment_offset c) x r = (r', [])"
    and "bind_step h e (cur, c) = Ok (cur', c)"
    and "bp cur' = bp cur + of_nat (length (enc_op x))" and "sim m cur' r'"
  shows "op_done m h e cur c r x"
  using assms by (intro op_doneI [where xs = "[]"]) auto

lemma load_op_byte:
  "holds m p (op_byte opcode i # bs) \<Longrightarrow> load8 m p = Ok (op_byte opcode i)"
  by (simp add: load8_eq_Ok)

text \<open>
  The step on a given opcode: what the dispatch of \<open>bind_step\<close> comes to once the byte is
  known. All opcodes are multiples of 16, so the tests before the right one fail.
\<close>

lemma opcodes_low:
  "BIND_OPCODE_DONE AND 0x0F = 0"
  "BIND_OPCODE_SET_DYLIB_ORDINAL_IMM AND 0x0F = 0"
  "BIND_OPCODE_SET_DYLIB_ORDINAL_ULEB AND 0x0F = 0"
  "BIND_OPCODE_SET_DYLIB_SPECIAL_IMM AND 0x0F = 0"
  "BIND_OPCODE_SET_SYMBOL_TRAILING_FLAGS_IMM AND 0x0F = 0"
  "BIND_OPCODE_SET_TYPE_IMM AND 0x0F = 0"
  "BIND_OPCODE_SET_ADDEND_SLEB AND 0x0F = 0"
  "BIND_OPCODE_SET_SEGMENT_AND_OFFSET_ULEB AND 0x0F = 0"
  "BIND_OPCODE_ADD_ADDR_ULEB AND 0x0F = 0"
  "BIND_OPCODE_DO_BIND AND 0x0F = 0"
  "BIND_OPCODE_DO_BIND_ADD_ADDR_ULEB AND 0x0F = 0"
  "BIND_OPCODE_DO_BIND_ADD_ADDR_IMM_SCALED AND 0x0F = 0"
  "BIND_OPCODE_DO_BIND_ULEB_TIMES_SKIPPING_ULEB AND 0x0F = 0"
  by (simp_all add: macho_consts)

lemmas opcode_simps = opcodes_low [THEN op_byte_opcode(1)] opcodes_low [THEN op_byte_opcode(2)]
  opcodes_low [THEN op_byte_opcode(3)] opcodes_low [THEN plain_opcode]

lemma opcodes_distinct:
  "distinct [BIND_OPCODE_DO_BIND_ULEB_TIMES_SKIPPING_ULEB, BIND_OPCODE_DO_BIND_ADD_ADDR_IMM_SCALED,
     BIND_OPCODE_DO_BIND_ADD_ADDR_ULEB, BIND_OPCODE_DO_BIND, BIND_OPCODE_ADD_ADDR_ULEB,
     BIND_OPCODE_SET_SEGMENT_AND_OFFSET_ULEB, BIND_OPCODE_SET_ADDEND_SLEB,
     BIND_OPCODE_SET_TYPE_IMM, BIND_OPCODE_SET_SYMBOL_TRAILING_FLAGS_IMM,
     BIND_OPCODE_SET_DYLIB_SPECIAL_IMM, BIND_OPCODE_SET_DYLIB_ORDINAL_ULEB,
     BIND_OPCODE_SET_DYLIB_ORDINAL_IMM, BIND_OPCODE_DONE]"
  by (simp add: macho_consts)

lemmas opcode_neqs = opcodes_distinct [simplified distinct.simps list.set insert_iff empty_iff
    de_Morgan_disj conj_assoc simp_thms]

lemmas step_simps = bind_step_def Let_def opcode_simps opcode_neqs

text \<open>The reader at the operand of an opcode at \<open>p\<close>.\<close>

lemma operand_uleb:
  assumes "holds m p (b # uleb_encode v @ rest)" and "unat p + length (b # uleb_encode v @ rest) \<le> unat e"
  shows "read_uleb128 m (p + 1) e = Ok (v, p + of_nat (length (b # uleb_encode v)))"
proof -
  have "p < e" using assms(2) by (simp add: word_less_nat_alt)
  then have "unat (p + 1) + length (uleb_encode v) \<le> unat e"
    using assms(2) by (simp add: unat_plus_one)
  then show ?thesis
    using assms(1) read_uleb128_encode [of m "p + 1" v e]
    by (simp add: holds_append algebra_simps)
qed

lemma operand_leb:
  assumes "holds m p (b # bs)" and "is_leb bs" "length bs \<le> 10"
    and "unat p + length (b # bs) \<le> unat e"
  shows "read_uleb128 m (p + 1) e = Ok (leb_value 0 bs, p + of_nat (length (b # bs)))"
proof -
  have "p < e" using assms(4) by (simp add: word_less_nat_alt)
  then have "unat (p + 1) + length bs \<le> unat e"
    using assms(4) by (simp add: unat_plus_one)
  then show ?thesis
    using assms read_uleb128_leb [of m "p + 1" bs e] by (simp add: algebra_simps)
qed

lemma operand_string:
  assumes "holds m p (b # s @ [0])" and "0 \<notin> set s"
  shows "c_string m (p + 1) = Ok s"
  using assms by (simp add: c_string_iff)

text \<open>Operations that emit nothing, and operations that emit binds.\<close>

lemma op_done_silently:
  assumes h: "holds (mem c) (bp cur) (enc_op x)" and hm: "holds m (bp cur) (enc_op x)"
    and e: "unat (bp cur) + length (enc_op x) \<le> unat e"
    and sim: "sim m cur r" and wf: "wf_op x"
    and run: "run_op (bind_address_for_segment_offset c) x r = (r', [])"
    and silent: "\<not> (\<exists>k v. x = Op_Do_Bind_Times k v)"
  shows "op_done m h e cur c r x"
proof -
  have load: "load8 (mem c) (bp cur) = Ok (hd (enc_op x))"
    using h by (cases "enc_op x"; cases x) (auto simp: load8_eq_Ok)
  note facts = load sim run
  show ?thesis
  proof (cases x)
    case (Op_Symbol i s)
    have dec: "c_string (mem c) (bp cur + 1) = Ok s"
      using h wf operand_string unfolding Op_Symbol by simp
    have dec_m: "c_string m (bp cur + 1) = Ok s"
      using hm wf operand_string unfolding Op_Symbol by simp
    show ?thesis
      by (rule op_done_silent [OF run], use facts dec Op_Symbol in \<open>simp add: step_simps\<close>)
       (use facts dec_m Op_Symbol in \<open>auto simp: sim_def sym_ok_def\<close>)
  next
    case (Op_Segment_Offset i v)
    have dec: "read_uleb128 (mem c) (bp cur + 1) e = Ok (v, bp cur + of_nat (length (enc_op x)))"
      using operand_uleb [of "mem c" "bp cur" _ v "[]"] h e unfolding Op_Segment_Offset by simp
    show ?thesis
      by (rule op_done_silent [OF run], use facts dec Op_Segment_Offset in \<open>simp add: step_simps\<close>)
       (use facts dec Op_Segment_Offset in \<open>auto simp: sim_def\<close>)
  next
    case (Op_Dylib_Ordinal_Uleb v)
    have dec: "read_uleb128 (mem c) (bp cur + 1) e = Ok (v, bp cur + of_nat (length (enc_op x)))"
      using operand_uleb [of "mem c" "bp cur" _ v "[]"] h e unfolding Op_Dylib_Ordinal_Uleb by simp
    show ?thesis
      by (rule op_done_silent [OF run], use facts dec Op_Dylib_Ordinal_Uleb in \<open>simp add: step_simps\<close>)
       (use facts dec Op_Dylib_Ordinal_Uleb in \<open>auto simp: sim_def\<close>)
  next
    case (Op_Add_Addr v)
    have dec: "read_uleb128 (mem c) (bp cur + 1) e = Ok (v, bp cur + of_nat (length (enc_op x)))"
      using operand_uleb [of "mem c" "bp cur" _ v "[]"] h e unfolding Op_Add_Addr by simp
    show ?thesis
      by (rule op_done_silent [OF run], use facts dec Op_Add_Addr in \<open>simp add: step_simps\<close>)
       (use facts dec Op_Add_Addr in \<open>auto simp: sim_def\<close>)
  next
    case (Op_Addend_Sleb bs)
    have dec: "read_uleb128 (mem c) (bp cur + 1) e = Ok (leb_value 0 bs, bp cur + of_nat (length (enc_op x)))"
      using operand_leb [of "mem c" "bp cur" _ bs] h e wf unfolding Op_Addend_Sleb by simp
    show ?thesis
      by (rule op_done_silent [OF run], use facts dec Op_Addend_Sleb in \<open>simp add: step_simps\<close>)
       (use facts dec Op_Addend_Sleb in \<open>auto simp: sim_def\<close>)
  next
    case (Op_Unknown b)
    have dec: "bind_step h e (cur, c) = Ok (cur\<lparr>bp := bp cur + 1\<rparr>, c)"
      using facts wf Op_Unknown by (auto simp: bind_step_def Let_def macho_consts)
    show ?thesis
      by (rule op_done_silent [OF run dec]) (use facts Op_Unknown in \<open>auto simp: sim_def\<close>)
  next
    case Op_Done
    show ?thesis
      by (rule op_done_silent [OF run], use facts Op_Done in \<open>simp add: step_simps\<close>)
        (use facts Op_Done in \<open>auto simp: sim_def\<close>)
  next
    case (Op_Dylib_Ordinal_Imm i)
    show ?thesis
      by (rule op_done_silent [OF run], use facts Op_Dylib_Ordinal_Imm in \<open>simp add: step_simps\<close>)
        (use facts Op_Dylib_Ordinal_Imm in \<open>auto simp: sim_def\<close>)
  next
    case (Op_Dylib_Special_Imm i)
    show ?thesis
      by (rule op_done_silent [OF run], use facts Op_Dylib_Special_Imm in \<open>simp add: step_simps\<close>)
        (use facts Op_Dylib_Special_Imm in \<open>auto simp: sim_def\<close>)
  next
    case (Op_Type_Imm i)
    show ?thesis
      by (rule op_done_silent [OF run], use facts Op_Type_Imm in \<open>simp add: step_simps\<close>)
        (use facts Op_Type_Imm in \<open>auto simp: sim_def\<close>)
  qed (use run silent in \<open>auto simp: emitted_run_def\<close>)
qed

lemma emit_one:
  assumes "alloc_ok h" and "length (b_list c) < INT_MAX"
  shows "emit_bind h stride (cur, c) =
    Ok (cur\<lparr>segment_offset := segment_offset cur + stride\<rparr>,
        c\<lparr>b_list := b_list c @ run_entries cur c stride (Suc 0)\<rparr>)"
  using emit_bind_Ok [OF assms] by (simp add: run_entries_def)

lemma run_entries_one:
  "sim m cur r \<Longrightarrow> list_all2 (entry_ok m) (run_entries (cur\<lparr>bp := p\<rparr>) c stride (Suc 0))
    (emitted_run (bind_address_for_segment_offset c) r stride' (Suc 0))"
  by (simp add: run_entries_def emitted_run_def entry_ok_def sim_def)

lemma op_done_emitting:
  assumes h: "holds (mem c) (bp cur) (enc_op x)" and hm: "holds m (bp cur) (enc_op x)"
    and e: "unat (bp cur) + length (enc_op x) \<le> unat e"
    and sim: "sim m cur r"
    and run: "run_op (bind_address_for_segment_offset c) x r = (r', es)"
    and room: "length (b_list c) + length es \<le> INT_MAX" and alloc: "alloc_ok h"
    and emits: "x = Op_Do_Bind \<or> (\<exists>v. x = Op_Do_Bind_Add_Addr v) \<or>
      (\<exists>i. x = Op_Do_Bind_Imm_Scaled i) \<or> (\<exists>k v. x = Op_Do_Bind_Times k v)"
  shows "op_done m h e cur c r x"
proof -
  have load: "load8 (mem c) (bp cur) = Ok (hd (enc_op x))"
    using h by (cases "enc_op x"; cases x) (auto simp: load8_eq_Ok)
  note facts = load sim run
  from emits consider "x = Op_Do_Bind" | v where "x = Op_Do_Bind_Add_Addr v"
    | i where "x = Op_Do_Bind_Imm_Scaled i" | k v where "x = Op_Do_Bind_Times k v" by blast
  then show ?thesis
  proof cases
    case 1
    then have "length (b_list c) < INT_MAX" using room run by (auto simp: emitted_run_def)
    note emit = emit_one [OF alloc this]
    show ?thesis
      by (rule op_doneI [OF run], use facts 1 emit in \<open>simp add: step_simps\<close>)
        (use facts 1 in \<open>auto simp: sim_def pointer_size_def run_entries_one [OF sim]\<close>)
  next
    case 2
    then have "length (b_list c) < INT_MAX" using room run by (auto simp: emitted_run_def)
    note emit = emit_one [OF alloc this]
    have dec: "read_uleb128 (mem c) (bp cur + 1) e = Ok (v, bp cur + of_nat (length (enc_op x)))"
      using operand_uleb [of "mem c" "bp cur" _ v "[]"] h e unfolding 2 by simp
    show ?thesis
      by (rule op_doneI [OF run], use facts 2 emit dec in \<open>simp add: step_simps\<close>)
        (use facts 2 in \<open>auto simp: sim_def pointer_size_def run_entries_one [OF sim]\<close>)
  next
    case 3
    then have "length (b_list c) < INT_MAX" using room run by (auto simp: emitted_run_def)
    note emit = emit_one [OF alloc this]
    show ?thesis
      by (rule op_doneI [OF run], use facts 3 emit in \<open>simp add: step_simps\<close>)
        (use facts 3 in \<open>auto simp: sim_def pointer_size_def run_entries_one [OF sim]\<close>)
  next
    case 4
    let ?p = "bp cur + of_nat (length (BIND_OPCODE_DO_BIND_ULEB_TIMES_SKIPPING_ULEB # uleb_encode k))"
    have dec1: "read_uleb128 (mem c) (bp cur + 1) e = Ok (k, ?p)"
      using operand_uleb [of "mem c" "bp cur" _ k "uleb_encode v"] h e unfolding 4 by simp
    have "read_uleb128 (mem c) ?p e = Ok (v, bp cur + of_nat (length (enc_op x)))"
    proof -
      have "unat ?p = unat (bp cur) + (1 + length (uleb_encode k))"
        using unat_add_of_nat [of "bp cur" "1 + length (uleb_encode k)"] e unsigned_less [of e, where ?'a = nat]
        unfolding 4 by simp
      then show ?thesis
        using read_uleb128_encode [of "mem c" ?p v e] h e unfolding 4
        by (simp add: holds_append algebra_simps)
    qed
    note dec = dec1 this
    have "length (b_list c) + unat k \<le> INT_MAX"
      using room run 4 by (auto simp: emitted_run_def)
    note emit = emit_run [OF alloc this]
    show ?thesis
      by (rule op_doneI [OF run], use facts 4 emit dec in \<open>simp add: step_simps\<close>)
        (use facts 4 run_entries_ok [OF sim] in \<open>auto simp: sim_def pointer_size_def run_entries_def\<close>)
  qed
qed

lemma op_done_any:
  assumes h: "holds (mem c) (bp cur) (enc_op x)" and hm: "holds m (bp cur) (enc_op x)"
    and e: "unat (bp cur) + length (enc_op x) \<le> unat e"
    and sim: "sim m cur r" and wf: "wf_op x"
    and room: "length (b_list c) + length (snd (run_op (bind_address_for_segment_offset c) x r)) \<le> INT_MAX"
    and alloc: "alloc_ok h"
  shows "op_done m h e cur c r x"
proof -
  obtain r' es where run: "run_op (bind_address_for_segment_offset c) x r = (r', es)"
    by (cases "run_op (bind_address_for_segment_offset c) x r")
  show ?thesis
  proof (cases "x = Op_Do_Bind \<or> (\<exists>v. x = Op_Do_Bind_Add_Addr v) \<or>
      (\<exists>i. x = Op_Do_Bind_Imm_Scaled i) \<or> (\<exists>k v. x = Op_Do_Bind_Times k v)")
    case True
    then show ?thesis using op_done_emitting [OF h hm e sim run] room run alloc by simp
  next
    case False
    then have "es = []" using run by (cases x) auto
    then show ?thesis using op_done_silently [OF h hm e sim wf] run False by auto
  qed
qed

lemma bind_loop_ops:
  assumes "\<forall>x\<in>set ops. wf_op x" and "holds (mem c) (bp cur) (concat (map enc_op ops))"
    and "holds m (bp cur) (concat (map enc_op ops))" and "unat (bp cur) + length (concat (map enc_op ops)) = unat e" and "sim m cur r"
    and "length (b_list c) + length (run_ops (bind_address_for_segment_offset c) ops r) \<le> INT_MAX"
    and alloc: "alloc_ok h"
  shows "\<exists>cur' xs. bind_loop h e (cur, c) = Ok (cur', c\<lparr>b_list := b_list c @ xs\<rparr>) \<and>
    list_all2 (entry_ok m) xs (run_ops (bind_address_for_segment_offset c) ops r)"
  using assms(1-6)
proof (induction ops arbitrary: cur c r)
  case Nil
  then have "\<not> bp cur < e" by (simp add: word_less_nat_alt)
  then show ?case by (intro exI [of _ cur] exI [of _ "[]"]) (simp add: bind_loop.simps)
next
  case (Cons x ops)
  let ?at = "bind_address_for_segment_offset c"
  obtain r' es where run: "run_op ?at x r = (r', es)" by (cases "run_op ?at x r")
  have "op_done m h e cur c r x"
    using Cons.prems alloc run by (intro op_done_any) (auto simp: holds_append)
  then obtain cur' xs where step: "bind_step h e (cur, c) = Ok (cur', c\<lparr>b_list := b_list c @ xs\<rparr>)"
    and bp: "bp cur' = bp cur + of_nat (length (enc_op x))" and sim: "sim m cur' r'"
    and es: "list_all2 (entry_ok m) xs es"
    using run by (auto simp: op_done_def)
  let ?c = "c\<lparr>b_list := b_list c @ xs\<rparr>"
  have lt: "bp cur < e"
    using Cons.prems(4) by (cases x) (auto simp: word_less_nat_alt)
  have "unat (bp cur') = unat (bp cur) + length (enc_op x)"
    unfolding bp using Cons.prems(4) unsigned_less [of e, where ?'a = nat] by (intro unat_add_of_nat) simp
  moreover have "length xs = length es" using es by (rule list_all2_lengthD)
  ultimately have "\<exists>cur'' ys. bind_loop h e (cur', ?c) = Ok (cur'', ?c\<lparr>b_list := b_list ?c @ ys\<rparr>) \<and>
      list_all2 (entry_ok m) ys (run_ops (bind_address_for_segment_offset ?c) ops r')"
    using Cons.prems run bp sim by (intro Cons.IH) (auto simp: holds_append)
  then obtain cur'' ys where "bind_loop h e (cur', ?c) = Ok (cur'', c\<lparr>b_list := b_list c @ xs @ ys\<rparr>)"
    and "list_all2 (entry_ok m) ys (run_ops ?at ops r')" by auto
  then show ?case using lt step es run
    by (intro exI [of _ cur''] exI [of _ "xs @ ys"])
      (simp add: bind_loop.simps [of h e "(cur, c)"] list_all2_appendI)
qed

text \<open>
  The whole stream. The names are strings of any memory \<open>m\<close> that holds the stream, such as the
  file before anything else was mapped.
\<close>

lemma bind_list_retriever_ops:
  assumes "\<forall>x\<in>set ops. wf_op x" and "holds (mem c) start (concat (map enc_op ops))"
    and "holds m start (concat (map enc_op ops))"
    and "unat start + length (concat (map enc_op ops)) = unat e" and "alloc_ok h"
    and "length (b_list c) + length (run_ops (bind_address_for_segment_offset c) ops init_regs) \<le> INT_MAX"
  shows "\<exists>xs. bind_list_retriever h c start e = Ok (c\<lparr>b_list := b_list c @ xs\<rparr>) \<and>
    list_all2 (entry_ok m) xs (run_ops (bind_address_for_segment_offset c) ops init_regs)"
proof -
  let ?cur = "\<lparr>bp = start, symbol_name = 0, segment_index = -1, segment_offset = 0\<rparr>"
  have "sim m ?cur init_regs" by (simp add: sim_def init_regs_def sym_ok_def)
  then show ?thesis
    using bind_loop_ops [of ops c ?cur m e init_regs h] assms
    by (auto simp: bind_list_retriever_def)
qed

text \<open>C6: refinement. On the bytes of any list of well-formed bind operations, placed
  anywhere in memory, \<open>bind_list_retriever\<close> succeeds and appends to the bind list exactly
  the (symbol, address) pairs the abstract machine emits, in order, and changes nothing
  else; it needs only that the allocator succeeds and that the list's counter stays within
  an \<open>int\<close>.\<close>

theorem bind_list_retriever_refines:
  assumes "\<forall>x\<in>set ops. wf_op x" and "holds (mem c) start (concat (map enc_op ops))"
    and "unat start + length (concat (map enc_op ops)) = unat e" and "alloc_ok h"
    and "length (b_list c) + length (run_ops (bind_address_for_segment_offset c) ops init_regs) \<le> INT_MAX"
  shows "\<exists>xs. bind_list_retriever h c start e = Ok (c\<lparr>b_list := b_list c @ xs\<rparr>) \<and>
    list_all2 (entry_ok (mem c)) xs (run_ops (bind_address_for_segment_offset c) ops init_regs)"
  using assms by (intro bind_list_retriever_ops)

definition example_ops :: "bind_op list" where
  "example_ops = [Op_Segment_Offset 1 16, Op_Symbol 0 (lit ''_puts''), Op_Do_Bind, Op_Done]"

definition example_segments :: "segment_info list" where
  "example_segments = (replicate 32 zero_segment_info)
     [1 := \<lparr>seg_name = replicate 16 1, seg_vmaddr = 0x1000, seg_vmsize = 0x1000, mapped_addr = 0x200001000\<rparr>]"

definition example_bind_context :: mach_context where
  "example_bind_context =
     (zero_context (map_file Map.empty 0x1000 (concat (map enc_op example_ops))))
       \<lparr>n_segment_info := 2, segments := example_segments\<rparr>"

lemma example_bytes: "concat (map enc_op example_ops) =
    [0x71, 0x10, 0x40, 0x5F, 0x70, 0x75, 0x74, 0x73, 0x00, 0x90, 0x00]"
  by (simp add: example_ops_def op_byte_def macho_consts lit_def uleb_encode.simps)

lemma example_stream:
  "\<forall>x\<in>set example_ops. wf_op x"
  "holds (mem example_bind_context) 0x1000 (concat (map enc_op example_ops))"
  "unat (0x1000 :: addr) + length (concat (map enc_op example_ops)) = unat (0x100B :: addr)"
  "alloc_ok example_host"
  "run_ops (bind_address_for_segment_offset example_bind_context) example_ops init_regs =
     [(Some (lit ''_puts''), 0x200001010)]"
  "b_list example_bind_context = []"
proof -
  have mem: "mem example_bind_context = map_file Map.empty 0x1000 (concat (map enc_op example_ops))"
    by (simp add: example_bind_context_def zero_context_def)
  show "holds (mem example_bind_context) 0x1000 (concat (map enc_op example_ops))"
    unfolding mem by (rule map_file_holds) (simp_all add: example_bytes)
  show "\<forall>x\<in>set example_ops. wf_op x" by (simp add: example_ops_def lit_def)
  show "unat (0x1000 :: addr) + length (concat (map enc_op example_ops)) = unat (0x100B :: addr)"
    by (simp only: example_bytes) simp
  show "alloc_ok example_host" by (simp add: alloc_ok_def example_host_def)
  show "run_ops (bind_address_for_segment_offset example_bind_context) example_ops init_regs =
      [(Some (lit ''_puts''), 0x200001010)]"
    by (simp add: example_ops_def example_bind_context_def example_segments_def init_regs_def
        emitted_run_def bind_address_for_segment_offset_def zero_context_def)
  show "b_list example_bind_context = []" by (simp add: example_bind_context_def zero_context_def)
qed

lemma bind_list_retriever_refines_witness:
  "\<exists>xs. bind_list_retriever example_host example_bind_context 0x1000 0x100B =
      Ok (example_bind_context\<lparr>b_list := xs\<rparr>) \<and>
    list_all2 (entry_ok (mem example_bind_context)) xs [(Some (lit ''_puts''), 0x200001010)]"
  using bind_list_retriever_refines [OF example_stream(1-4)] by (simp add: example_stream(5,6) INT_MAX_def)

section \<open>Any stream\<close>

text \<open>A run that appends entries with a property to the bind list and changes nothing else.\<close>

definition appends :: "(bind_info \<Rightarrow> bool) \<Rightarrow> mach_context \<Rightarrow> mach_context \<Rightarrow> bool" where
  "appends P c d \<longleftrightarrow> (\<exists>xs. d = c\<lparr>b_list := b_list c @ xs\<rparr> \<and> list_all P xs)"

lemma appends_refl: "appends P c c"
  unfolding appends_def by (rule exI [of _ "[]"]) simp

lemma appends_one: "P x \<Longrightarrow> appends P c (c\<lparr>b_list := b_list c @ [x]\<rparr>)"
  unfolding appends_def by (rule exI [of _ "[x]"]) simp

lemma appends_trans: "appends P c d \<Longrightarrow> appends P d e \<Longrightarrow> appends P c e"
proof -
  assume "appends P c d" and "appends P d e"
  then obtain xs ys where "d = c\<lparr>b_list := b_list c @ xs\<rparr>" "e = d\<lparr>b_list := b_list d @ ys\<rparr>" "list_all P (xs @ ys)"
    by (auto simp: appends_def)
  then show ?thesis unfolding appends_def by (intro exI [of _ "xs @ ys"]) simp
qed

lemma appends_mono: "appends P c d \<Longrightarrow> (\<And>x. P x \<Longrightarrow> Q x) \<Longrightarrow> appends Q c d"
  unfolding appends_def by (metis list_all_iff)

text \<open>An address other than null is recorded only for a segment that is in the table and mapped.\<close>

definition segment_ready :: "mach_context \<Rightarrow> int \<Rightarrow> bool" where
  "segment_ready c i \<longleftrightarrow> 0 \<le> i \<and> i < int (n_segment_info c) \<and> mapped_addr (segments c ! nat i) \<noteq> 0"

lemma segment_ready_binds [simp]: "segment_ready (c\<lparr>b_list := xs\<rparr>) i = segment_ready c i"
  by (simp add: segment_ready_def)

lemma bind_address_ready: "bind_address_for_segment_offset c i off \<noteq> 0 \<Longrightarrow> segment_ready c i"
  by (auto simp: bind_address_for_segment_offset_def segment_ready_def Let_def split: if_splits)

text \<open>What a run of emitted binds records: the name and segment of the cursor.\<close>

definition at_cursor :: "bind_state \<Rightarrow> bind_info \<Rightarrow> bool" where
  "at_cursor s x \<longleftrightarrow> func_name x = symbol_name (fst s) \<and>
     (bind_address x \<noteq> 0 \<longrightarrow> segment_ready (snd s) (segment_index (fst s)))"

definition recorded :: "bind_state \<Rightarrow> bind_state \<Rightarrow> bool" where
  "recorded s s' \<longleftrightarrow>
     bp (fst s') = bp (fst s) \<and> symbol_name (fst s') = symbol_name (fst s) \<and>
     segment_index (fst s') = segment_index (fst s) \<and> appends (at_cursor s) (snd s) (snd s')"

lemma recorded_trans:
  assumes "recorded s t" and "recorded t u"
  shows "recorded s u"
proof -
  obtain xs where "snd t = (snd s)\<lparr>b_list := xs\<rparr>"
    using assms(1) by (auto simp: recorded_def appends_def)
  then have "at_cursor t = at_cursor s"
    using assms(1) by (intro ext) (simp add: at_cursor_def recorded_def)
  then show ?thesis using assms appends_trans by (auto simp: recorded_def)
qed

lemma emit_bind_recorded: "emit_bind h stride s = Ok s' \<Longrightarrow> recorded s s'"
  by (auto simp: emit_bind_def recorded_def at_cursor_def res_bind_eq_Ok dest!: append_bind_info_frame
      split: prod.splits intro!: appends_one) (metis bind_address_ready)

interpretation emit_record: framed_op recorded "emit_bind h"
proof unfold_locales
  show "recorded s s" for s by (simp add: recorded_def appends_refl)
qed (fact recorded_trans emit_bind_recorded)+

text \<open>What every entry of a parsed stream satisfies, whatever the bytes.\<close>

definition stream_name :: "memory \<Rightarrow> addr \<Rightarrow> addr \<Rightarrow> addr \<Rightarrow> bool" where
  "stream_name m start e p \<longleftrightarrow> p = 0 \<or> start < p \<and> p \<le> e \<and> is_ok (c_string m p)"

definition stream_entry :: "mach_context \<Rightarrow> addr \<Rightarrow> addr \<Rightarrow> bind_info \<Rightarrow> bool" where
  "stream_entry c start e x \<longleftrightarrow>
     stream_name (mem c) start e (func_name x) \<and>
     (bind_address x \<noteq> 0 \<longrightarrow> (\<exists>i < 16. segment_ready c i))"

definition stream_state :: "mach_context \<Rightarrow> addr \<Rightarrow> addr \<Rightarrow> bind_state \<Rightarrow> bool" where
  "stream_state c start e s \<longleftrightarrow>
     (bp (fst s) = 0 \<or> start \<le> bp (fst s)) \<and> stream_name (mem c) start e (symbol_name (fst s)) \<and>
     segment_index (fst s) < 16 \<and> appends (stream_entry c start e) c (snd s)"

lemma stream_state_recorded:
  assumes st: "stream_state c start e (cur, d)" and rec: "recorded (cur\<lparr>bp := q\<rparr>, d) (cur', d')"
  shows "symbol_name cur' = symbol_name cur \<and> segment_index cur' = segment_index cur \<and>
    appends (stream_entry c start e) c d'"
proof -
  have "segment_ready d = segment_ready c"
    using st by (intro ext) (auto simp: stream_state_def appends_def)
  then have "appends (stream_entry c start e) d d'"
    using st rec by (auto simp: stream_state_def recorded_def at_cursor_def stream_entry_def elim!: appends_mono)
  then show ?thesis
    using st rec appends_trans by (auto simp: stream_state_def recorded_def)
qed

lemma forward_start: "start \<le> p \<Longrightarrow> forward p q \<Longrightarrow> q = 0 \<or> start \<le> q"
  by (auto simp: forward_def word_le_nat_alt)

lemma immediate_less: "uint (b AND BIND_IMMEDIATE_MASK) < 16"
proof -
  have "b AND BIND_IMMEDIATE_MASK \<le> 0x0F" unfolding BIND_IMMEDIATE_MASK_def by (rule word_and_le1)
  then show ?thesis by (simp add: word_le_def)
qed

lemma bind_step_stream:
  assumes st: "stream_state c start e (cur, d)" and lt: "bp cur < e" and run: "bind_step h e (cur, d) = Ok (cur', d')"
  shows "stream_state c start e (cur', d')"
proof -
  have fwd: "bp cur \<noteq> 0" "forward (bp cur) (bp cur')" using bind_step_forward [OF run lt] by simp_all
  then have q: "bp cur' = 0 \<or> start \<le> bp cur'" and start: "start \<le> bp cur"
    using st forward_start by (auto simp: stream_state_def)
  have m: "mem d = mem c" using st by (auto simp: stream_state_def appends_def)
  have name: "\<forall>s. c_string (mem d) (bp cur + 1) = Ok s \<longrightarrow> stream_name (mem c) start e (bp cur + 1)"
    using m start lt unat_plus_one [OF lt] by (auto simp: stream_name_def word_less_nat_alt word_le_nat_alt)
  have old: "stream_name (mem c) start e (symbol_name cur)" "segment_index cur < 16" "appends (stream_entry c start e) c d"
    using st by (simp_all add: stream_state_def)
  have "stream_name (mem c) start e (symbol_name cur') \<and> segment_index cur' < 16 \<and> appends (stream_entry c start e) c d'"
    using run old name
    apply (simp add: bind_step_def Let_def res_bind_eq_Ok)
    apply (elim exE conjE)
    apply (simp split: if_splits)
    apply (auto simp: res_bind_eq_Ok immediate_less
      dest!: emit_bind_recorded emit_record.loop_R stream_state_recorded [OF st])
    done
  then show ?thesis using q by (simp add: stream_state_def)
qed

lemma bind_loop_stream:
  "bind_loop h e s = Ok s' \<Longrightarrow> stream_state c start e s \<Longrightarrow> stream_state c start e s'"
proof (induction h e s rule: bind_loop.induct)
  case (1 h e s)
  show ?case
  proof (cases "bp (fst s) < e")
    case True
    then obtain t where t: "bind_step h e s = Ok t" "bind_loop h e t = Ok s'"
      using "1.prems"(1) by (auto simp: bind_loop.simps [of h e s])
    then have "stream_state c start e t"
      using bind_step_stream [of c start e "fst s" "snd s" h "fst t" "snd t"] "1.prems"(2) True by simp
    from "1.IH" [OF True t this] show ?thesis .
  next
    case False
    then show ?thesis using "1.prems" by (simp add: bind_loop.simps [of h e s])
  qed
qed

lemma bind_list_retriever_entries:
  assumes "bind_list_retriever h c start e = Ok c'"
  shows "\<exists>xs. c' = c\<lparr>b_list := b_list c @ xs\<rparr> \<and> list_all (stream_entry c start e) xs \<and> (ctx_ok c \<longrightarrow> ctx_ok c')"
proof -
  let ?cur = "\<lparr>bp = start, symbol_name = 0, segment_index = -1, segment_offset = 0\<rparr>"
  obtain cur where run: "bind_loop h e (?cur, c) = Ok (cur, c')"
    using assms by (auto simp: bind_list_retriever_def res_bind_eq_Ok)
  have "stream_state c start e (?cur, c)" by (simp add: stream_state_def stream_name_def appends_refl)
  from bind_loop_stream [OF run this] obtain xs
    where "c' = c\<lparr>b_list := b_list c @ xs\<rparr>" "list_all (stream_entry c start e) xs"
    by (auto simp: stream_state_def appends_def)
  moreover have "ctx_ok c \<longrightarrow> ctx_ok c'"
    using bind_list_retriever_binds [OF assms] only_binds_extends extends_ok by blast
  ultimately show ?thesis by blast
qed

text \<open>C31: invariant. Whatever the bytes between \<open>start\<close> and \<open>end\<close> are, a run of the parser that
  returns has only appended entries to the bind list (its counter still within an \<open>int\<close>), and
  no pointer, table or byte of memory changed. Each appended entry has a null name or a
  terminated C string that begins behind \<open>start\<close> and not behind \<open>end\<close>, and an address other than
  null is recorded only when one of the first sixteen segments is in the table and mapped.\<close>

theorem bind_list_retriever_only_appends:
  assumes "bind_list_retriever h c start e = Ok c'"
  shows "\<exists>xs. c' = c\<lparr>b_list := b_list c @ xs\<rparr> \<and> (ctx_ok c \<longrightarrow> ctx_ok c') \<and>
    (\<forall>x\<in>set xs.
       (func_name x = 0 \<or> start < func_name x \<and> func_name x \<le> e \<and> is_ok (c_string (mem c) (func_name x))) \<and>
       (bind_address x \<noteq> 0 \<longrightarrow>
          (\<exists>i < 16. 0 \<le> i \<and> i < int (n_segment_info c) \<and> mapped_addr (segments c ! nat i) \<noteq> 0)))"
  using bind_list_retriever_entries [OF assms]
  by (auto simp: list_all_iff stream_entry_def stream_name_def segment_ready_def)

lemma bind_list_retriever_only_appends_witness:
  "\<exists>c' x. bind_list_retriever example_host example_bind_context 0x1000 0x100B = Ok c' \<and>
    b_list c' = [x] \<and> bind_address x = 0x200001010 \<and>
    0x1000 < func_name x \<and> func_name x \<le> 0x100B \<and> c_string (mem c') (func_name x) = Ok (lit ''_puts'')"
proof -
  let ?c = example_bind_context
  obtain xs where run: "bind_list_retriever example_host ?c 0x1000 0x100B = Ok (?c\<lparr>b_list := xs\<rparr>)"
    and xs: "list_all2 (entry_ok (mem ?c)) xs [(Some (lit ''_puts''), 0x200001010)]"
    using bind_list_retriever_ops [OF example_stream(1,2,2,3,4)] by (auto simp: example_stream(5,6) INT_MAX_def)
  from xs obtain x where x: "xs = [x]" "entry_ok (mem ?c) x (Some (lit ''_puts''), 0x200001010)"
    by (auto simp: list_all2_Cons2)
  then have name: "c_string (mem ?c) (func_name x) = Ok (lit ''_puts'')" "bind_address x = 0x200001010"
    by (simp_all add: entry_ok_def sym_ok_def)
  have "func_name x \<noteq> 0"
  proof
    assume "func_name x = 0"
    then show False using name(1) by (simp add: c_string_iff lit_def)
  qed
  moreover obtain ys where "?c\<lparr>b_list := xs\<rparr> = ?c\<lparr>b_list := b_list ?c @ ys\<rparr>"
    and ys: "\<forall>y\<in>set ys. func_name y = 0 \<or> 0x1000 < func_name y \<and> func_name y \<le> 0x100B"
    using bind_list_retriever_only_appends [OF run] by blast
  from arg_cong [OF this(1), of b_list] have "ys = [x]" by (simp add: x(1) example_stream(6))
  ultimately have "0x1000 < func_name x \<and> func_name x \<le> 0x100B" using ys by simp
  then show ?thesis using run x(1) name by auto
qed

end
