(* ===== verification/Mal_Binder.thy ===== *)
theory Mal_Binder
  imports Mal_Bind_Stream Mal_Resolver
begin

unbundle bit_operations_syntax

text \<open>
  The list of libraries and the binder: \<open>dylib_list_retriever\<close> of \<^verbatim>\<open>main.c\<close> and \<open>do_bind\<close>
  of \<^verbatim>\<open>bind.c\<close>. The two nested loops of \<open>do_bind\<close> are \<open>for_upto\<close> loops over \<open>bind_library\<close>
  and \<open>bind_symbol\<close>.

  \<^item> The binder appends the two default libraries, writes only at recorded bind addresses
    above the image's start, and changes nothing else.
  \<^item> Refinement: every bind address ends up with the address from the last library that
    provides the symbol (\<open>bound_value\<close>), whatever library the file asked for.
\<close>

section \<open>Definitions\<close>

definition sizeof_dylib_info :: nat where "sizeof_dylib_info = 8"

definition dylib_list_retriever :: "host \<Rightarrow> mach_context \<Rightarrow> dylib_name \<Rightarrow> mach_context res" where
  "dylib_list_retriever h c name =
     (let n = length (d_list c) in
      if INT_MAX \<le> n then Fault Signed_Overflow
      else if \<not> host_alloc h (sizeof_dylib_info * (n + 1)) then Fault Null_Alloc
      else Ok (c\<lparr>d_list := d_list c @ [name]\<rparr>))"

fun dylib_string :: "memory \<Rightarrow> dylib_name \<Rightarrow> cstr res" where
  "dylib_string m (In_Memory p) = c_string m p"
| "dylib_string m (Literal s) = Ok s"

text \<open>
  One symbol of one library. Both messages print the name (a null name as \<^verbatim>\<open>(null)\<close>, the
  way glibc does). The name is compared and looked up without its first underscore.
\<close>

definition bind_symbol :: "host \<Rightarrow> addr \<Rightarrow> nat \<Rightarrow> mach_context \<Rightarrow> mach_context res" where
  "bind_symbol h library j c =
     (let name = func_name (b_list c ! j); address = bind_address (b_list c ! j) in
      res_bind (if name = 0 then Ok [] else c_string (mem c) name) (\<lambda>_.
      if address \<le> img_addr c then Ok c
      else
        res_bind (c_string (mem c) name) (\<lambda>s0.
        let s = strip_underscore s0;
            store = (\<lambda>v. res_bind (store64 (mem c) address v) (\<lambda>m. Ok (c\<lparr>mem := m\<rparr>)))
        in
        if s = lit ''mmap'' then store (host_shim h Host_Mmap_For_Darwin)
        else if s = lit ''__stack_chk_guard'' then store (host_shim h Guard)
        else
          let initializer = host_dlsym h library s in
          if initializer = 0 then Ok c else store initializer)))"

definition bind_library :: "host \<Rightarrow> nat \<Rightarrow> mach_context \<Rightarrow> mach_context res" where
  "bind_library h i c =
     res_bind (dylib_string (mem c) (d_list c ! i)) (\<lambda>name.
     let library = host_dlopen h name in
     if library = 0 then Ok c
     else for_upto 0 (length (b_list c)) (bind_symbol h library) c)"

definition do_bind :: "host \<Rightarrow> mach_context \<Rightarrow> (int \<times> mach_context) res" where
  "do_bind h c =
     res_bind (dylib_list_retriever h c (Literal (lit ''libc.so.6''))) (\<lambda>c1.
     res_bind (dylib_list_retriever h c1 (Literal (lit ''libm.so.6''))) (\<lambda>c2.
     res_bind (for_upto 0 (length (d_list c2)) (bind_library h) c2) (\<lambda>c3. Ok (0, c3))))"

section \<open>Frame\<close>

lemma dylib_list_retriever_Ok:
  "dylib_list_retriever h c name = Ok c' \<longleftrightarrow>
     length (d_list c) < INT_MAX \<and> host_alloc h (sizeof_dylib_info * (length (d_list c) + 1)) \<and>
     c' = c\<lparr>d_list := d_list c @ [name]\<rparr>"
  by (auto simp: dylib_list_retriever_def Let_def)

lemma dylib_list_retriever_extends: "dylib_list_retriever h c name = Ok c' \<Longrightarrow> extends c c'"
  by (auto simp: dylib_list_retriever_Ok extends_def ctx_ok_def)

text \<open>What binding may change: bytes of mapped memory.\<close>

definition only_stores :: "mach_context \<Rightarrow> mach_context \<Rightarrow> bool" where
  "only_stores c c' \<longleftrightarrow> (\<exists>m. c' = c\<lparr>mem := m\<rparr> \<and> dom m = dom (mem c))"

lemma only_stores_refl [simp]: "only_stores c c"
  unfolding only_stores_def by (rule exI [of _ "mem c"]) simp

lemma only_stores_trans: "only_stores c d \<Longrightarrow> only_stores d e \<Longrightarrow> only_stores c e"
  by (auto simp: only_stores_def)

lemma only_stores_store: "store64 (mem c) p v = Ok m \<Longrightarrow> only_stores c (c\<lparr>mem := m\<rparr>)"
  unfolding only_stores_def using store64_dom by blast

lemma only_stores_extends: "only_stores c c' \<Longrightarrow> extends c c'"
  by (auto simp: only_stores_def intro: extends_mem)

lemma bind_symbol_frame: "bind_symbol h library j c = Ok c' \<Longrightarrow> only_stores c c'"
  by (auto simp: bind_symbol_def Let_def res_bind_eq_Ok intro: only_stores_store split: if_splits)

interpretation symbols: framed_op only_stores "bind_symbol h library"
  by unfold_locales (auto intro: only_stores_trans bind_symbol_frame)

lemma bind_library_frame: "bind_library h i c = Ok c' \<Longrightarrow> only_stores c c'"
  using symbols.loop_R [where g = "\<lambda>j. j"]
  by (auto simp: bind_library_def Let_def res_bind_eq_Ok split: if_splits)

interpretation libraries: framed_op only_stores "bind_library h"
  by unfold_locales (auto intro: only_stores_trans bind_library_frame)

definition default_libs :: "dylib_name list" where
  "default_libs = [Literal (lit ''libc.so.6''), Literal (lit ''libm.so.6'')]"

lemma do_bind_frame:
  assumes "do_bind h c = Ok (r, c')"
  shows "r = 0 \<and> only_stores (c\<lparr>d_list := d_list c @ default_libs\<rparr>) c' \<and> extends c c'"
proof -
  let ?c = "c\<lparr>d_list := d_list c @ default_libs\<rparr>"
  have r: "r = 0" and run: "for_upto 0 (length (d_list ?c)) (bind_library h) ?c = Ok c'"
    and len: "length (d_list c) + 2 \<le> INT_MAX"
    using assms by (auto simp: do_bind_def res_bind_eq_Ok dylib_list_retriever_Ok default_libs_def)
  have "only_stores ?c c'" using run libraries.loop_R [where g = "\<lambda>i. i"] by simp
  moreover have "extends c ?c" using len by (simp add: extends_def ctx_ok_def default_libs_def)
  ultimately show ?thesis using r only_stores_extends extends_trans by blast
qed

section \<open>What a symbol is bound to\<close>

text \<open>What one library offers for a symbol: the replacements come first, 0 is nothing.\<close>

definition offer :: "host \<Rightarrow> cstr \<Rightarrow> addr \<Rightarrow> addr" where
  "offer h s library =
     (if s = lit ''mmap'' then host_shim h Host_Mmap_For_Darwin
      else if s = lit ''__stack_chk_guard'' then host_shim h Guard
      else host_dlsym h library s)"

definition replaced :: "cstr \<Rightarrow> bool" where
  "replaced s \<longleftrightarrow> s = lit ''mmap'' \<or> s = lit ''__stack_chk_guard''"

definition take_offer :: "host \<Rightarrow> cstr \<Rightarrow> addr \<Rightarrow> u64 \<Rightarrow> u64" where
  "take_offer h s library v =
     (if replaced s \<or> offer h s library \<noteq> 0 then offer h s library else v)"

text \<open>The value of a bind location after the libraries \<open>libs\<close>, 0 being one that was not found.\<close>

definition bound_value :: "host \<Rightarrow> addr list \<Rightarrow> cstr \<Rightarrow> u64 \<Rightarrow> u64" where
  "bound_value h libs name v =
     fold (\<lambda>l v. if l = 0 then v else take_offer h (strip_underscore name) l v) libs v"

lemma bound_value_Nil [simp]: "bound_value h [] name v = v"
  by (simp add: bound_value_def)

lemma bound_value_snoc:
  "bound_value h (libs @ [l]) name v =
     (if l = 0 then bound_value h libs name v
      else take_offer h (strip_underscore name) l (bound_value h libs name v))"
  by (simp add: bound_value_def)

text \<open>The last library that has the symbol wins; the libraries after it do not matter.\<close>

lemma bound_value_last:
  assumes "l \<noteq> 0" and "offer h (strip_underscore name) l \<noteq> 0" and "\<not> replaced (strip_underscore name)"
    and "\<And>l'. l' \<in> set libs' \<Longrightarrow> l' = 0 \<or> offer h (strip_underscore name) l' = 0"
  shows "bound_value h (libs @ l # libs') name v = offer h (strip_underscore name) l"
  using assms(4)
proof (induction libs' rule: rev_induct)
  case Nil
  then show ?case using assms(1,2) by (simp add: bound_value_snoc take_offer_def)
next
  case (snoc l' ls)
  then have "bound_value h (libs @ l # ls) name v = offer h (strip_underscore name) l" by simp
  then show ?case using snoc.prems [of l'] assms(3) bound_value_snoc [of h "libs @ l # ls" l' name v]
    by (auto simp: take_offer_def)
qed

section \<open>Refinement\<close>

definition active :: "mach_context \<Rightarrow> nat \<Rightarrow> bool" where
  "active c k \<longleftrightarrow> k < length (b_list c) \<and> img_addr c < bind_address (b_list c ! k)"

text \<open>
  The layout the refinement needs: symbol names \<open>ss\<close> and library names \<open>ns\<close> are strings in
  memory, every bind location above the image start is mapped, and no such location overlaps
  another one or a name.
\<close>

definition clear_of_binds :: "mach_context \<Rightarrow> addr \<Rightarrow> nat \<Rightarrow> bool" where
  "clear_of_binds c p n \<longleftrightarrow> (\<forall>k. active c k \<longrightarrow> apart (bind_address (b_list c ! k)) 8 p n)"

definition binds_laid :: "mach_context \<Rightarrow> cstr list \<Rightarrow> bool" where
  "binds_laid c ss \<longleftrightarrow> length ss = length (b_list c) \<and>
     (\<forall>k < length ss. c_string (mem c) (func_name (b_list c ! k)) = Ok (ss ! k) \<and>
        clear_of_binds c (func_name (b_list c ! k)) (length (ss ! k) + 1)) \<and>
     (\<forall>k. active c k \<longrightarrow> mapped (mem c) (bind_address (b_list c ! k)) 8) \<and>
     (\<forall>j k. active c j \<longrightarrow> active c k \<longrightarrow> j \<noteq> k \<longrightarrow>
        apart (bind_address (b_list c ! j)) 8 (bind_address (b_list c ! k)) 8)"

fun library_named :: "mach_context \<Rightarrow> dylib_name \<Rightarrow> cstr \<Rightarrow> bool" where
  "library_named c (In_Memory p) n \<longleftrightarrow>
     c_string (mem c) p = Ok n \<and> clear_of_binds c p (length n + 1)"
| "library_named c (Literal s) n \<longleftrightarrow> n = s"

text \<open>The state between two steps: \<open>vs k\<close> is in location \<open>k\<close>, all else is as in \<open>c\<close>.\<close>

definition bound_state :: "mach_context \<Rightarrow> (nat \<Rightarrow> u64) \<Rightarrow> mach_context \<Rightarrow> bool" where
  "bound_state c vs t \<longleftrightarrow> only_stores c t \<and>
     (\<forall>k. active c k \<longrightarrow> load64 (mem t) (bind_address (b_list c ! k)) = Ok (vs k)) \<and>
     (\<forall>a. (\<forall>k. active c k \<longrightarrow> a \<notin> region (bind_address (b_list c ! k)) 8) \<longrightarrow> mem t a = mem c a)"

lemma bound_state_string:
  assumes "bound_state c vs t" and "c_string (mem c) p = Ok s" and "clear_of_binds c p (length s + 1)"
  shows "c_string (mem t) p = Ok s"
proof -
  have "holds (mem t) p (s @ [0])"
  proof (rule holds_cong)
    show "holds (mem c) p (s @ [0])" using assms(2) by (simp add: c_string_iff)
    fix a assume "a \<in> region p (length (s @ [0]))"
    then have "\<forall>k. active c k \<longrightarrow> a \<notin> region (bind_address (b_list c ! k)) 8"
      using assms(3) by (auto simp: clear_of_binds_def apart_def region_def)
    then show "mem t a = mem c a" using assms(1) by (simp add: bound_state_def)
  qed
  then show ?thesis using assms(2) by (simp add: c_string_iff)
qed

lemma bound_state_fields:
  "bound_state c vs t \<Longrightarrow>
     b_list t = b_list c \<and> d_list t = d_list c \<and> img_addr t = img_addr c \<and> dom (mem t) = dom (mem c)"
proof -
  assume "bound_state c vs t"
  then obtain m where "t = c\<lparr>mem := m\<rparr>" "dom m = dom (mem c)"
    by (auto simp: bound_state_def only_stores_def)
  then show ?thesis by simp
qed

lemma bound_state_store:
  assumes st: "bound_state c vs t" and laid: "binds_laid c ss" and k: "active c k"
  shows "\<exists>m. store64 (mem t) (bind_address (b_list c ! k)) v = Ok m \<and>
    bound_state c (vs(k := v)) (t\<lparr>mem := m\<rparr>)"
proof -
  let ?p = "bind_address (b_list c ! k)"
  have "mapped (mem c) ?p 8" using laid k by (simp add: binds_laid_def)
  moreover have "mapped (mem t) ?p 8 = mapped (mem c) ?p 8"
    using bound_state_fields [OF st] by (intro mapped_dom_cong) (metis domIff)
  ultimately obtain m where m: "store64 (mem t) ?p v = Ok m"
    using store64_total [of "mem t" ?p v] by (auto simp: is_ok_iff)
  have "load64 m (bind_address (b_list c ! j)) = Ok ((vs(k := v)) j)" if "active c j" for j
  proof (cases "j = k")
    case True
    then show ?thesis using store64_load64 [OF m] by simp
  next
    case False
    then have "apart ?p 8 (bind_address (b_list c ! j)) 8"
      using laid k that unfolding binds_laid_def by blast
    then show ?thesis using False st that store64_load64_other [OF m] by (simp add: bound_state_def)
  qed
  moreover have "only_stores c (t\<lparr>mem := m\<rparr>)"
    using st only_stores_store [OF m] only_stores_trans by (auto simp: bound_state_def)
  moreover have "m a = mem c a" if "\<forall>k. active c k \<longrightarrow> a \<notin> region (bind_address (b_list c ! k)) 8" for a
    using that k st store64_other [OF m] by (simp add: bound_state_def)
  ultimately show ?thesis using m by (auto simp: bound_state_def)
qed

lemma bind_symbol_step:
  assumes st: "bound_state c vs t" and laid: "binds_laid c ss" and j: "j < length ss"
  shows "\<exists>t'. bind_symbol h l j t = Ok t' \<and>
    bound_state c (vs(j := take_offer h (strip_underscore (ss ! j)) l (vs j))) t'"
proof -
  let ?s = "strip_underscore (ss ! j)"
  let ?p = "bind_address (b_list c ! j)"
  have "c_string (mem c) (func_name (b_list c ! j)) = Ok (ss ! j)"
    "clear_of_binds c (func_name (b_list c ! j)) (length (ss ! j) + 1)"
    using laid j by (simp_all add: binds_laid_def)
  note name = bound_state_string [OF st this]
  note fields = bound_state_fields [OF st]
  have act: "active c j \<longleftrightarrow> img_addr c < ?p" using laid j by (simp add: active_def binds_laid_def)
  show ?thesis
  proof (cases "active c j")
    case False
    then have "bind_symbol h l j t = Ok t"
      using name fields act by (simp add: bind_symbol_def Let_def not_less)
    moreover have "bound_state c (vs(j := v)) t" for v
      using st False by (auto simp: bound_state_def)
    ultimately show ?thesis by blast
  next
    case True
    then have "\<not> ?p \<le> img_addr c" using act by (simp add: not_le)
    then have run: "bind_symbol h l j t =
        (if replaced ?s \<or> offer h ?s l \<noteq> 0
         then res_bind (store64 (mem t) ?p (offer h ?s l)) (\<lambda>m. Ok (t\<lparr>mem := m\<rparr>)) else Ok t)"
      using name fields
      by (simp add: bind_symbol_def Let_def replaced_def offer_def)
    show ?thesis
    proof (cases "replaced ?s \<or> offer h ?s l \<noteq> 0")
      case True
      then show ?thesis using bound_state_store [OF st laid \<open>active c j\<close>, of "offer h ?s l"] run
        by (auto simp: take_offer_def)
    next
      case False
      then show ?thesis using st run by (auto simp: take_offer_def)
    qed
  qed
qed

lemma bind_symbols_all:
  assumes st: "bound_state c vs t" and laid: "binds_laid c ss"
  shows "\<exists>t'. for_upto 0 (length ss) (bind_symbol h l) t = Ok t' \<and>
    bound_state c (\<lambda>k. if k < length ss then take_offer h (strip_underscore (ss ! k)) l (vs k) else vs k) t'"
proof -
  let ?v = "\<lambda>j k. if k < j then take_offer h (strip_underscore (ss ! k)) l (vs k) else vs k"
  have "\<exists>t'. for_upto 0 (length ss) (bind_symbol h l) t = Ok t' \<and> bound_state c (?v (length ss)) t'"
  proof (rule for_upto_total)
    show "bound_state c (?v 0) t" using st by simp
    fix j u assume j: "j < length ss" and u: "bound_state c (?v j) u"
    have "(?v j)(j := take_offer h (strip_underscore (ss ! j)) l (?v j j)) = ?v (Suc j)"
      by (rule ext) auto
    then show "\<exists>u'. bind_symbol h l j u = Ok u' \<and> bound_state c (?v (Suc j)) u'"
      using bind_symbol_step [OF u laid j, of h l] by simp
  qed simp
  then show ?thesis .
qed

lemma library_string:
  assumes "bound_state c vs t" and "library_named c d n"
  shows "dylib_string (mem t) d = Ok n"
  using assms bound_state_string by (cases d) auto

lemma bind_libraries_all:
  assumes laid: "binds_laid c ss" and ns: "list_all2 (library_named c) (d_list c) ns"
    and start: "bound_state c vs c"
  shows "\<exists>t. for_upto 0 (length (d_list c)) (bind_library h) c = Ok t \<and>
    bound_state c (\<lambda>k. if k < length ss then bound_value h (map (host_dlopen h) ns) (ss ! k) (vs k) else vs k) t"
proof -
  let ?v = "\<lambda>i k. if k < length ss then bound_value h (map (host_dlopen h) (take i ns)) (ss ! k) (vs k) else vs k"
  have len: "length ns = length (d_list c)" using ns by (simp add: list_all2_lengthD)
  have res: "\<exists>t. for_upto 0 (length (d_list c)) (bind_library h) c = Ok t \<and>
      bound_state c (?v (length (d_list c))) t"
  proof (rule for_upto_total)
    have "?v 0 = vs" by (rule ext) simp
    then show "bound_state c (?v 0) c" using start by simp
    fix i u assume i: "i < length (d_list c)" and u: "bound_state c (?v i) u"
    let ?l = "host_dlopen h (ns ! i)"
    have take: "map (host_dlopen h) (take (Suc i) ns) = map (host_dlopen h) (take i ns) @ [?l]"
      using i len by (simp add: take_Suc_conv_app_nth)
    have name: "dylib_string (mem u) (d_list u ! i) = Ok (ns ! i)"
      using library_string [OF u] list_all2_nthD [OF ns i] bound_state_fields [OF u] by simp
    show "\<exists>u'. bind_library h i u = Ok u' \<and> bound_state c (?v (Suc i)) u'"
    proof (cases "?l = 0")
      case True
      then have "?v (Suc i) = ?v i" by (intro ext) (simp add: take bound_value_snoc)
      then show ?thesis using True name u by (simp add: bind_library_def)
    next
      case False
      then have run: "bind_library h i u = for_upto 0 (length ss) (bind_symbol h ?l) u"
        using name bound_state_fields [OF u] laid by (simp add: bind_library_def binds_laid_def)
      have "(\<lambda>k. if k < length ss then take_offer h (strip_underscore (ss ! k)) ?l (?v i k) else ?v i k) =
          ?v (Suc i)"
        using False by (intro ext) (simp add: take bound_value_snoc)
      then show ?thesis using bind_symbols_all [OF u laid, of h ?l] run by simp
    qed
  qed simp
  have all: "take (length (d_list c)) ns = ns" using len by simp
  show ?thesis using res unfolding all .
qed

lemma do_bind_run:
  assumes alloc: "alloc_ok h" and room: "length (d_list c) + 2 \<le> INT_MAX"
    and laid: "binds_laid c ss" and ns: "list_all2 (library_named c) (d_list c) ns"
  shows "\<exists>c'. do_bind h c = Ok (0, c') \<and>
    only_stores (c\<lparr>d_list := d_list c @ default_libs\<rparr>) c' \<and>
    (\<forall>k v. active c k \<longrightarrow> load64 (mem c) (bind_address (b_list c ! k)) = Ok v \<longrightarrow>
       load64 (mem c') (bind_address (b_list c ! k)) =
         Ok (bound_value h (map (host_dlopen h) (ns @ [lit ''libc.so.6'', lit ''libm.so.6'']))
               (ss ! k) v)) \<and>
    (\<forall>a. (\<forall>k. active c k \<longrightarrow> a \<notin> region (bind_address (b_list c ! k)) 8) \<longrightarrow> mem c' a = mem c a)"
proof -
  let ?c = "c\<lparr>d_list := d_list c @ default_libs\<rparr>"
  let ?ns = "ns @ [lit ''libc.so.6'', lit ''libm.so.6'']"
  let ?vs = "\<lambda>k. case load64 (mem c) (bind_address (b_list c ! k)) of Inr v \<Rightarrow> v | Inl _ \<Rightarrow> 0"
  have same: "active ?c = active c" by (rule ext) (simp add: active_def)
  then have clear: "clear_of_binds ?c = clear_of_binds c" by (intro ext) (simp add: clear_of_binds_def)
  have laid': "binds_laid ?c ss" using laid by (simp add: binds_laid_def same clear)
  have "library_named ?c = library_named c"
  proof (intro ext)
    show "library_named ?c d n = library_named c d n" for d n by (cases d) (simp_all add: clear)
  qed
  then have ns': "list_all2 (library_named ?c) (d_list ?c) ?ns"
    using ns by (simp add: default_libs_def list_all2_appendI)
  have vs: "load64 (mem c) (bind_address (b_list c ! k)) = Ok (?vs k)" if "active c k" for k
    using laid that load_mapped(3) [of "mem c" "bind_address (b_list c ! k)"]
    by (auto simp: binds_laid_def is_ok_iff)
  then have "bound_state ?c ?vs ?c" by (simp add: bound_state_def same)
  from bind_libraries_all [OF laid' ns' this, of h] obtain c' where
    run: "for_upto 0 (length (d_list ?c)) (bind_library h) ?c = Ok c'"
    and st: "bound_state ?c (\<lambda>k. if k < length ss then bound_value h (map (host_dlopen h) ?ns) (ss ! k) (?vs k)
      else ?vs k) c'" by blast
  have "do_bind h c = Ok (0, c')"
    using run room alloc by (simp add: do_bind_def dylib_list_retriever_def Let_def alloc_ok_def default_libs_def)
  moreover have "k < length ss" if "active c k" for k
    using that laid by (simp add: active_def binds_laid_def)
  ultimately show ?thesis
    using st vs by (intro exI [of _ c']) (auto simp: bound_state_def same)
qed

text \<open>C9: refinement. With the names and locations laid out apart, \<open>do_bind\<close> returns 0 and
  leaves at every recorded bind address above the image start the value \<open>bound_value\<close>: the
  offer of the last opened library that has the symbol (the replacement for \<open>mmap\<close> and the
  stack guard), or the old word when none has it. No other byte of memory changes.\<close>

theorem do_bind_refines:
  assumes alloc: "alloc_ok h" and room: "length (d_list c) + 2 \<le> INT_MAX"
    and laid: "binds_laid c ss" and ns: "list_all2 (library_named c) (d_list c) ns"
  shows "\<exists>c'. do_bind h c = Ok (0, c') \<and>
    only_stores (c\<lparr>d_list := d_list c @ default_libs\<rparr>) c' \<and>
    (\<forall>k v. active c k \<longrightarrow> load64 (mem c) (bind_address (b_list c ! k)) = Ok v \<longrightarrow>
       load64 (mem c') (bind_address (b_list c ! k)) =
         Ok (bound_value h (map (host_dlopen h) (ns @ [lit ''libc.so.6'', lit ''libm.so.6'']))
               (ss ! k) v)) \<and>
    (\<forall>a. (\<forall>k. active c k \<longrightarrow> a \<notin> region (bind_address (b_list c ! k)) 8) \<longrightarrow> mem c' a = mem c a)"
  using assms by (rule do_bind_run)

text \<open>Whatever the bind list holds, \<open>do_bind\<close> returns 0 when it returns; it
  adds the two default libraries, stores into mapped memory only and changes nothing else of
  the context, so the tables keep their invariant.\<close>

theorem do_bind_only_stores:
  "do_bind h c = Ok (r, c') \<Longrightarrow>
   r = 0 \<and> only_stores (c\<lparr>d_list := d_list c @ default_libs\<rparr>) c' \<and> extends c c'"
  by (rule do_bind_frame)

section \<open>Examples\<close>

definition example_binds :: mach_context where
  "example_binds =
     (zero_context (map_anon (map_file Map.empty 0x1000 (lit ''_puts'' @ [0])) 0x200000000 0x1000))
       \<lparr>img_addr := 0x200000000, b_list := [\<lparr>func_name = 0x1000, bind_address = 0x200000010\<rparr>]\<rparr>"

lemma example_binds_mem:
  "mem example_binds = map_anon (map_file Map.empty 0x1000 (lit ''_puts'' @ [0])) 0x200000000 0x1000"
  by (simp add: example_binds_def zero_context_def)

lemma example_binds_string: "c_string (mem example_binds) 0x1000 = Ok (lit ''_puts'')"
proof -
  have "holds (map_file Map.empty 0x1000 (lit ''_puts'' @ [0])) 0x1000 (lit ''_puts'' @ [0])"
    by (rule map_file_holds) (simp_all add: lit_def)
  then have "holds (mem example_binds) 0x1000 (lit ''_puts'' @ [0])"
    unfolding example_binds_mem
    by (rule holds_cong) (auto simp: map_anon_def region_def lit_def)
  then show ?thesis by (simp add: c_string_iff) (simp add: lit_def)
qed

lemma example_binds_active: "active example_binds k \<longleftrightarrow> k = 0"
  by (auto simp: active_def example_binds_def)

lemma example_binds_mapped: "mapped (mem example_binds) 0x200000010 8"
proof -
  have "mapped (mem example_binds) 0x200000000 0x1000"
    unfolding example_binds_mem by (rule map_anon_mapped) simp_all
  from mapped_offset [OF this, of 16 8] show ?thesis by simp
qed

lemma example_binds_laid: "binds_laid example_binds [lit ''_puts'']"
  unfolding binds_laid_def example_binds_active clear_of_binds_def
  using example_binds_string example_binds_mapped
  by (auto simp: example_binds_def apart_def lit_def)

lemma example_binds_old: "load64 (mem example_binds) 0x200000010 = Ok 0"
proof -
  have zero: "word_bytes 8 (0 :: u64) = replicate 8 0" by (simp add: eval_nat_numeral)
  have "holds (map_file Map.empty 0x200000010 (replicate 8 0)) 0x200000010 (replicate 8 0)"
    by (rule map_file_holds) simp_all
  then have "holds (mem example_binds) 0x200000010 (replicate 8 0)"
    unfolding example_binds_mem
    by (rule holds_cong) (auto simp: map_anon_def map_file_def region_def)
  then show ?thesis by (simp only: load64_iff zero)
qed

lemma do_bind_refines_witness:
  "\<exists>c'. do_bind example_host example_binds = Ok (0, c') \<and> load64 (mem c') 0x200000010 = Ok 0x7100"
proof -
  have "alloc_ok example_host" by (simp add: alloc_ok_def example_host_def)
  moreover have "d_list example_binds = []" "bind_address (b_list example_binds ! 0) = 0x200000010"
    by (simp_all add: example_binds_def zero_context_def)
  moreover have "bound_value example_host (map (host_dlopen example_host) [lit ''libc.so.6'', lit ''libm.so.6''])
      (lit ''_puts'') 0 = 0x7100"
    by (simp add: bound_value_def take_offer_def offer_def replaced_def strip_underscore_def
        example_host_def lit_def)
  ultimately show ?thesis
    using do_bind_refines [OF _ _ example_binds_laid, of example_host "[]"] example_binds_old
    by (auto simp: INT_MAX_def example_binds_active)
qed

lemma do_bind_only_stores_witness:
  "\<exists>c'. do_bind example_host (zero_context Map.empty) = Ok (0, c') \<and> d_list c' = default_libs"
proof -
  let ?c = "(zero_context Map.empty)\<lparr>d_list := default_libs\<rparr>"
  have lib: "bind_library example_host i ?c = Ok ?c" if "i < 2" for i
    using that by (auto simp: less_2_cases_iff bind_library_def default_libs_def zero_context_def Let_def)
  have "for_upto 0 (Suc (Suc 0)) (bind_library example_host) ?c = Ok ?c"
    by (simp add: for_upto_Suc lib)
  then have "do_bind example_host (zero_context Map.empty) = Ok (0, ?c)"
    by (simp add: do_bind_def dylib_list_retriever_def default_libs_def INT_MAX_def)
      (simp add: zero_context_def example_host_def)
  with do_bind_only_stores [OF this] show ?thesis
    by (auto simp: only_stores_def zero_context_def default_libs_def)
qed

end
