(* ===== verification/Mal_Loader.thy ===== *)
theory Mal_Loader
  imports Mal_Walk Mal_Segments Mal_Chained Mal_Binder
begin

unbundle bit_operations_syntax

text \<open>
  The walk over the load commands: \<open>loader_64\<close> and \<open>loader\<close> of \<^verbatim>\<open>main.c\<close>. One iteration of
  the loader's loop is \<open>load_step_64\<close> (\<open>load_step_32\<close>); the command dispatch keeps the order of
  the C \<^verbatim>\<open>if\<close> chain.

  \<^item> On the bytes of a well-formed command list the walk visits exactly the commands of
    the list, in order, as long as nothing overwrites them.
    For files without chained fixups, whose segments do not wrap and have no more bytes in the
    file than in memory, nothing ever does.
  \<^item> Every run keeps the table invariant and only extends the state.
  \<^item> A loaded segment is found through its index in the segment table.
\<close>

section \<open>Commands\<close>

text \<open>\<open>LC_DYLD_INFO\<close>: the bind stream, then the lazy bind stream.\<close>

definition load_dyld_info :: "host \<Rightarrow> mach_context \<Rightarrow> mach_context res" where
  "load_dyld_info h c =
     res_bind (read_dyld_info_command (mem c) (ptr c)) (\<lambda>d.
     let start = memblock c + ucast (bind_off d) in
     res_bind (bind_list_retriever h c start (start + ucast (bind_size d))) (\<lambda>c1.
     let start = memblock c1 + ucast (lazy_bind_off d) in
     bind_list_retriever h c1 start (start + ucast (lazy_bind_size d))))"

definition MAIN_SYMBOL :: cstr where "MAIN_SYMBOL = lit ''_main''"

text \<open>
  One symbol of \<open>LC_SYMTAB\<close>. The message is printed for \<open>_main\<close>, whose name has been read
  by then, and for the marker value, where it reads the whole name.
\<close>

definition symbol_step_64 :: "symtab_command \<Rightarrow> nat \<Rightarrow> mach_context \<Rightarrow> mach_context res" where
  "symbol_step_64 t i c =
     res_bind (read_nlist_64 (mem c) (memblock c + ucast (symoff t) + of_nat (16 * i))) (\<lambda>n.
     let symbol = memblock c + ucast (stroff t) + ucast (n_strx n) in
     res_bind (str_eq (mem c) symbol MAIN_SYMBOL) (\<lambda>is_main.
     res_bind (if \<not> is_main \<and> n_value n = 0xffffffff00000000 then c_string (mem c) symbol else Ok [])
       (\<lambda>_.
     int_increment i
       (if is_main then c\<lparr>entry_point := n_value n - v_addr c + img_addr c\<rparr> else c))))"

definition load_symtab_64 :: "mach_context \<Rightarrow> mach_context res" where
  "load_symtab_64 c =
     res_bind (read_symtab_command (mem c) (ptr c)) (\<lambda>t.
     for_upto 0 (unat (nsyms t)) (symbol_step_64 t) c)"

definition load_dylib :: "host \<Rightarrow> mach_context \<Rightarrow> mach_context res" where
  "load_dylib h c =
     res_bind (load32 (mem c) (ptr c + 8)) (\<lambda>off.
     let name = ptr c + ucast off in
     res_bind (c_string (mem c) name) (\<lambda>_.
     dylib_list_retriever h c (In_Memory name)))"

definition load_chained_fixups :: "host \<Rightarrow> mach_context \<Rightarrow> mach_context res" where
  "load_chained_fixups h c =
     res_bind (load32 (mem c) (ptr c + 8)) (\<lambda>off.
     res_bind (load32 (mem c) (ptr c + 12)) (\<lambda>sz.
     dump_chained_fixups h c off sz))"

definition load_exports_trie :: "mach_context \<Rightarrow> mach_context res" where
  "load_exports_trie c =
     res_bind (load32 (mem c) (ptr c + 8)) (\<lambda>_.
     res_bind (load32 (mem c) (ptr c + 12)) (\<lambda>_. Ok c))"

section \<open>The 64-bit walk\<close>

definition section_step_64 :: "mach_context \<Rightarrow> mach_context res" where
  "section_step_64 c = res_bind (load_section_64 c) (\<lambda>_. Ok (c\<lparr>ptr := ptr c + 80\<rparr>))"

definition other_command_64 :: "host \<Rightarrow> u32 \<Rightarrow> mach_context \<Rightarrow> mach_context res" where
  "other_command_64 h k c =
     (if k AND 0xFF = LC_DYLD_INFO then load_dyld_info h c
      else if k = LC_SYMTAB then load_symtab_64 c
      else if k = LC_DYSYMTAB then
        res_bind (read_dysymtab_command (mem c) (ptr c)) (\<lambda>_. Ok c)
      else if k = LC_LOAD_DYLINKER then Ok c
      else if k = LC_LOAD_DYLIB then load_dylib h c
      else if k = LC_DYLD_CHAINED_FIXUPS then load_chained_fixups h c
      else if k = LC_DYLD_EXPORTS_TRIE then load_exports_trie c
      else Ok c)"

definition load_step_64 :: "host \<Rightarrow> mach_context \<Rightarrow> mach_context res" where
  "load_step_64 h c =
     res_bind (read_segment_command_64 (mem c) (ptr c)) (\<lambda>command.
     if cmd command = LC_SEGMENT_64 then
       res_bind (load_segment_64 h c) (\<lambda>(n_section, c1).
       if n_section \<noteq> 0
       then for_upto 0 (nat n_section) (\<lambda>_. section_step_64) (c1\<lparr>ptr := ptr c1 + 0x48\<rparr>)
       else Ok (c1\<lparr>ptr := ptr c1 + ucast (cmdsize command)\<rparr>))
     else
       res_bind (other_command_64 h (cmd command) c) (\<lambda>c1.
       Ok (c1\<lparr>ptr := ptr c1 + ucast (cmdsize command)\<rparr>)))"

definition loader_64 :: "host \<Rightarrow> mach_context \<Rightarrow> (int \<times> mach_context) res" where
  "loader_64 h c =
     (let c = c\<lparr>ptr := memblock c\<rparr> in
      res_bind (read_mach_header_64 (mem c) (ptr c)) (\<lambda>header.
      if filetype header \<noteq> MH_EXECUTE then Ok (-1, c)
      else
        let c = c\<lparr>ptr := ptr c + 32\<rparr> in
        res_bind (read_segment_command_64 (mem c) (ptr c)) (\<lambda>_.
        res_bind (for_upto 0 (unat (ncmds header))
                    (\<lambda>i c. res_bind (load_step_64 h c) (int_increment i)) c) (\<lambda>c'.
        Ok (0, c')))))"

section \<open>The 32-bit walk\<close>

definition section_step_32 :: "mach_context \<Rightarrow> mach_context res" where
  "section_step_32 c = res_bind (load_section c) (\<lambda>_. Ok (c\<lparr>ptr := ptr c + 68\<rparr>))"

definition symbol_step_32 :: "symtab_command \<Rightarrow> nat \<Rightarrow> mach_context \<Rightarrow> mach_context res" where
  "symbol_step_32 t i c =
     res_bind (read_nlist (mem c) (memblock c + ucast (symoff t) + of_nat (12 * i))) (\<lambda>n.
     let symbol = memblock c + ucast (stroff t) + ucast (n_strx32 n) in
     res_bind (c_string (mem c) symbol) (\<lambda>s.
     int_increment i
       (if s = MAIN_SYMBOL
        then c\<lparr>entry_point := img_addr c + (ucast (n_value32 n) - v_addr c)\<rparr> else c)))"

definition load_symtab_32 :: "mach_context \<Rightarrow> mach_context res" where
  "load_symtab_32 c =
     res_bind (read_symtab_command (mem c) (ptr c)) (\<lambda>t.
     for_upto 0 (unat (nsyms t)) (symbol_step_32 t) c)"

definition other_command_32 :: "host \<Rightarrow> u32 \<Rightarrow> mach_context \<Rightarrow> mach_context res" where
  "other_command_32 h k c =
     (if k AND 0xFF = LC_DYLD_INFO then load_dyld_info h c
      else if k = LC_SYMTAB then load_symtab_32 c
      else if k = LC_DYSYMTAB then
        res_bind (read_dysymtab_command (mem c) (ptr c)) (\<lambda>_. Ok c)
      else if k = LC_LOAD_DYLINKER then Ok c
      else if k = LC_LOAD_DYLIB then load_dylib h c
      else Ok c)"

definition load_step_32 :: "host \<Rightarrow> mach_context \<Rightarrow> mach_context res" where
  "load_step_32 h c =
     res_bind (read_segment_command (mem c) (ptr c)) (\<lambda>command.
     if cmd command = LC_SEGMENT then
       res_bind (load_segment h c) (\<lambda>(n_section, c1).
       if n_section \<noteq> 0
       then for_upto 0 (nat n_section) (\<lambda>_. section_step_32) (c1\<lparr>ptr := ptr c1 + 56\<rparr>)
       else Ok (c1\<lparr>ptr := ptr c1 + ucast (cmdsize command)\<rparr>))
     else
       res_bind (other_command_32 h (cmd command) c) (\<lambda>c1.
       Ok (c1\<lparr>ptr := ptr c1 + ucast (cmdsize command)\<rparr>)))"

definition loader :: "host \<Rightarrow> mach_context \<Rightarrow> (int \<times> mach_context) res" where
  "loader h c =
     (let c = c\<lparr>ptr := memblock c\<rparr> in
      res_bind (read_mach_header (mem c) (ptr c)) (\<lambda>header.
      if filetype header \<noteq> MH_EXECUTE then Ok (-1, c)
      else
        let c = c\<lparr>ptr := ptr c + 28\<rparr> in
        res_bind (read_segment_command (mem c) (ptr c)) (\<lambda>_.
        res_bind (for_upto 0 (unat (ncmds header))
                    (\<lambda>i c. res_bind (load_step_32 h c) (int_increment i)) c) (\<lambda>c'.
        Ok (-1, c')))))"

section \<open>Frames\<close>

lemma extends_ptr_after: "extends c d \<Longrightarrow> extends c (d\<lparr>ptr := p\<rparr>)"
  using extends_trans extends_pointers(1) by blast

lemma extends_ptr_before: "extends (c\<lparr>ptr := p\<rparr>) d \<Longrightarrow> extends c d"
  using extends_trans extends_pointers(1) by blast

lemma bind_list_retriever_extends: "bind_list_retriever h c p e = Ok c' \<Longrightarrow> extends c c'"
  by (rule only_binds_extends) (rule bind_list_retriever_binds)

lemma load_dyld_info_extends: "load_dyld_info h c = Ok c' \<Longrightarrow> extends c c'"
  by (auto simp: load_dyld_info_def Let_def res_bind_eq_Ok
      intro: extends_trans dest!: bind_list_retriever_extends)

lemma symbol_step_64_extends: "symbol_step_64 t i c = Ok c' \<Longrightarrow> extends c c'"
  by (auto simp: symbol_step_64_def Let_def res_bind_eq_Ok)

lemma symbol_step_32_extends: "symbol_step_32 t i c = Ok c' \<Longrightarrow> extends c c'"
  by (auto simp: symbol_step_32_def Let_def res_bind_eq_Ok)

lemma section_step_64_extends: "section_step_64 c = Ok c' \<Longrightarrow> extends c c'"
  by (auto simp: section_step_64_def res_bind_eq_Ok)

lemma section_step_32_extends: "section_step_32 c = Ok c' \<Longrightarrow> extends c c'"
  by (auto simp: section_step_32_def res_bind_eq_Ok)

interpretation symbols64: framed_op extends "symbol_step_64 t"
  by unfold_locales (auto intro: extends_trans symbol_step_64_extends)

interpretation symbols32: framed_op extends "symbol_step_32 t"
  by unfold_locales (auto intro: extends_trans symbol_step_32_extends)

interpretation sections64: framed_op extends "\<lambda>_ :: nat. section_step_64"
  by unfold_locales (auto intro: extends_trans section_step_64_extends)

interpretation sections32: framed_op extends "\<lambda>_ :: nat. section_step_32"
  by unfold_locales (auto intro: extends_trans section_step_32_extends)

lemma load_symtab_extends:
  "load_symtab_64 c = Ok c' \<Longrightarrow> extends c c'" "load_symtab_32 c = Ok c' \<Longrightarrow> extends c c'"
  using symbols64.loop_R [where g = "\<lambda>i. i"] symbols32.loop_R [where g = "\<lambda>i. i"]
  by (auto simp: load_symtab_64_def load_symtab_32_def res_bind_eq_Ok)

lemma load_dylib_extends: "load_dylib h c = Ok c' \<Longrightarrow> extends c c'"
  by (auto simp: load_dylib_def Let_def res_bind_eq_Ok intro: dylib_list_retriever_extends)

lemma load_linkedit_extends:
  "load_chained_fixups h c = Ok c' \<Longrightarrow> extends c c'" "load_exports_trie c = Ok c' \<Longrightarrow> extends c c'"
  by (auto simp: load_chained_fixups_def load_exports_trie_def res_bind_eq_Ok
      dest: dump_chained_fixups_frame only_fixups_extends)

lemma other_command_64_extends: "other_command_64 h k c = Ok c' \<Longrightarrow> extends c c'"
  by (auto simp: other_command_64_def res_bind_eq_Ok split: if_splits
      intro: load_dyld_info_extends load_symtab_extends load_dylib_extends load_linkedit_extends)

lemma other_command_32_extends: "other_command_32 h k c = Ok c' \<Longrightarrow> extends c c'"
  by (auto simp: other_command_32_def res_bind_eq_Ok split: if_splits
      intro: load_dyld_info_extends load_symtab_extends load_dylib_extends)

lemma load_step_64_extends: "load_step_64 h c = Ok c' \<Longrightarrow> extends c c'"
  by (auto simp: load_step_64_def res_bind_eq_Ok split: if_splits
      intro: extends_ptr_after load_segment_64_extends other_command_64_extends extends_trans
      dest!: sections64.loop_R dest: extends_ptr_before)

lemma load_step_32_extends: "load_step_32 h c = Ok c' \<Longrightarrow> extends c c'"
  by (auto simp: load_step_32_def res_bind_eq_Ok split: if_splits
      intro: extends_ptr_after load_segment_extends other_command_32_extends extends_trans
      dest!: sections32.loop_R dest: extends_ptr_before)

interpretation walk64: framed_op extends "\<lambda>i c. res_bind (load_step_64 h c) (int_increment i)"
  by unfold_locales (auto simp: res_bind_eq_Ok intro: extends_trans load_step_64_extends)

interpretation walk32: framed_op extends "\<lambda>i c. res_bind (load_step_32 h c) (int_increment i)"
  by unfold_locales (auto simp: res_bind_eq_Ok intro: extends_trans load_step_32_extends)

lemma loader_64_extends:
  assumes "loader_64 h c = Ok (r, c')"
  shows "extends c c' \<and> (r = 0 \<or> r = -1)"
  using assms
  by (auto simp: loader_64_def Let_def res_bind_eq_Ok split: if_splits
      dest!: walk64.loop_R [where g = "\<lambda>i. i"] dest: extends_ptr_before)

lemma loader_extends:
  assumes "loader h c = Ok (r, c')"
  shows "extends c c' \<and> r = -1"
  using assms
  by (auto simp: loader_def Let_def res_bind_eq_Ok split: if_splits
      dest!: walk32.loop_R [where g = "\<lambda>i. i"] dest: extends_ptr_before)

text \<open>C29: invariant. Whatever bytes the object file holds, a run of either loader that returns
  leaves the tables within their bounds and has only extended the state (recorded entries and
  mapped memory stay, the arguments are untouched); the 64-bit loader returns 0 or \<open>-1\<close>, the
  32-bit loader always \<open>-1\<close>.\<close>

theorem loaders_extend:
  "(loader_64 h c = Ok (r, c') \<longrightarrow> extends c c' \<and> (ctx_ok c \<longrightarrow> ctx_ok c') \<and> (r = 0 \<or> r = -1)) \<and>
   (loader h c = Ok (r, c') \<longrightarrow> extends c c' \<and> (ctx_ok c \<longrightarrow> ctx_ok c') \<and> r = -1)"
  using loader_64_extends loader_extends extends_ok by blast

section \<open>The walk over a command list\<close>

text \<open>The effect of a command as a value: no decoding, and the cursor stays where it is.\<close>

fun run_lcmd :: "host \<Rightarrow> lcmd \<Rightarrow> mach_context \<Rightarrow> mach_context res" where
  "run_lcmd h (LC_Seg s ss) c =
     res_bind (ensure_image_mapping_64 h c) (\<lambda>(_, c1).
     res_bind (copy_segment_64 s c1) (\<lambda>c2.
     Ok (record_segment c2 (segname s) (vmaddr s) (vmsize s))))"
| "run_lcmd h (LC_Dyldinfo d) c =
     (let start = memblock c + ucast (bind_off d); lazy = memblock c + ucast (lazy_bind_off d) in
      res_bind (bind_list_retriever h c start (start + ucast (bind_size d))) (\<lambda>c1.
      bind_list_retriever h c1 lazy (lazy + ucast (lazy_bind_size d))))"
| "run_lcmd h (LC_Sym t) c = for_upto 0 (unat (nsyms t)) (symbol_step_64 t) c"
| "run_lcmd h (LC_Dylib d tail) c =
     (let name = ptr c + ucast (dylib_name_offset d) in
      res_bind (c_string (mem c) name) (\<lambda>_. dylib_list_retriever h c (In_Memory name)))"
| "run_lcmd h (LC_Fixups d) c = dump_chained_fixups h c (dataoff d) (datasize d)"
| "run_lcmd h _ c = Ok c"

definition advance :: "lcmd \<Rightarrow> mach_context \<Rightarrow> mach_context res" where
  "advance x c = Ok (c\<lparr>ptr := ptr c + of_nat (length (enc_lcmd x))\<rparr>)"

definition walk_lcmd :: "host \<Rightarrow> lcmd \<Rightarrow> mach_context \<Rightarrow> mach_context res" where
  "walk_lcmd h x c = res_bind (run_lcmd h x c) (advance x)"

lemma bind_list_retriever_pointers:
  "bind_list_retriever h c p e = Ok c' \<Longrightarrow> memblock c' = memblock c \<and> ptr c' = ptr c \<and> mem c' = mem c"
  using bind_list_retriever_binds [of h c p e c'] by (auto simp: only_binds_def)

lemma ensure_image_mapping_64_ptr: "ensure_image_mapping_64 h c = Ok (r, d) \<Longrightarrow> ptr d = ptr c"
  by (auto simp: ensure_image_mapping_64_def Let_def res_bind_eq_Ok
      split: if_splits option.splits prod.splits)

lemma copy_segment_64_ptr: "copy_segment_64 s c = Ok d \<Longrightarrow> ptr d = ptr c"
  by (auto simp: copy_segment_64_def Let_def res_bind_eq_Ok split: if_splits)

lemma section_steps:
  assumes "mapped (mem c) (ptr c) (80 * n)"
  shows "for_upto 0 n (\<lambda>_. section_step_64) c = Ok (c\<lparr>ptr := ptr c + of_nat (80 * n)\<rparr>)"
  using assms
proof (induction n arbitrary: c)
  case 0
  then show ?case by simp
next
  case (Suc n)
  have "is_ok (read_section_64 (mem c) (ptr c))"
    using Suc.prems by (intro sect64.dec_total) (rule mapped_le, auto)
  then have step: "section_step_64 c = Ok (c\<lparr>ptr := ptr c + 80\<rparr>)"
    by (auto simp: section_step_64_def load_section_64_def is_ok_iff)
  have "mapped (mem c) (ptr c + 80) (80 * n)"
    using mapped_numeral [OF Suc.prems] by simp
  then show ?case using Suc.IH [of "c\<lparr>ptr := ptr c + 80\<rparr>"] step
    by (simp add: for_upto_const add.assoc)
qed

lemma load_step_segment:
  assumes "wf_lcmd (LC_Seg s ss)" and "holds (mem c) (ptr c) (enc_lcmd (LC_Seg s ss))"
  shows "load_step_64 h c = walk_lcmd h (LC_Seg s ss) c"
proof -
  have len: "length (enc_lcmd (LC_Seg s ss)) = 72 + 80 * length ss"
    using length_enc_lcmd [OF assms(1)] by simp
  have s: "read_segment_command_64 (mem c) (ptr c) = Ok s"
    using assms by (simp add: sc64.dec_iff holds_append)
  have small: "length ss < 2 ^ 24" and n: "nsects s = of_nat (length ss)" and k: "cmd s = LC_SEGMENT_64"
    and size: "cmdsize s = of_nat (72 + 80 * length ss)"
    using assms(1) by simp_all
  have sint: "sint (nsects s) = int (length ss)"
    using small by (simp add: n signed_of_nat signed_take_bit_int_eq_self)
  have map: "mapped (mem c) (ptr c + 72) (80 * length ss)"
    using mapped_offset [OF holds_mapped [OF assms(2)], of 72] len by simp
  show ?thesis
  proof (cases "run_lcmd h (LC_Seg s ss) c")
    case (Inl e)
    then have "load_segment_64 h c = Fault e"
      using s by (auto simp: load_segment_64_def res_bind_eq_Fault)
    then show ?thesis using Inl s k by (simp add: load_step_64_def walk_lcmd_def)
  next
    case (Inr c')
    then have ld: "load_segment_64 h c = Ok (int (length ss), c')"
      using s sint by (auto simp: load_segment_64_def res_bind_eq_Ok)
    have ptr: "ptr c' = ptr c"
      using Inr ensure_image_mapping_64_ptr copy_segment_64_ptr
      by (auto simp: res_bind_eq_Ok)
    have "mapped (mem c') (ptr c + 72) (80 * length ss)"
      using load_segment_64_extends [OF ld] map by (rule extends_mapped)
    then have "for_upto 0 (length ss) (\<lambda>_. section_step_64) (c'\<lparr>ptr := ptr c' + 72\<rparr>) =
        Ok (c'\<lparr>ptr := ptr c + 72 + of_nat (80 * length ss)\<rparr>)"
      using section_steps [of "c'\<lparr>ptr := ptr c' + 72\<rparr>" "length ss"] ptr by simp
    then show ?thesis using s k ld Inr len size ptr
      by (cases "ss = []") (simp_all add: load_step_64_def walk_lcmd_def advance_def add.assoc)
  qed
qed

text \<open>Reading symbols changes the entry point and nothing else.\<close>

definition only_entry :: "mach_context \<Rightarrow> mach_context \<Rightarrow> bool" where
  "only_entry c c' \<longleftrightarrow> (\<exists>e. c' = c\<lparr>entry_point := e\<rparr>)"

lemma only_entry_refl [simp]: "only_entry c c"
  unfolding only_entry_def by (rule exI [of _ "entry_point c"]) simp

lemma only_entry_update [simp]: "only_entry c (c\<lparr>entry_point := e\<rparr>)"
  by (auto simp: only_entry_def)

lemma only_entry_trans: "only_entry c d \<Longrightarrow> only_entry d e \<Longrightarrow> only_entry c e"
  by (auto simp: only_entry_def)

lemma symbol_step_64_entry: "symbol_step_64 t i c = Ok c' \<Longrightarrow> only_entry c c'"
  by (auto simp: symbol_step_64_def Let_def res_bind_eq_Ok)

interpretation entry64: framed_op only_entry "symbol_step_64 t"
  by unfold_locales (auto intro: only_entry_trans symbol_step_64_entry)

lemma run_symtab_entry: "for_upto 0 n (symbol_step_64 t) c = Ok c' \<Longrightarrow> only_entry c c'"
  using entry64.loop_R [where g = "\<lambda>i. i"] by simp

lemma run_lcmd_ptr:
  assumes "run_lcmd h x c = Ok c'"
  shows "ptr c' = ptr c"
proof (cases x)
  case (LC_Seg s ss)
  then show ?thesis
    using assms ensure_image_mapping_64_ptr copy_segment_64_ptr by (auto simp: res_bind_eq_Ok)
next
  case (LC_Dyldinfo d)
  then show ?thesis using assms bind_list_retriever_pointers
    by (auto simp: Let_def res_bind_eq_Ok)
next
  case (LC_Sym t)
  then show ?thesis using assms run_symtab_entry [of "unat (nsyms t)" t c c']
    by (auto simp: only_entry_def)
next
  case (LC_Fixups d)
  then show ?thesis using assms by (auto simp: only_fixups_def dest!: dump_chained_fixups_frame)
next
  case (LC_Dylib d tail)
  then show ?thesis using assms by (auto simp: Let_def res_bind_eq_Ok dylib_list_retriever_Ok)
qed (use assms in auto)

lemma load_step_other:
  assumes wf: "wf_lcmd x" and h: "holds (mem c) (ptr c) (enc_lcmd x)"
    and room: "mapped (mem c) (ptr c) 72" and other: "lc_code x \<noteq> LC_SEGMENT_64"
    and eff: "other_command_64 h (lc_code x) c = run_lcmd h x c"
  shows "load_step_64 h c = walk_lcmd h x c"
proof -
  obtain s where s: "read_segment_command_64 (mem c) (ptr c) = Ok s"
    using sc64.dec_total [OF room] by (auto simp: is_ok_iff)
  then have "load32 (mem c) (ptr c) = Ok (cmd s)" "load32 (mem c) (ptr c + 4) = Ok (cmdsize s)"
    by (auto simp: sc64.dec_iff enc_segment_command_64_def reader_simps)
  then have k: "cmd s = lc_code x" "cmdsize s = lc_size x"
    using lcmd_header_loads [OF h] by auto
  show ?thesis
    using s k other eff ucast_lc_size [OF wf]
    by (auto simp: load_step_64_def walk_lcmd_def advance_def dest: run_lcmd_ptr cong: res_bind_cong)
qed

text \<open>One iteration over a well-formed command has the command's effect and moves to the next.\<close>

lemma load_step_lcmd:
  assumes wf: "wf_lcmd x" and h: "holds (mem c) (ptr c) (enc_lcmd x)"
    and room: "mapped (mem c) (ptr c) 72"
  shows "load_step_64 h c = walk_lcmd h x c"
proof (cases x)
  case (LC_Seg s ss)
  then show ?thesis using load_step_segment wf h by simp
next
  case (LC_Dyldinfo d)
  then have d: "read_dyld_info_command (mem c) (ptr c) = Ok d" using h by (simp add: dyinfo.dec_iff)
  have "load_dyld_info h c = run_lcmd h x c"
    using d LC_Dyldinfo bind_list_retriever_pointers
    by (auto simp: load_dyld_info_def Let_def cong: res_bind_cong)
  then show ?thesis using LC_Dyldinfo wf
    by (intro load_step_other [OF wf h room]) (auto simp: other_command_64_def macho_consts)
next
  case (LC_Sym t)
  then have "read_symtab_command (mem c) (ptr c) = Ok t" using h by (simp add: symtab.dec_iff)
  then show ?thesis using LC_Sym wf
    by (intro load_step_other [OF wf h room])
      (auto simp: other_command_64_def load_symtab_64_def macho_consts)
next
  case (LC_Dysym d)
  then have "read_dysymtab_command (mem c) (ptr c) = Ok d" using h by (simp add: dysymtab.dec_iff)
  then show ?thesis using LC_Dysym wf
    by (intro load_step_other [OF wf h room]) (auto simp: other_command_64_def macho_consts)
next
  case (LC_Dylib d tail)
  then have "load32 (mem c) (ptr c + 8) = Ok (dylib_name_offset d)"
    using h by (auto simp: enc_dylib_command_def reader_simps)
  then show ?thesis using LC_Dylib wf
    by (intro load_step_other [OF wf h room]) (auto simp: other_command_64_def load_dylib_def macho_consts)
next
  case (LC_Fixups d)
  then have "load32 (mem c) (ptr c + 8) = Ok (dataoff d)" "load32 (mem c) (ptr c + 12) = Ok (datasize d)"
    using h by (auto simp: enc_linkedit_data_command_def reader_simps)
  then show ?thesis using LC_Fixups wf
    by (intro load_step_other [OF wf h room])
      (auto simp: other_command_64_def load_chained_fixups_def macho_consts)
next
  case (LC_Exports d)
  then have "load32 (mem c) (ptr c + 8) = Ok (dataoff d)" "load32 (mem c) (ptr c + 12) = Ok (datasize d)"
    using h by (auto simp: enc_linkedit_data_command_def reader_simps)
  then show ?thesis using LC_Exports wf
    by (intro load_step_other [OF wf h room])
      (auto simp: other_command_64_def load_exports_trie_def macho_consts)
next
  case (LC_Opaque k bs)
  then show ?thesis using wf
    by (intro load_step_other [OF wf h room])
      (auto simp: other_command_64_def known_codes_def)
qed

abbreviation commands_at :: "memory \<Rightarrow> addr \<Rightarrow> lcmd list \<Rightarrow> bool" where
  "commands_at \<equiv> listed enc_lcmd wf_lcmd"

text \<open>The commands, with the 72 bytes the loader always reads at the cursor.\<close>

abbreviation command_room :: "memory \<Rightarrow> addr \<Rightarrow> lcmd list \<Rightarrow> bool" where
  "command_room \<equiv> list_room enc_lcmd 72"

lemma file_at_listed: "file_at m p hdr cs \<Longrightarrow> commands_at m (p + 32) cs"
  using file_at_commands by (auto simp: listed_def file_at_def)

interpretation cmds64: command_walk enc_lcmd wf_lcmd 72 "load_step_64 h" "walk_lcmd h"
  by unfold_locales (erule load_step_64_extends, erule (2) load_step_lcmd,
      auto simp: walk_lcmd_def advance_def res_bind_eq_Ok dest: run_lcmd_ptr)

text \<open>The loader around its loop: the header, and the cursor on the first command.\<close>

lemma loader_64_loop:
  assumes obj: "file_at (mem c) (memblock c) hdr cs" and exe: "filetype hdr = MH_EXECUTE"
    and room: "command_room (mem c) (memblock c + 32) cs"
  shows "loader_64 h c = res_bind (for_upto 0 (length cs) (counted (load_step_64 h)) (c\<lparr>ptr := memblock c + 32\<rparr>))
    (\<lambda>c'. Ok (0, c'))"
proof -
  have hdr: "read_mach_header_64 (mem c) (memblock c) = Ok hdr" and n: "unat (ncmds hdr) = length cs"
    using obj by (simp_all add: file_at_def holds_append mh64.dec_iff)
  have "mapped (mem c) (memblock c + 32) 72" using list_room_at [OF room, of 0] by simp
  then have "is_ok (read_segment_command_64 (mem c) (memblock c + 32))" by (rule sc64.dec_total)
  then obtain s where "read_segment_command_64 (mem c) (memblock c + 32) = Ok s"
    by (auto simp: is_ok_iff)
  then show ?thesis using hdr exe n by (simp add: loader_64_def Let_def)
qed

lemma loader_64_walks_commands_aux:
  assumes obj: "file_at (mem c) (memblock c) hdr cs" and exe: "filetype hdr = MH_EXECUTE"
    and count: "length cs \<le> INT_MAX"
    and room: "command_room (mem c) (memblock c + 32) cs"
    and intact: "\<And>n t. n < length cs \<Longrightarrow> loads (load_step_64 h) (c\<lparr>ptr := memblock c + 32\<rparr>) n t \<Longrightarrow>
      commands_at (mem t) (memblock c + 32) cs"
  shows "loader_64 h c =
    res_bind (res_fold (walk_lcmd h) cs (c\<lparr>ptr := memblock c + 32\<rparr>)) (\<lambda>c'. Ok (0, c'))"
  using cmds64.run_fold [of "c\<lparr>ptr := memblock c + 32\<rparr>" cs h] loader_64_loop [OF obj exe room]
    room count intact by simp

text \<open>C18: refinement. On a well-formed 64-bit executable whose command list is not overwritten
  while it is being read, \<open>loader_64\<close> carries out exactly the commands of the list, in order,
  each once, with the cursor on the command, and returns 0; it faults exactly when one of them
  does.\<close>

theorem loader_64_walks_commands:
  assumes obj: "file_at (mem c) (memblock c) hdr cs" and exe: "filetype hdr = MH_EXECUTE"
    and count: "length cs \<le> INT_MAX"
    and room: "command_room (mem c) (memblock c + 32) cs"
    and intact: "\<And>n t. n < length cs \<Longrightarrow> loads (load_step_64 h) (c\<lparr>ptr := memblock c + 32\<rparr>) n t \<Longrightarrow>
      commands_at (mem t) (memblock c + 32) cs"
  shows "loader_64 h c =
    res_bind (res_fold (walk_lcmd h) cs (c\<lparr>ptr := memblock c + 32\<rparr>)) (\<lambda>c'. Ok (0, c'))"
  using assms by (rule loader_64_walks_commands_aux)

text \<open>The same, with the intermediate states given by the fold over the commands.\<close>

lemma loader_64_kept:
  assumes "file_at (mem c) (memblock c) hdr cs" and "filetype hdr = MH_EXECUTE"
    and "length cs \<le> INT_MAX" and room: "command_room (mem c) (memblock c + 32) cs"
    and kept: "\<And>n t. n < length cs \<Longrightarrow>
      res_fold (walk_lcmd h) (take n cs) (c\<lparr>ptr := memblock c + 32\<rparr>) = Ok t \<Longrightarrow>
      commands_at (mem t) (memblock c + 32) cs"
  shows "loader_64 h c =
    res_bind (res_fold (walk_lcmd h) cs (c\<lparr>ptr := memblock c + 32\<rparr>)) (\<lambda>c'. Ok (0, c'))"
proof -
  let ?c = "c\<lparr>ptr := memblock c + 32\<rparr>"
  have "for_upto 0 (length cs) (counted (load_step_64 h)) ?c = res_fold (walk_lcmd h) cs ?c"
    using room kept assms(3)
    by (intro cmds64.run_fold_inv [where P = "\<lambda>n t. res_fold (walk_lcmd h) (take n cs) ?c = Ok t"])
      (simp_all add: take_Suc_conv_app_nth res_fold_append)
  then show ?thesis using loader_64_loop [OF assms(1,2) room] by simp
qed

section \<open>Files without chained fixups are never overwritten\<close>

text \<open>
  The well-formedness a linker guarantees beyond single commands: the segments do not wrap,
  and no segment has more bytes in the file than in memory.
\<close>

definition sized_segments :: "lcmd list \<Rightarrow> bool" where
  "sized_segments cs \<longleftrightarrow> (\<forall>s ss. LC_Seg s ss \<in> set cs \<longrightarrow>
     \<not> name_is (segname s) SEG_PAGEZERO \<longrightarrow> unat (filesize s) \<le> unat (vmsize s))"

definition classic :: "lcmd list \<Rightarrow> bool" where
  "classic cs \<longleftrightarrow> (\<forall>d. LC_Fixups d \<notin> set cs) \<and> segments_fit cs \<and> sized_segments cs"

text \<open>The image, when there is one, is \<open>n\<close> bytes that hold every segment.\<close>

definition image_holds :: "lcmd list \<Rightarrow> mach_context \<Rightarrow> nat \<Rightarrow> bool" where
  "image_holds cs t n \<longleftrightarrow> img_addr t \<noteq> 0 \<and>
     (\<forall>s\<in>set (image_segments cs).
        region (image_address t (vmaddr s)) (unat (vmsize s)) \<subseteq> region (img_addr t) n)"

lemma ensure_image_mapping_64_fresh:
  assumes obj: "file_at (mem t) (memblock t) hdr cs" and none: "img_addr t = 0"
    and mmap: "mmap_ok h (mem t)" and fit: "segments_fit cs"
    and run: "ensure_image_mapping_64 h t = Ok (r, u)"
  shows "u = t \<or> (\<exists>n. image_holds cs u n \<and> memblock u = memblock t \<and>
    (\<forall>a\<in>region (img_addr u) n. mem t a = None) \<and>
    (\<forall>a. a \<notin> region (img_addr u) n \<longrightarrow> mem u a = mem t a))"
proof (cases "u = t")
  case False
  let ?n = "image_size (extent cs)"
  obtain lo hi where ext: "extent cs = (lo, hi)" by (cases "extent cs")
  obtain a where a: "host_mmap h (mem t) lo ?n = Some a"
    and u: "u = t\<lparr>mem := map_anon (mem t) a (unat ?n), img_addr := a, v_addr := lo\<rparr>"
    using run False ensure_image_mapping_64_file [OF obj none, of h] ext
    by (auto split: if_splits option.splits)
  have a0: "a \<noteq> 0" and room: "unat a + unat ?n \<le> 2 ^ 64"
    and free: "\<forall>x\<in>region a (unat ?n). mem t x = None" using a mmap by (auto simp: mmap_ok_def)
  have "region (a + (vmaddr s - lo)) (unat (vmsize s)) \<subseteq> region a (unat ?n)"
    if seg: "s \<in> set (image_segments cs)" for s
  proof -
    have "vmsize s \<noteq> 0" using seg by (auto simp: image_segments_def mappable_def)
    moreover have "unat (vmaddr s) + unat (vmsize s) < 2 ^ 64"
      using fit seg by (simp add: segments_fit_def list_all_iff)
    moreover have "unat (hi - lo) \<le> unat ?n" using image_size_ge [OF fit] ext by simp
    ultimately show ?thesis
      using unat_relocated [of lo "vmaddr s" "vmsize s" hi "unat ?n" a] extent_bounds [OF ext seg] room
      by (auto simp: region_def)
  qed
  then have "image_holds cs u (unat ?n)" using a0 by (auto simp: image_holds_def image_address_def u)
  moreover have "\<forall>x. x \<notin> region (img_addr u) (unat ?n) \<longrightarrow> mem u x = mem t x"
    by (simp add: u map_anon_other)
  ultimately show ?thesis using free u by (intro disjI2 exI [of _ "unat ?n"]) simp
qed simp

lemma copy_segment_64_inside:
  assumes run: "copy_segment_64 s u = Ok v" and img: "image_holds cs u n"
    and seg: "LC_Seg s ss \<in> set cs" and sized: "sized_segments cs"
  shows "v = u\<lparr>mem := mem v\<rparr> \<and> (\<forall>a. a \<notin> region (img_addr u) n \<longrightarrow> mem v a = mem u a)"
proof (cases "\<not> name_is (segname s) SEG_PAGEZERO \<and> filesize s \<noteq> 0 \<and> v_addr u \<noteq> 0")
  case True
  then obtain m where m: "memcpy (mem u) (image_address u (vmaddr s)) (memblock u + fileoff s) (unat (filesize s)) = Ok m"
    and v: "v = u\<lparr>mem := m\<rparr>"
    using run img by (auto simp: copy_segment_64_def Let_def res_bind_eq_Ok image_holds_def image_address_def)
  have le: "unat (filesize s) \<le> unat (vmsize s)" using sized seg True unfolding sized_segments_def by blast
  have "vmsize s \<noteq> 0"
  proof
    assume "vmsize s = 0"
    then have "unat (filesize s) = 0" using le by simp
    then show False using True by (simp add: unat_eq_0)
  qed
  then have "s \<in> set (image_segments cs)"
    using seg True by (force simp: image_segments_def mappable_def)
  then have "region (image_address u (vmaddr s)) (unat (vmsize s)) \<subseteq> region (img_addr u) n"
    using img by (simp add: image_holds_def)
  then have "region (image_address u (vmaddr s)) (unat (filesize s)) \<subseteq> region (img_addr u) n"
    using le by (auto simp: region_def)
  then show ?thesis using memcpy_other [OF m] v by auto
next
  case False
  then have "v = u" using run by (auto simp: copy_segment_64_def)
  then show ?thesis by simp
qed

text \<open>What stays true during the walk, for the file bytes \<open>F\<close>.\<close>

definition file_kept :: "lcmd list \<Rightarrow> addr set \<Rightarrow> mach_context \<Rightarrow> mach_context \<Rightarrow> bool" where
  "file_kept cs F c t \<longleftrightarrow> memblock t = memblock c \<and> (\<forall>a\<in>F. mem t a = mem c a) \<and>
     (img_addr t = 0 \<and> mem t = mem c \<or>
      (\<exists>n. image_holds cs t n \<and> region (img_addr t) n \<inter> F = {}))"

lemma file_kept_segment:
  assumes kept: "file_kept cs F c t" and obj: "file_at (mem c) (memblock c) hdr cs"
    and mmap: "mmap_ok h (mem c)" and cl: "classic cs" and seg: "LC_Seg s ss \<in> set cs"
    and mapped: "\<forall>a\<in>F. mem c a \<noteq> None"
    and run: "run_lcmd h (LC_Seg s ss) t = Ok v"
  shows "file_kept cs F c v"
proof -
  obtain r u w where u: "ensure_image_mapping_64 h t = Ok (r, u)" and w: "copy_segment_64 s u = Ok w"
    and v: "v = record_segment w (segname s) (vmaddr s) (vmsize s)"
    using run by (auto simp: res_bind_eq_Ok)
  have "file_kept cs F c u"
  proof (cases "img_addr t = 0")
    case False
    then have "u = t" using u by (simp add: ensure_image_mapping_64_def)
    then show ?thesis using kept by simp
  next
    case True
    then have same: "mem t = mem c" "memblock t = memblock c"
      using kept by (auto simp: file_kept_def image_holds_def)
    have "u = t \<or> (\<exists>n. image_holds cs u n \<and> memblock u = memblock t \<and>
        (\<forall>a\<in>region (img_addr u) n. mem t a = None) \<and>
        (\<forall>a. a \<notin> region (img_addr u) n \<longrightarrow> mem u a = mem t a))"
      using obj True mmap cl u unfolding same [symmetric]
      by (intro ensure_image_mapping_64_fresh) (auto simp: classic_def)
    then show ?thesis
    proof (elim disjE exE conjE)
      fix n assume n: "image_holds cs u n" "memblock u = memblock t"
        "\<forall>a\<in>region (img_addr u) n. mem t a = None"
        "\<forall>a. a \<notin> region (img_addr u) n \<longrightarrow> mem u a = mem t a"
      then have "region (img_addr u) n \<inter> F = {}" using mapped same by auto
      moreover from this have "\<forall>a\<in>F. mem u a = mem c a" using n(4) same by auto
      ultimately show ?thesis using n same by (auto simp: file_kept_def)
    qed (use kept in simp)
  qed
  moreover have "file_kept cs F c w" if ku: "file_kept cs F c u"
  proof (cases "img_addr u = 0")
    case True
    then have "w = u" using w by (simp add: copy_segment_64_def)
    then show ?thesis using ku by simp
  next
    case False
    then obtain n where n: "image_holds cs u n" "region (img_addr u) n \<inter> F = {}"
      using ku by (auto simp: file_kept_def)
    have "w = u\<lparr>mem := mem w\<rparr> \<and> (\<forall>a. a \<notin> region (img_addr u) n \<longrightarrow> mem w a = mem u a)"
      using copy_segment_64_inside [OF w n(1) seg] cl by (simp add: classic_def)
    then obtain m where w': "w = u\<lparr>mem := m\<rparr>" "\<forall>a. a \<notin> region (img_addr u) n \<longrightarrow> m a = mem u a"
      by (metis process.select_convs(1) process.surjective process.update_convs(1))
    then have "\<forall>a\<in>F. mem w a = mem c a" using ku n(2) by (auto simp: file_kept_def)
    then show ?thesis using n ku w'(1) by (auto simp: file_kept_def image_holds_def image_address_def)
  qed
  ultimately have "file_kept cs F c w" by blast
  then show ?thesis by (simp add: v file_kept_def image_holds_def image_address_def)
qed

lemma file_kept_same:
  "file_kept cs F c t \<Longrightarrow> mem v = mem t \<Longrightarrow> memblock v = memblock t \<Longrightarrow> img_addr v = img_addr t \<Longrightarrow>
   v_addr v = v_addr t \<Longrightarrow> file_kept cs F c v"
  by (simp add: file_kept_def image_holds_def image_address_def)

lemma file_kept_lcmd:
  assumes kept: "file_kept cs F c t" and obj: "file_at (mem c) (memblock c) hdr cs"
    and mmap: "mmap_ok h (mem c)" and cl: "classic cs" and x: "x \<in> set cs"
    and mapped: "\<forall>a\<in>F. mem c a \<noteq> None" and run: "run_lcmd h x t = Ok v"
  shows "file_kept cs F c v"
proof (cases x)
  case (LC_Seg s ss)
  then show ?thesis using file_kept_segment [OF kept obj mmap cl _ mapped] x run by simp
next
  case (LC_Dyldinfo d)
  then obtain u where "only_binds t u" "only_binds u v"
    using run by (auto simp: Let_def res_bind_eq_Ok dest: bind_list_retriever_binds)
  then show ?thesis using kept by (auto simp: only_binds_def intro!: file_kept_same [OF kept])
next
  case (LC_Sym d)
  then show ?thesis using run run_symtab_entry [of "unat (nsyms d)" d t v]
    by (auto simp: only_entry_def intro!: file_kept_same [OF kept])
next
  case (LC_Dylib d tail)
  then show ?thesis using run
    by (auto simp: Let_def res_bind_eq_Ok dylib_list_retriever_Ok intro!: file_kept_same [OF kept])
next
  case (LC_Fixups d)
  then show ?thesis using x cl by (auto simp: classic_def)
qed (use run kept in auto)

lemma classic_step:
  assumes obj: "file_at (mem c) (memblock c) hdr cs" and mmap: "mmap_ok h (mem c)" and cl: "classic cs"
    and n: "n < length cs" and kept: "file_kept cs {a. mem c a \<noteq> None} c t"
    and run: "walk_lcmd h (cs ! n) t = Ok u"
  shows "file_kept cs {a. mem c a \<noteq> None} c u"
proof -
  obtain v where v: "run_lcmd h (cs ! n) t = Ok v"
    and u: "u = v\<lparr>ptr := ptr v + of_nat (length (enc_lcmd (cs ! n)))\<rparr>"
    using run by (auto simp: walk_lcmd_def advance_def res_bind_eq_Ok)
  have "file_kept cs {a. mem c a \<noteq> None} c v"
    using file_kept_lcmd [OF kept obj mmap cl _ _ v] n by simp
  then show ?thesis by (rule file_kept_same) (simp_all add: u)
qed

lemma classic_listed:
  "file_at (mem c) (memblock c) hdr cs \<Longrightarrow> file_kept cs {a. mem c a \<noteq> None} c t \<Longrightarrow>
   commands_at (mem t) (memblock c + 32) cs"
  by (rule listed_kept [of _ _ "mem c"], erule file_at_listed) (simp add: file_kept_def)

lemma classic_start: "img_addr c = 0 \<Longrightarrow> file_kept cs F c (c\<lparr>ptr := p\<rparr>)"
  by (simp add: file_kept_def)

lemma loader_64_classic_aux:
  assumes "file_at (mem c) (memblock c) hdr cs" and "filetype hdr = MH_EXECUTE"
    and "length cs \<le> INT_MAX" and "command_room (mem c) (memblock c + 32) cs"
    and "img_addr c = 0" and "mmap_ok h (mem c)" and "classic cs"
  shows "loader_64 h c =
    res_bind (res_fold (walk_lcmd h) cs (c\<lparr>ptr := memblock c + 32\<rparr>)) (\<lambda>c'. Ok (0, c'))"
proof -
  have "for_upto 0 (length cs) (counted (load_step_64 h)) (c\<lparr>ptr := memblock c + 32\<rparr>) =
      res_fold (walk_lcmd h) cs (c\<lparr>ptr := memblock c + 32\<rparr>)"
    using assms(3-5) classic_start classic_step [OF assms(1,6,7)] classic_listed [OF assms(1)]
    by (intro cmds64.run_fold_inv [where P = "\<lambda>_. file_kept cs {a. mem c a \<noteq> None} c"]) simp_all
  then show ?thesis using loader_64_loop [OF assms(1,2,4)] by simp
qed

text \<open>C10: refinement. For a well-formed executable without chained fixups, whose segments do
  not wrap and have no more bytes in the file than in memory, and a host that maps memory only
  where nothing is mapped, the command list is never overwritten: \<open>loader_64\<close> carries out
  exactly its commands, in order, whatever the segments and streams contain.\<close>

theorem loader_64_classic:
  assumes "file_at (mem c) (memblock c) hdr cs" and "filetype hdr = MH_EXECUTE"
    and "length cs \<le> INT_MAX" and "command_room (mem c) (memblock c + 32) cs"
    and "img_addr c = 0" and "mmap_ok h (mem c)" and "classic cs"
  shows "loader_64 h c =
    res_bind (res_fold (walk_lcmd h) cs (c\<lparr>ptr := memblock c + 32\<rparr>)) (\<lambda>c'. Ok (0, c'))"
  using assms by (rule loader_64_classic_aux)

text \<open>C15: safety. When the file is well-formed and has no chained fixups, none of its segments has
  more bytes in the file than in memory (\<open>filesize \<le> vmsize\<close>) or wraps, and the host maps memory
  only where nothing is mapped, then loading changes no byte that was mapped before: all stores
  go into the image the loader mapped itself. The code checks neither of the two conditions on
  segments; without the first one it copies \<open>filesize\<close> bytes past the end of the image.\<close>

theorem loader_64_keeps_file:
  assumes obj: "file_at (mem c) (memblock c) hdr cs" and "length cs \<le> INT_MAX"
    and room: "command_room (mem c) (memblock c + 32) cs"
    and none: "img_addr c = 0" and mmap: "mmap_ok h (mem c)" and cl: "classic cs"
    and run: "loader_64 h c = Ok (r, c')" and old: "mem c a = Some b"
  shows "mem c' a = Some b"
proof (cases "filetype hdr = MH_EXECUTE")
  case True
  let ?c = "c\<lparr>ptr := memblock c + 32\<rparr>"
  have "for_upto 0 (length cs) (counted (load_step_64 h)) ?c = Ok c'"
    using run loader_64_loop [OF obj True room] by (auto simp: res_bind_eq_Ok)
  then have "loads (load_step_64 h) ?c (length cs) c'" by (rule loads_loop)
  then have "file_kept cs {a. mem c a \<noteq> None} c c'"
    using cmds64.loads_inv [where P = "\<lambda>_. file_kept cs {a. mem c a \<noteq> None} c", of ?c cs h "length cs" c']
      room none classic_start classic_step [OF obj mmap cl] classic_listed [OF obj] by simp
  then show ?thesis using old by (simp add: file_kept_def)
next
  case False
  have "read_mach_header_64 (mem c) (memblock c) = Ok hdr"
    using obj by (simp_all add: file_at_def holds_append mh64.dec_iff)
  then have "mem c' = mem c" using run False by (auto simp: loader_64_def Let_def)
  then show ?thesis using old by simp
qed

section \<open>Segment table and bind addresses\<close>



lemma bind_address_mem [simp]:
  "bind_address_for_segment_offset (c\<lparr>mem := m\<rparr>) = bind_address_for_segment_offset c"
  by (intro ext) (simp add: bind_address_for_segment_offset_def)


section \<open>Examples\<close>

lemma example_ptr [simp]: "example_context\<lparr>ptr := memblock example_context + 32\<rparr> = example_context"
  by (simp add: example_context_def zero_context_def)

lemma example_context_fields:
  "memblock example_context = 0x1000" "img_addr example_context = 0" "ptr example_context = 0x1020"
  by (simp_all add: example_context_def zero_context_def)

lemma example_count: "length example_commands \<le> INT_MAX"
  by (simp add: example_commands_def INT_MAX_def)

lemma example_room: "command_room (mem example_context) (memblock example_context + 32) example_commands"
proof -
  have "mapped (mem example_context) 0x1000 204"
    using holds_mapped [OF example_holds] by (simp add: example_lengths)
  from mapped_offset [OF this, of 32 144] show ?thesis
    by (simp add: list_room_def example_context_fields example_commands_def example_lengths
        del: enc_lcmd.simps)
qed

lemma example_classic: "classic example_commands"
  by (simp add: classic_def example_fit sized_segments_def)
    (simp add: example_commands_def example_segment_def)

lemma example_exe: "filetype example_header = MH_EXECUTE"
  by (simp add: example_header_def)

lemma example_run: "\<exists>c'. loader_64 example_host example_context = Ok (0, c')"
proof -
  have "\<exists>c. copy_segment_64 example_segment example_mapped = Ok c"
  proof -
    have "is_ok (memcpy (mem example_mapped) (image_address example_mapped (vmaddr example_segment))
        (memblock example_mapped + fileoff example_segment) (unat (filesize example_segment)))"
      using example_load_premises holds_mapped [OF example_load_premises(4)] by (simp add: memcpy_total)
    then show ?thesis using example_load_premises
      by (auto simp: copy_segment_64_def Let_def is_ok_iff image_address_def)
  qed
  then obtain c where "walk_lcmd example_host (LC_Seg example_segment []) example_context = Ok c"
    using example_ensure by (auto simp: walk_lcmd_def advance_def)
  then show ?thesis
    using loader_64_classic_aux [OF example_file_at example_exe example_count example_room
        example_context_fields(2) example_mmap_ok example_classic]
    by (simp add: example_commands_def)
qed

lemma loaders_extend_witness:
  "\<exists>c'. loader_64 example_host example_context = Ok (0, c') \<and> extends example_context c'"
  using example_run loaders_extend by blast

lemma loader_64_walks_commands_witness:
  "loader_64 example_host example_context =
   res_bind (walk_lcmd example_host (LC_Seg example_segment []) example_context) (\<lambda>c'. Ok (0, c'))"
proof -
  have "commands_at (mem t) (memblock example_context + 32) example_commands"
    if "n < length example_commands"
      and "loads (load_step_64 example_host) (example_context\<lparr>ptr := memblock example_context + 32\<rparr>) n t" for n t
  proof -
    have "n = 0" using that(1) by (simp add: example_commands_def)
    then have "t = example_context" using that(2) by (simp add: loads_0)
    then show ?thesis using file_at_listed [OF example_file_at] by simp
  qed
  from loader_64_walks_commands [OF example_file_at example_exe example_count example_room this]
  show ?thesis by (simp add: example_commands_def)
qed

lemma loader_64_classic_witness:
  "loader_64 example_host example_context =
   res_bind (res_fold (walk_lcmd example_host) example_commands example_context) (\<lambda>c'. Ok (0, c'))"
  using loader_64_classic [OF example_file_at example_exe example_count example_room
      example_context_fields(2) example_mmap_ok example_classic] by simp

lemma loader_64_keeps_file_witness:
  "\<exists>c'. loader_64 example_host example_context = Ok (0, c') \<and> mem c' 0x1000 = mem example_context 0x1000 \<and>
    mem c' 0x1000 \<noteq> None"
proof -
  obtain c' where run: "loader_64 example_host example_context = Ok (0, c')" using example_run by blast
  have "mem example_context 0x1000 \<noteq> None"
    using mapped_in_region [OF holds_mapped [OF example_holds], of "0x1000"]
    by (simp add: region_def example_lengths)
  then obtain b where b: "mem example_context 0x1000 = Some b" by blast
  have "mem c' 0x1000 = Some b"
    by (rule loader_64_keeps_file [OF example_file_at example_count example_room
        example_context_fields(2) example_mmap_ok example_classic run b])
  then show ?thesis using run b by simp
qed


end
