(* ===== verification/Mal_Main.thy ===== *)
theory Mal_Main
  imports Mal_Loader
begin

unbundle bit_operations_syntax

text \<open>
  The program around the loader: \<open>openExec\<close>, \<open>determineBit\<close> and \<open>main\<close> of \<^verbatim>\<open>main.c\<close>.

  \<^item> The mapped file is in memory, up to a page boundary zero-filled.
  \<^item> \<open>main\<close> either stops early, faults, or enters the loaded program at its entry point with
    a list of diagnostics, none of which stops it, and never for a file that is not an
    executable; \<open>diagnostic\<close> is ordered by the checks.
  \<^item> \<open>executable_file\<close>: what the bytes of a well-formed executable are, and that the opened
    context holds its header, its commands and the room the loader reads past them.
\<close>

section \<open>The program\<close>

definition determineBit :: "memory \<Rightarrow> addr \<Rightarrow> int res" where
  "determineBit m p =
     res_bind (load32 m p) (\<lambda>magic.
     if magic = MH_MAGIC then Ok 32
     else if magic = MH_MAGIC_64 then Ok 64
     else Fault (Exit_Program (-1)))"

text \<open>
  A file mapping covers whole pages, zero-filled after the end of the file. A file that
  cannot be opened or mapped (an empty one, for instance) ends the program.
\<close>

definition page_filled :: "byte list \<Rightarrow> byte list" where
  "page_filled bs = bs @ replicate ((4096 - length bs mod 4096) mod 4096) 0"

definition openExec :: "host \<Rightarrow> cstr \<Rightarrow> mach_context \<Rightarrow> mach_context res" where
  "openExec h filename c =
     (case host_open h filename of
        None \<Rightarrow> Fault (Exit_Program (-1))
      | Some bs \<Rightarrow>
          (case host_map_file h bs of
             None \<Rightarrow> Fault (Exit_Program (-1))
           | Some a \<Rightarrow> Ok (c\<lparr>mem := map_file (mem c) a (page_filled bs), memblock := a\<rparr>)))"

datatype diagnostic =
    Loader_Failed int
  | No_Image
  | No_Entry_Point
  | Unresolved_Binds u32
  | Bind_Failed int

text \<open>The order in which \<open>main\<close> makes its checks; a check and its value identify the message.\<close>

fun check_of :: "diagnostic \<Rightarrow> nat" where
  "check_of (Loader_Failed _) = 0"
| "check_of No_Image = 1"
| "check_of No_Entry_Point = 2"
| "check_of (Unresolved_Binds _) = 3"
| "check_of (Bind_Failed _) = 4"

fun check_value :: "diagnostic \<Rightarrow> int" where
  "check_value (Loader_Failed r) = r"
| "check_value (Unresolved_Binds n) = uint n"
| "check_value (Bind_Failed r) = r"
| "check_value _ = 0"

lemma check_inject: "check_of d = check_of e \<Longrightarrow> check_value d = check_value e \<Longrightarrow> d = e"
  by (cases d; cases e) (simp_all add: word_uint_eq_iff)

instantiation diagnostic :: linorder
begin

definition less_eq_diagnostic :: "diagnostic \<Rightarrow> diagnostic \<Rightarrow> bool" where
  "d \<le> e \<longleftrightarrow> check_of d < check_of e \<or> check_of d = check_of e \<and> check_value d \<le> check_value e"

definition less_diagnostic :: "diagnostic \<Rightarrow> diagnostic \<Rightarrow> bool" where
  "d < e \<longleftrightarrow> check_of d < check_of e \<or> check_of d = check_of e \<and> check_value d < check_value e"

instance
  by standard (auto simp: less_eq_diagnostic_def less_diagnostic_def intro: check_inject)

end

definition loader_diagnostics :: "int \<Rightarrow> mach_context \<Rightarrow> diagnostic list" where
  "loader_diagnostics r c =
     (if r \<noteq> 0 then [Loader_Failed r] else []) @
     (if img_addr c = 0 \<or> v_addr c = 0 then [No_Image] else []) @
     (if entry_point c = 0 then [No_Entry_Point] else []) @
     (if chained_unresolved_bind_count c \<noteq> 0
      then [Unresolved_Binds (chained_unresolved_bind_count c)] else [])"

text \<open>
  \<open>main\<close> returns before it does anything, or calls the entry point: there the loaded program
  takes over. A call of the null entry point is a fault.
\<close>

datatype outcome = Returned int | Entered "diagnostic list" mach_context

definition main :: "host \<Rightarrow> cstr list \<Rightarrow> outcome res" where
  "main h args =
     (if length args < 2 then Ok (Returned (-1))
      else
        let c = (zero_context Map.empty)\<lparr>argc := int (length args) - 1, argv := tl args\<rparr> in
        res_bind (openExec h (args ! 1) c) (\<lambda>c1.
        res_bind (determineBit (mem c1) (memblock c1)) (\<lambda>b.
        let c2 = c1\<lparr>bit_width := b\<rparr> in
        res_bind (if drop_bit 6 b = 0 then loader h c2 else loader_64 h c2) (\<lambda>(r, c3).
        res_bind (do_bind h c3) (\<lambda>(r', c4).
        if entry_point c4 = 0 then Fault (Bad_Access 0)
        else Ok (Entered (loader_diagnostics r c3 @ (if r' \<noteq> 0 then [Bind_Failed r'] else [])) c4))))))"

section \<open>Opening the file\<close>

definition map_file_ok :: "host \<Rightarrow> byte list \<Rightarrow> bool" where
  "map_file_ok h bs \<longleftrightarrow> (\<forall>a. host_map_file h bs = Some a \<longrightarrow>
     a \<noteq> 0 \<and> unat a + length (page_filled bs) \<le> 2 ^ 64)"

lemma length_page_filled: "length bs \<le> length (page_filled bs) \<and> 4096 dvd length (page_filled bs)"
proof -
  have "(n + (4096 - n mod 4096) mod 4096) mod 4096 = 0" for n :: nat
  proof -
    have "n mod 4096 < 4096" by simp
    then have "n + (4096 - n mod 4096) = 4096 * (n div 4096) + 4096"
      using mult_div_mod_eq [of 4096 n] by linarith
    then have "(n + (4096 - n mod 4096)) mod 4096 = 0" by simp
    then show ?thesis by (simp add: mod_add_right_eq)
  qed
  then show ?thesis by (simp add: page_filled_def mod_eq_0_iff_dvd)
qed

lemma openExec_Ok:
  "openExec h f c = Ok c' \<longleftrightarrow> (\<exists>bs a. host_open h f = Some bs \<and> host_map_file h bs = Some a \<and>
     c' = c\<lparr>mem := map_file (mem c) a (page_filled bs), memblock := a\<rparr>)"
  by (auto simp: openExec_def split: option.splits)

section \<open>Outcomes\<close>

lemma determineBit_Ok:
  "determineBit m p = Ok b \<Longrightarrow>
     b = 32 \<and> load32 m p = Ok MH_MAGIC \<or> b = 64 \<and> load32 m p = Ok MH_MAGIC_64"
  by (auto simp: determineBit_def res_bind_eq_Ok split: if_splits)

lemma drop_bit_6: "drop_bit 6 (32 :: int) = 0" "drop_bit 6 (64 :: int) = 1"
  by simp_all

lemma main_entered:
  assumes "main h args = Ok (Entered ds c)"
  obtains c1 c2 b r c3 r' where "2 \<le> length args"
    and "openExec h (args ! 1) ((zero_context Map.empty)\<lparr>argc := int (length args) - 1, argv := tl args\<rparr>) = Ok c1"
    and "determineBit (mem c1) (memblock c1) = Ok b" and "c2 = c1\<lparr>bit_width := b\<rparr>"
    and "(if drop_bit 6 b = 0 then loader h c2 else loader_64 h c2) = Ok (r, c3)"
    and "do_bind h c3 = Ok (r', c)" and "entry_point c \<noteq> 0"
    and "ds = loader_diagnostics r c3 @ (if r' \<noteq> 0 then [Bind_Failed r'] else [])"
proof -
  let ?c0 = "(zero_context Map.empty)\<lparr>argc := int (length args) - 1, argv := tl args\<rparr>"
  have len: "2 \<le> length args" using assms by (auto simp: main_def split: if_splits)
  then have "\<not> length args < 2" by simp
  then obtain c1 b r c3 r' c4 where op: "openExec h (args ! 1) ?c0 = Ok c1"
    and bit: "determineBit (mem c1) (memblock c1) = Ok b"
    and ld: "(if drop_bit 6 b = 0 then loader h (c1\<lparr>bit_width := b\<rparr>) else loader_64 h (c1\<lparr>bit_width := b\<rparr>)) =
      Ok (r, c3)"
    and bnd: "do_bind h c3 = Ok (r', c4)"
    and res: "(if entry_point c4 = 0 then Fault (Bad_Access 0)
      else Ok (Entered (loader_diagnostics r c3 @ (if r' \<noteq> 0 then [Bind_Failed r'] else [])) c4)) =
      Ok (Entered ds c)"
    using assms unfolding main_def Let_def case_prod_beta
    by (simp only: if_False)
      (erule res_bind_okE, erule res_bind_okE, erule res_bind_okE, erule res_bind_okE,
        rule that, assumption, assumption, simp_all only: prod.collapse)
  from res have "entry_point c \<noteq> 0" "c4 = c"
    "ds = loader_diagnostics r c3 @ (if r' \<noteq> 0 then [Bind_Failed r'] else [])"
    by (simp_all split: if_split_asm)
  then show ?thesis using that [OF len op bit refl ld] bnd by simp
qed

text \<open>C22: error. When \<open>main\<close> does not fault or exit, it has either returned \<open>-1\<close> for lack of a
  file name, or it enters the program: at a non-null entry point, with the arguments shifted
  by one, the tables within bounds and the word size 32 or 64. Each check is reported at most
  once, in the order of the checks (an order on \<open>diagnostic\<close>); a missing entry point is never
  reported on a run that enters, a failed bind never at all. No report stops the run: in
  particular every 32-bit file that is entered was reported as failed.\<close>

theorem main_outcomes:
  assumes "main h args = Ok out"
  shows "case out of
    Returned r \<Rightarrow> r = -1 \<and> length args < 2
  | Entered ds c \<Rightarrow> entry_point c \<noteq> 0 \<and> ctx_ok c \<and> argv c = tl args \<and>
      argc c = int (length (argv c)) \<and> bit_width c \<in> {32, 64} \<and>
      sorted_wrt (\<lambda>d e. d < e) ds \<and> No_Entry_Point \<notin> set ds \<and> (\<forall>q. Bind_Failed q \<notin> set ds) \<and>
      (bit_width c = 32 \<longrightarrow> Loader_Failed (-1) \<in> set ds)"
proof (cases out)
  case (Returned r)
  then show ?thesis using assms by (auto simp: main_def Let_def res_bind_eq_Ok split: if_splits)
next
  case (Entered ds c)
  let ?c0 = "(zero_context Map.empty)\<lparr>argc := int (length args) - 1, argv := tl args\<rparr>"
  from assms Entered obtain c1 c2 b r c3 r' where len: "2 \<le> length args"
    and op: "openExec h (args ! 1) ?c0 = Ok c1" and bit: "determineBit (mem c1) (memblock c1) = Ok b"
    and c2: "c2 = c1\<lparr>bit_width := b\<rparr>"
    and ld: "(if drop_bit 6 b = 0 then loader h c2 else loader_64 h c2) = Ok (r, c3)"
    and bnd: "do_bind h c3 = Ok (r', c)" and entry: "entry_point c \<noteq> 0"
    and ds: "ds = loader_diagnostics r c3 @ (if r' \<noteq> 0 then [Bind_Failed r'] else [])"
    by (auto elim: main_entered)
  have ok: "ctx_ok c2" "argv c2 = tl args" "argc c2 = int (length args) - 1" "bit_width c2 = b"
    using op zero_context_ok [of Map.empty] by (auto simp: openExec_Ok c2 ctx_ok_def)
  have "extends c2 c3" using ld loader_extends loader_64_extends by (auto split: if_splits)
  then have ext: "extends c2 c" using do_bind_frame [OF bnd] extends_trans by blast
  then have "ctx_ok c" "argv c = tl args" "argc c = int (length args) - 1" "bit_width c = b"
    using ok by (auto simp: extends_def)
  moreover have "b = 32 \<Longrightarrow> Loader_Failed (-1) \<in> set ds"
    using ld loader_extends [of h c2 r c3] by (auto simp: ds loader_diagnostics_def)
  moreover have "int (length (tl args)) = int (length args) - 1" using len by simp
  moreover have "sorted_wrt (\<lambda>d e. d < e) ds"
    by (simp add: ds loader_diagnostics_def less_diagnostic_def)
  moreover have "No_Entry_Point \<notin> set ds"
    using entry do_bind_frame [OF bnd] by (auto simp: ds loader_diagnostics_def only_stores_def)
  moreover have "Bind_Failed q \<notin> set ds" for q
    using do_bind_frame [OF bnd] by (auto simp: ds loader_diagnostics_def)
  ultimately show ?thesis using Entered entry determineBit_Ok [OF bit] by auto
qed

section \<open>Running a well-formed file\<close>

text \<open>
  The bytes of an executable: header, commands, and the rest, which is at least the 72 bytes
  the loader may read past the last command.
\<close>

definition executable_file :: "byte list \<Rightarrow> mach_header_64 \<Rightarrow> lcmd list \<Rightarrow> bool" where
  "executable_file bs hdr cs \<longleftrightarrow>
     (\<exists>rest. bs = enc_mach_header_64 hdr @ concat (map enc_lcmd cs) @ rest \<and> 72 \<le> length rest) \<and>
     magic hdr = MH_MAGIC_64 \<and> filetype hdr = MH_EXECUTE \<and>
     (\<forall>x\<in>set cs. wf_lcmd x) \<and> unat (ncmds hdr) = length cs \<and> length cs \<le> INT_MAX"

definition opened_context :: "cstr list \<Rightarrow> addr \<Rightarrow> byte list \<Rightarrow> mach_context" where
  "opened_context args a bs =
     (zero_context (map_file Map.empty a (page_filled bs)))
       \<lparr>argc := int (length args) - 1, argv := tl args, memblock := a, bit_width := 64\<rparr>"

lemma executable_file_at:
  assumes exe: "executable_file bs hdr cs" and a: "a \<noteq> 0" "unat a + length (page_filled bs) \<le> 2 ^ 64"
  shows "file_at (mem (opened_context args a bs)) a hdr cs"
    and "command_room (mem (opened_context args a bs)) (a + 32) cs"
    and "load32 (mem (opened_context args a bs)) a = Ok MH_MAGIC_64"
proof -
  let ?m = "map_file Map.empty a (page_filled bs)"
  have mem: "mem (opened_context args a bs) = ?m" by (simp add: opened_context_def zero_context_def)
  obtain rest where bs: "bs = enc_mach_header_64 hdr @ concat (map enc_lcmd cs) @ rest"
    and rest: "72 \<le> length rest" using exe by (auto simp: executable_file_def)
  have "holds ?m a (page_filled bs)" using a by (rule map_file_holds)
  then have "holds ?m a (enc_mach_header_64 hdr @ concat (map enc_lcmd cs) @ rest)"
    by (simp add: page_filled_def bs holds_append)
  then have h: "holds ?m a (enc_mach_header_64 hdr)"
    "holds ?m (a + 32) (concat (map enc_lcmd cs) @ rest)"
    by (simp_all only: holds_append mh64.width of_nat_numeral)
  then show "file_at (mem (opened_context args a bs)) a hdr cs"
    using exe by (simp add: mem file_at_def holds_append mh64.width executable_file_def)
  have "mapped ?m (a + 32) (length (concat (map enc_lcmd cs) @ rest))"
    using h(2) by (rule holds_mapped)
  then show "command_room (mem (opened_context args a bs)) (a + 32) cs"
    unfolding list_room_def mem by (rule mapped_le) (use rest in simp)
  show "load32 (mem (opened_context args a bs)) a = Ok MH_MAGIC_64"
    using h(1) exe by (simp add: mem enc_mach_header_64_def reader_simps executable_file_def)
qed

text \<open>\<open>main\<close> after opening the file and reading its word size.\<close>

lemma main_opened:
  assumes "2 \<le> length args" and "host_open h (args ! 1) = Some bs" and "host_map_file h bs = Some a"
    and bit: "determineBit (mem (opened_context args a bs)) a = Ok b"
  shows "main h args =
    res_bind (if drop_bit 6 b = 0 then loader h ((opened_context args a bs)\<lparr>bit_width := b\<rparr>)
              else loader_64 h ((opened_context args a bs)\<lparr>bit_width := b\<rparr>)) (\<lambda>(r, c1).
    res_bind (do_bind h c1) (\<lambda>(r', c2).
    if entry_point c2 = 0 then Fault (Bad_Access 0)
    else Ok (Entered (loader_diagnostics r c1 @ (if r' \<noteq> 0 then [Bind_Failed r'] else [])) c2)))"
proof -
  let ?c = "opened_context args a bs"
  have "openExec h (args ! 1) ((zero_context Map.empty)\<lparr>argc := int (length args) - 1, argv := tl args\<rparr>) =
      Ok (?c\<lparr>bit_width := 0\<rparr>)"
    using assms(2,3) by (simp add: openExec_def opened_context_def zero_context_def)
  moreover have "determineBit (mem (?c\<lparr>bit_width := 0\<rparr>)) (memblock (?c\<lparr>bit_width := 0\<rparr>)) = Ok b"
    using bit by (simp add: opened_context_def)
  moreover have "?c\<lparr>bit_width := 0, bit_width := b\<rparr> = ?c\<lparr>bit_width := b\<rparr>" by simp
  moreover have "\<not> length args < 2" using assms(1) by simp
  ultimately show ?thesis by (simp add: main_def Let_def)
qed

text \<open>The run of \<open>main\<close> on such a file, as the composition of its parts.\<close>

lemma main_run_loaded:
  assumes "2 \<le> length args" and "host_open h (args ! 1) = Some bs" and "host_map_file h bs = Some a"
    and "map_file_ok h bs" and exe: "executable_file bs hdr cs"
    and ld: "loader_64 h (opened_context args a bs) =
      res_bind (res_fold (walk_lcmd h) cs ((opened_context args a bs)\<lparr>ptr := a + 32\<rparr>)) (\<lambda>c'. Ok (0, c'))"
  shows "main h args =
    res_bind (res_fold (walk_lcmd h) cs ((opened_context args a bs)\<lparr>ptr := a + 32\<rparr>)) (\<lambda>c1.
    res_bind (do_bind h c1) (\<lambda>(_, c2).
    if entry_point c2 = 0 then Fault (Bad_Access 0)
    else Ok (Entered (loader_diagnostics 0 c1) c2)))"
proof -
  let ?c = "opened_context args a bs"
  have a: "a \<noteq> 0" "unat a + length (page_filled bs) \<le> 2 ^ 64"
    using assms(3,4) by (auto simp: map_file_ok_def)
  have bit: "determineBit (mem ?c) a = Ok 64"
    using executable_file_at(3) [OF exe a, of args] by (simp add: determineBit_def macho_consts)
  have "?c\<lparr>bit_width := 64\<rparr> = ?c" by (simp add: opened_context_def zero_context_def)
  then show ?thesis using main_opened [OF assms(1-3) bit] ld
    by (auto simp: res_bind_assoc dest: do_bind_frame intro!: res_bind_cong)
qed

lemma main_run:
  assumes "2 \<le> length args" and "host_open h (args ! 1) = Some bs" and "host_map_file h bs = Some a"
    and "map_file_ok h bs" and exe: "executable_file bs hdr cs" and cl: "classic cs"
    and mmap: "mmap_ok h (map_file Map.empty a (page_filled bs))"
  shows "main h args =
    res_bind (res_fold (walk_lcmd h) cs ((opened_context args a bs)\<lparr>ptr := a + 32\<rparr>)) (\<lambda>c1.
    res_bind (do_bind h c1) (\<lambda>(_, c2).
    if entry_point c2 = 0 then Fault (Bad_Access 0)
    else Ok (Entered (loader_diagnostics 0 c1) c2)))"
proof (rule main_run_loaded [OF assms(1-5)])
  let ?c = "opened_context args a bs"
  have a: "a \<noteq> 0" "unat a + length (page_filled bs) \<le> 2 ^ 64"
    using assms(3,4) by (auto simp: map_file_ok_def)
  have f: "memblock ?c = a" "img_addr ?c = 0" "mem ?c = map_file Map.empty a (page_filled bs)"
    by (simp_all add: opened_context_def zero_context_def)
  show "loader_64 h ?c =
      res_bind (res_fold (walk_lcmd h) cs (?c\<lparr>ptr := a + 32\<rparr>)) (\<lambda>c'. Ok (0, c'))"
    using loader_64_classic_aux [of ?c hdr cs h] executable_file_at [OF exe a, of args] exe cl mmap
    by (simp add: f executable_file_def)
qed

section \<open>Files that are not executables\<close>

text \<open>With no binds, the binder only lists the two libraries of the host.\<close>

lemma do_bind_nothing:
  assumes "b_list c = []" and "d_list c = []" and "alloc_ok h"
  shows "do_bind h c = Ok (0, c\<lparr>d_list := default_libs\<rparr>)"
proof -
  let ?c = "c\<lparr>d_list := default_libs\<rparr>"
  have "bind_library h i ?c = Ok ?c" if "i < 2" for i
    using that assms(1) by (auto simp: less_2_cases_iff bind_library_def default_libs_def Let_def)
  then have "for_upto 0 (Suc (Suc 0)) (bind_library h) ?c = Ok ?c" by (simp add: for_upto_Suc)
  then show ?thesis
    using assms by (simp add: do_bind_def dylib_list_retriever_def default_libs_def INT_MAX_def alloc_ok_def)
qed

text \<open>The two headers have their first 28 bytes in common.\<close>

lemma header_at:
  assumes "holds m a (enc_mach_header hdr)"
  shows "load32 m a = Ok (magic hdr)" and "read_mach_header m a = Ok hdr"
    and "mapped m (a + 28) 4 \<Longrightarrow> \<exists>hdr'. read_mach_header_64 m a = Ok hdr' \<and> filetype hdr' = filetype hdr"
proof -
  show "load32 m a = Ok (magic hdr)" using assms by (simp add: enc_mach_header_def reader_simps)
  show "read_mach_header m a = Ok hdr" using assms by (simp add: mh32.dec_iff)
  assume "mapped m (a + 28) 4"
  then have "is_ok (load32 m (a + 28))" by (simp add: reader_total)
  then obtain v where v: "load32 m (a + 28) = Ok v" by (auto simp: is_ok_iff)
  have "load32 m a = Ok (magic hdr)" "load32 m (a + 4) = Ok (cputype hdr)" "load32 m (a + 8) = Ok (cpusubtype hdr)"
    "load32 m (a + 12) = Ok (filetype hdr)" "load32 m (a + 16) = Ok (ncmds hdr)"
    "load32 m (a + 20) = Ok (sizeofcmds hdr)" "load32 m (a + 24) = Ok (hdr_flags hdr)"
    using assms by (simp_all add: enc_mach_header_def reader_simps)
  then show "\<exists>hdr'. read_mach_header_64 m a = Ok hdr' \<and> filetype hdr' = filetype hdr"
    by (simp add: read_mach_header_64_def v)
qed

text \<open>C23: error. \<open>main\<close> never enters a file that is not an executable, but only a wrong magic
  number ends it in order: it exits with \<open>-1\<close>. A Mach-O file of another type (a library, an
  object file) is refused by the loader with \<open>-1\<close>, and \<open>main\<close> goes on to bind nothing and to
  call the null entry point.\<close>

theorem main_refuses:
  assumes "2 \<le> length args" and "host_open h (args ! 1) = Some bs" and "host_map_file h bs = Some a"
    and "map_file_ok h bs" and "alloc_ok h" and hdr: "take 28 (page_filled bs) = enc_mach_header hdr"
    and bad: "magic hdr \<notin> {MH_MAGIC, MH_MAGIC_64} \<or> filetype hdr \<noteq> MH_EXECUTE"
  shows "main h args = Fault (if magic hdr \<in> {MH_MAGIC, MH_MAGIC_64} then Bad_Access 0 else Exit_Program (-1))"
proof -
  let ?c = "opened_context args a bs" and ?m = "map_file Map.empty a (page_filled bs)"
  have a: "a \<noteq> 0" "unat a + length (page_filled bs) \<le> 2 ^ 64"
    using assms(3,4) by (auto simp: map_file_ok_def)
  have "length (take 28 (page_filled bs)) = 28" unfolding hdr by (simp add: mh32.width)
  then have len: "28 \<le> length (page_filled bs)" by simp
  then have room: "32 \<le> length (page_filled bs)" using length_page_filled [of bs] by (auto dest: dvd_imp_le)
  have all: "holds ?m a (page_filled bs)" using a by (rule map_file_holds)
  have "page_filled bs = enc_mach_header hdr @ drop 28 (page_filled bs)" by (simp flip: hdr)
  then have "holds ?m a (enc_mach_header hdr)" using all by (metis holds_append)
  note at = header_at [OF this]
  have "mapped ?m (a + 28) 4"
    using mapped_numeral [OF mapped_le [OF holds_mapped [OF all] room], of _ 4] by simp
  then obtain hdr' where hdr': "read_mach_header_64 ?m a = Ok hdr'" "filetype hdr' = filetype hdr"
    using at(3) by blast
  have mem: "mem ?c = ?m" by (simp add: opened_context_def zero_context_def)
  show ?thesis
  proof (cases "magic hdr \<in> {MH_MAGIC, MH_MAGIC_64}")
    case False
    have "openExec h (args ! 1) ((zero_context Map.empty)\<lparr>argc := int (length args) - 1, argv := tl args\<rparr>) =
        Ok (?c\<lparr>bit_width := 0\<rparr>)"
      using assms(2,3) by (simp add: openExec_def opened_context_def zero_context_def)
    moreover have "determineBit ?m a = Fault (Exit_Program (-1))"
      using False at(1) by (simp add: determineBit_def)
    ultimately show ?thesis
      using assms(1) False by (simp add: main_def Let_def mem) (simp add: opened_context_def)
  next
    case True
    let ?b = "if magic hdr = MH_MAGIC then 32 else 64 :: int"
    let ?d = "?c\<lparr>bit_width := ?b, ptr := a\<rparr>"
    have "determineBit (mem ?c) a = Ok ?b" using True at(1) by (auto simp: determineBit_def mem)
    note run = main_opened [OF assms(1-3) this]
    have "filetype hdr \<noteq> MH_EXECUTE" using bad True by blast
    then have "(if drop_bit 6 ?b = 0 then loader h (?c\<lparr>bit_width := ?b\<rparr>) else loader_64 h (?c\<lparr>bit_width := ?b\<rparr>)) =
        Ok (-1, ?d)"
      using at(2) hdr' by (simp add: loader_def loader_64_def mem) (simp add: opened_context_def)
    moreover have "do_bind h ?d = Ok (0, ?d\<lparr>d_list := default_libs\<rparr>)"
      by (rule do_bind_nothing) (use assms(5) in \<open>simp_all add: opened_context_def zero_context_def\<close>)
    ultimately show ?thesis using run True by (simp add: opened_context_def zero_context_def)
  qed
qed

section \<open>Examples\<close>

definition file_host :: host where
  "file_host = example_host\<lparr>host_open := (\<lambda>_. Some example_file)\<rparr>"

lemma length_page_filled_example: "length (page_filled example_file) = 4096"
  by (simp add: page_filled_def example_lengths)

lemma file_host_ok: "map_file_ok file_host example_file"
  by (simp add: map_file_ok_def file_host_def example_host_def length_page_filled_example split: if_splits)

text \<open>A 64-bit object file of one page.\<close>

definition object_header :: mach_header where
  "object_header = \<lparr>magic = MH_MAGIC_64, cputype = 7, cpusubtype = 3, filetype = 1, ncmds = 0,
     sizeofcmds = 0, hdr_flags = 0\<rparr>"

definition object_file :: "byte list" where
  "object_file = enc_mach_header object_header @ replicate 4068 0"

lemma main_refuses_witness:
  "main (example_host\<lparr>host_open := (\<lambda>_. Some object_file)\<rparr>) [lit ''maloader'', lit ''a.o''] = Fault (Bad_Access 0)"
proof -
  let ?h = "example_host\<lparr>host_open := (\<lambda>_. Some object_file)\<rparr>"
  have len: "length object_file = 4096" by (simp add: object_file_def mh32.width)
  then have page: "page_filled object_file = object_file" by (simp add: page_filled_def)
  have "take 28 object_file = enc_mach_header object_header" by (simp add: object_file_def mh32.width)
  moreover have map: "host_map_file ?h object_file = Some 0x1000" using len by (auto simp: example_host_def)
  moreover have "map_file_ok ?h object_file" unfolding map_file_ok_def map by (simp add: page len)
  moreover have "alloc_ok ?h" by (simp add: alloc_ok_def example_host_def)
  ultimately show ?thesis
    using main_refuses [of "[lit ''maloader'', lit ''a.o'']" ?h object_file "0x1000" object_header]
    by (simp add: page object_header_def macho_consts)
qed

end
