(* ===== verification/Mal_Symbols.thy ===== *)
theory Mal_Symbols
  imports Mal_Loader
begin

text \<open>
  The symbol tables: \<open>LC_SYMTAB\<close> of either loader. The two loops differ in the symbol record, so
  the walk over the table is proved once, in the locale \<open>symbol_table\<close> over the codec of the
  record, and interpreted for \<open>symbol_step_64\<close> and \<open>symbol_step_32\<close>: the entry point becomes
  the relocated value of the last symbol named \<open>_main\<close>.
\<close>

section \<open>Tables\<close>

text \<open>The symbols of a table and their names, in memory.\<close>

definition symbols_listed ::
  "('n \<Rightarrow> byte list) \<Rightarrow> ('n \<Rightarrow> u32) \<Rightarrow> mach_context \<Rightarrow> symtab_command \<Rightarrow> ('n \<times> cstr) list \<Rightarrow> bool" where
  "symbols_listed enc strx c t es \<longleftrightarrow> length es = unat (nsyms t) \<and>
     holds (mem c) (memblock c + ucast (symoff t)) (concat (map (enc \<circ> fst) es)) \<and>
     (\<forall>(n, s) \<in> set es. c_string (mem c) (memblock c + ucast (stroff t) + ucast (strx n)) = Ok s)"

text \<open>What the table says: the relocated value of the last symbol named \<open>_main\<close>.\<close>

definition last_main :: "('n \<Rightarrow> addr) \<Rightarrow> mach_context \<Rightarrow> ('n \<times> cstr) list \<Rightarrow> addr" where
  "last_main val c es =
     fold (\<lambda>(n, s) e. if s = MAIN_SYMBOL then val n - v_addr c + img_addr c else e) es (entry_point c)"

lemma last_main_snoc:
  "last_main val c (es @ [e]) =
     (if snd e = MAIN_SYMBOL then val (fst e) - v_addr c + img_addr c else last_main val c es)"
  by (cases e) (simp add: last_main_def)

lemma last_main_none: "MAIN_SYMBOL \<notin> snd ` set es \<Longrightarrow> last_main val c es = entry_point c"
  by (induction es rule: rev_induct) (auto simp: last_main_snoc, simp add: last_main_def)

text \<open>A table whose step reads the symbol at its index, and its name.\<close>

locale symbol_table = fixed_codec good enc dec width
  for good :: "'n \<Rightarrow> bool" and enc :: "'n \<Rightarrow> byte list" and dec :: "memory \<Rightarrow> addr \<Rightarrow> 'n res" and width :: nat +
  fixes strx :: "'n \<Rightarrow> u32" and val :: "'n \<Rightarrow> addr"
    and step :: "symtab_command \<Rightarrow> nat \<Rightarrow> mach_context \<Rightarrow> mach_context res"
  assumes step_symbol:
    "dec (mem c) (memblock c + ucast (symoff t) + of_nat (width * i)) = Ok n \<Longrightarrow>
     c_string (mem c) (memblock c + ucast (stroff t) + ucast (strx n)) = Ok s \<Longrightarrow>
     step t i c = int_increment i
       (if s = MAIN_SYMBOL then c\<lparr>entry_point := val n - v_addr c + img_addr c\<rparr> else c)"
begin

lemma step_at:
  assumes at: "symbols_listed enc strx c t es" and good: "\<forall>e\<in>set es. good (fst e)"
    and i: "i < length es" "i < INT_MAX" and st: "only_entry c u"
  shows "step t i u =
    Ok (if snd (es ! i) = MAIN_SYMBOL
        then u\<lparr>entry_point := val (fst (es ! i)) - v_addr c + img_addr c\<rparr> else u)"
proof -
  obtain n s where e: "es ! i = (n, s)" by (cases "es ! i")
  have "dec (mem c) (memblock c + ucast (symoff t) + of_nat (width * i)) = Ok (map fst es ! i)"
    using at i good by (intro dec_array) (auto simp: symbols_listed_def)
  moreover have "(n, s) \<in> set es" using e i(1) nth_mem by metis
  then have "c_string (mem c) (memblock c + ucast (stroff t) + ucast (strx n)) = Ok s"
    using at by (auto simp: symbols_listed_def)
  ultimately show ?thesis
    using st i e step_symbol [of u t i n s] by (auto simp: only_entry_def int_increment_def)
qed

lemma table_run:
  assumes at: "symbols_listed enc strx c t es" and good: "\<forall>e\<in>set es. good (fst e)"
    and count: "length es \<le> INT_MAX"
  shows "for_upto 0 (unat (nsyms t)) (step t) c = Ok (c\<lparr>entry_point := last_main val c es\<rparr>)"
proof -
  define P where "P j u \<longleftrightarrow> u = c\<lparr>entry_point := last_main val c (take j es)\<rparr>" for j u
  have n: "length es = unat (nsyms t)" using at by (simp add: symbols_listed_def)
  have "\<exists>u. for_upto 0 (length es) (step t) c = Ok u \<and> P (length es) u"
  proof (rule for_upto_total)
    show "P 0 c" by (simp add: P_def last_main_def)
    fix j u assume j: "j < length es" and u: "P j u"
    then have "step t j u =
        Ok (if snd (es ! j) = MAIN_SYMBOL
            then u\<lparr>entry_point := val (fst (es ! j)) - v_addr c + img_addr c\<rparr> else u)"
      using count by (intro step_at [OF at good]) (auto simp: P_def only_entry_def)
    moreover have "take (Suc j) es = take j es @ [es ! j]"
      using j by (simp add: take_Suc_conv_app_nth)
    ultimately show "\<exists>u'. step t j u = Ok u' \<and> P (Suc j) u'"
      using u by (auto simp: P_def last_main_snoc)
  qed simp
  then show ?thesis using n by (simp add: P_def)
qed

end

lemma main_symbol_nonzero: "0 \<notin> set MAIN_SYMBOL"
  by (simp add: MAIN_SYMBOL_def lit_def)

interpretation syms64: symbol_table "\<lambda>_. True" enc_nlist_64 read_nlist_64 16 n_strx n_value symbol_step_64
proof unfold_locales
  fix c :: mach_context and t :: symtab_command and i n s
  assume n: "read_nlist_64 (mem c) (memblock c + ucast (symoff t) + of_nat (16 * i)) = Ok n"
    and s: "c_string (mem c) (memblock c + ucast (stroff t) + ucast (n_strx n)) = Ok s"
  then show "symbol_step_64 t i c = int_increment i
      (if s = MAIN_SYMBOL then c\<lparr>entry_point := n_value n - v_addr c + img_addr c\<rparr> else c)"
    using str_eq_c_string [OF s main_symbol_nonzero] by (simp add: symbol_step_64_def Let_def)
qed

interpretation syms32: symbol_table "\<lambda>_. True" enc_nlist read_nlist 12 n_strx32 "\<lambda>n. ucast (n_value32 n)" symbol_step_32
  by unfold_locales (simp add: symbol_step_32_def Let_def algebra_simps)

abbreviation symbols_at :: "mach_context \<Rightarrow> symtab_command \<Rightarrow> (nlist_64 \<times> cstr) list \<Rightarrow> bool" where
  "symbols_at \<equiv> symbols_listed enc_nlist_64 n_strx"

abbreviation symbols_at_32 :: "mach_context \<Rightarrow> symtab_command \<Rightarrow> (nlist \<times> cstr) list \<Rightarrow> bool" where
  "symbols_at_32 \<equiv> symbols_listed enc_nlist n_strx32"

abbreviation entry_of :: "mach_context \<Rightarrow> (nlist_64 \<times> cstr) list \<Rightarrow> addr" where
  "entry_of \<equiv> last_main n_value"

abbreviation entry_of_32 :: "mach_context \<Rightarrow> (nlist \<times> cstr) list \<Rightarrow> addr" where
  "entry_of_32 \<equiv> last_main (\<lambda>n. ucast (n_value32 n))"

lemma symbols_run:
  "symbols_at c t es \<Longrightarrow> length es \<le> INT_MAX \<Longrightarrow>
   for_upto 0 (unat (nsyms t)) (symbol_step_64 t) c = Ok (c\<lparr>entry_point := entry_of c es\<rparr>)"
  using syms64.table_run by blast

lemma symbols_run_32:
  "symbols_at_32 c t es \<Longrightarrow> length es \<le> INT_MAX \<Longrightarrow>
   for_upto 0 (unat (nsyms t)) (symbol_step_32 t) c = Ok (c\<lparr>entry_point := entry_of_32 c es\<rparr>)"
  using syms32.table_run by blast

lemma load_symtab_64_entry:
  assumes "read_symtab_command (mem c) (ptr c) = Ok t" and "symbols_at c t es"
    and "length es \<le> INT_MAX"
  shows "load_symtab_64 c = Ok (c\<lparr>entry_point := entry_of c es\<rparr>)"
  using assms symbols_run by (simp add: load_symtab_64_def)

text \<open>C21: functional. With the symbol table and its names in memory, \<open>LC_SYMTAB\<close> sets the
  entry point to the relocated value of the last symbol named \<open>_main\<close>, keeps it when there is
  none, and changes nothing else; in the 32-bit loader as well, whose symbols are 12 bytes
  with a 32-bit value.\<close>

theorem load_symtab_entry:
  assumes "read_symtab_command (mem c) (ptr c) = Ok t"
  shows "(symbols_at c t es \<and> length es \<le> INT_MAX \<longrightarrow>
      load_symtab_64 c = Ok (c\<lparr>entry_point := entry_of c es\<rparr>)) \<and>
    (symbols_at_32 c t fs \<and> length fs \<le> INT_MAX \<longrightarrow>
      load_symtab_32 c = Ok (c\<lparr>entry_point := entry_of_32 c fs\<rparr>)) \<and>
    (MAIN_SYMBOL \<notin> snd ` set es \<longrightarrow> entry_of c es = entry_point c) \<and>
    (MAIN_SYMBOL \<notin> snd ` set fs \<longrightarrow> entry_of_32 c fs = entry_point c)"
  using assms symbols_run symbols_run_32 last_main_none [of es] last_main_none [of fs]
  by (simp add: load_symtab_64_def load_symtab_32_def)

section \<open>Examples\<close>

definition example_symtab :: symtab_command where
  "example_symtab = \<lparr>cmd = LC_SYMTAB, cmdsize = 24, symoff = 24, nsyms = 1, stroff = 40, strsize = 6\<rparr>"

definition example_main :: nlist_64 where
  "example_main = \<lparr>n_strx = 0, n_type = 0x0F, n_sect = 1, n_desc = 0, n_value = 0x100000F00\<rparr>"

definition example_main_32 :: nlist where
  "example_main_32 = \<lparr>n_strx32 = 0, n_type32 = 0x0F, n_sect32 = 1, n_desc32 = 0, n_value32 = 0x1F00\<rparr>"

text \<open>The file, with the symbol padded to the place of the names.\<close>

definition symtab_file :: "byte list \<Rightarrow> byte list" where
  "symtab_file entry = (enc_symtab_command example_symtab @ entry) @ lit ''_main'' @ [0]"

definition symtab_context :: "byte list \<Rightarrow> addr \<Rightarrow> mach_context" where
  "symtab_context entry va = (zero_context (map_file Map.empty 0x1000 (symtab_file entry)))
     \<lparr>memblock := 0x1000, ptr := 0x1000, img_addr := 0x200000000, v_addr := va\<rparr>"

lemma symtab_context_at:
  assumes "length entry = 16"
  shows "read_symtab_command (mem (symtab_context entry va)) (ptr (symtab_context entry va)) = Ok example_symtab"
    and "holds (mem (symtab_context entry va)) 0x1018 entry"
    and "c_string (mem (symtab_context entry va)) 0x1028 = Ok (lit ''_main'')"
proof -
  let ?c = "symtab_context entry va"
  have "holds (mem ?c) 0x1000 (symtab_file entry)"
    unfolding symtab_context_def zero_context_def
    by simp (rule map_file_holds; simp add: symtab_file_def symtab.width assms lit_def)
  then have h: "holds (mem ?c) 0x1000 (enc_symtab_command example_symtab)" "holds (mem ?c) 0x1018 entry"
    "holds (mem ?c) 0x1028 (lit ''_main'' @ [0])"
    unfolding symtab_file_def holds_append [of _ _ "enc_symtab_command example_symtab @ entry"]
      holds_append [of _ _ "enc_symtab_command example_symtab"]
    by (simp_all add: symtab.width assms)
  show "read_symtab_command (mem ?c) (ptr ?c) = Ok example_symtab"
    using h(1) by (simp add: symtab_context_def symtab.dec_iff)
  show "holds (mem ?c) 0x1018 entry" by (rule h(2))
  show "c_string (mem ?c) 0x1028 = Ok (lit ''_main'')"
    unfolding c_string_iff using h(3) by (simp add: lit_def)
qed

lemma symtab_context_fields:
  "memblock (symtab_context entry va) = 0x1000" "img_addr (symtab_context entry va) = 0x200000000"
  "v_addr (symtab_context entry va) = va"
  by (simp_all add: symtab_context_def)

definition example_symbols :: mach_context where
  "example_symbols = symtab_context (enc_nlist_64 example_main) 0x100000000"

definition example_symbols_32 :: mach_context where
  "example_symbols_32 = symtab_context (enc_nlist example_main_32 @ replicate 4 0) 0x1000"

lemma example_symbols_at:
  "symbols_at example_symbols example_symtab [(example_main, lit ''_main'')]"
  "symbols_at_32 example_symbols_32 example_symtab [(example_main_32, lit ''_main'')]"
  using symtab_context_at(2,3) [of "enc_nlist_64 example_main" "0x100000000"]
    symtab_context_at(2,3) [of "enc_nlist example_main_32 @ replicate 4 0" "0x1000"]
  by (simp_all add: symbols_listed_def example_symbols_def example_symbols_32_def symtab_context_fields
      nl64.width nl32.width holds_append)
    (simp_all add: example_symtab_def example_main_def example_main_32_def)

lemma load_symtab_entry_witness:
  "load_symtab_64 example_symbols = Ok (example_symbols\<lparr>entry_point := 0x200000F00\<rparr>) \<and>
   load_symtab_32 example_symbols_32 = Ok (example_symbols_32\<lparr>entry_point := 0x200000F00\<rparr>)"
proof -
  have "read_symtab_command (mem example_symbols) (ptr example_symbols) = Ok example_symtab"
    "read_symtab_command (mem example_symbols_32) (ptr example_symbols_32) = Ok example_symtab"
    unfolding example_symbols_def example_symbols_32_def
    by (rule symtab_context_at(1), simp add: nl64.width nl32.width)+
  then show ?thesis
    using load_symtab_entry [of example_symbols example_symtab "[(example_main, lit ''_main'')]"]
      load_symtab_entry [of example_symbols_32 example_symtab _ "[(example_main_32, lit ''_main'')]"]
      example_symbols_at
    by (simp add: INT_MAX_def last_main_def MAIN_SYMBOL_def example_symbols_def example_symbols_32_def
        symtab_context_fields) (simp add: example_main_def example_main_32_def)
qed

end
