(* ===== verification/Mal_Image.thy ===== *)
theory Mal_Image
  imports Mal_Symbols
begin

unbundle bit_operations_syntax

text \<open>
  The abstract \<open>image\<close> a file amounts to (where it is, its segment table, its binds, its applied
  and skipped fixups, its libraries, its entry point), and what it means that a loader's context stands for it:
  shared by the whole-program theorems of the two loaders.

  \<^item> \<open>represents\<close>: the tables of the context are those of the image; \<open>resident\<close>: the file is in
    memory as it was mapped.
  \<^item> \<open>binds_represent\<close>, \<open>library_represents\<close>, \<open>entry_represents\<close>: what a bind command, a library
    command and a symbol table do to the image.
  \<^item> \<open>image_bound\<close>: the binder on a context that stands for an image.
  \<^item> \<open>part_walk\<close>: the locale that carries the meaning of one part to the walk over all of them.
\<close>

section \<open>Bytes of a file\<close>

definition bytes_at :: "byte list \<Rightarrow> nat \<Rightarrow> byte list \<Rightarrow> bool" where
  "bytes_at bs off xs \<longleftrightarrow> off + length xs \<le> length bs \<and> take (length xs) (drop off bs) = xs"

lemma bytes_at_holds:
  assumes "holds m a bs" and "bytes_at bs off xs"
  shows "holds m (a + of_nat off) xs"
proof -
  have "bs = take off bs @ xs @ drop (off + length xs) bs"
    using assms(2) by (metis append_take_drop_id bytes_at_def drop_drop add.commute)
  moreover have "length (take off bs) = off" using assms(2) by (simp add: bytes_at_def)
  ultimately show ?thesis using assms(1) by (metis holds_append)
qed

lemma holds_sub:
  assumes "holds m0 p xs" and "\<And>x. m0 x \<noteq> None \<Longrightarrow> m x = m0 x"
  shows "holds m p xs"
  using assms(1)
proof (rule holds_cong)
  fix x assume "x \<in> region p (length xs)"
  then have "m0 x \<noteq> None" using holds_mapped [OF assms(1)] mapped_in_region by blast
  then show "m x = m0 x" by (rule assms(2))
qed

lemma holds_at:
  assumes "holds m p xs" and "i < length xs"
  shows "m (p + of_nat i) = Some (xs ! i)"
proof -
  have "xs = take i xs @ xs ! i # drop (Suc i) xs" using assms(2) by (rule id_take_nth_drop)
  then have "holds m (p + of_nat (length (take i xs))) (xs ! i # drop (Suc i) xs)"
    using assms(1) holds_append by metis
  then show ?thesis using assms(2) by simp
qed

lemma region_at: "i < n \<Longrightarrow> unat p + n \<le> 2 ^ 64 \<Longrightarrow> (p :: addr) + of_nat i \<in> region p n"
  using unat_add_of_nat [of p i] by (simp add: region_def)

text \<open>What the file must contain for a bind command, a symbol table and a library command.\<close>

definition ops_bytes :: "bind_op list \<Rightarrow> byte list" where
  "ops_bytes ops = concat (map enc_op ops)"

definition binds_in :: "byte list \<Rightarrow> dyld_info_command \<Rightarrow> bind_op list \<Rightarrow> bind_op list \<Rightarrow> bool" where
  "binds_in bs d ops lazy \<longleftrightarrow>
     list_all wf_op ops \<and> list_all wf_op lazy \<and>
     unat (bind_size d) = length (ops_bytes ops) \<and>
     bytes_at bs (unat (bind_off d)) (ops_bytes ops) \<and>
     unat (lazy_bind_size d) = length (ops_bytes lazy) \<and>
     bytes_at bs (unat (lazy_bind_off d)) (ops_bytes lazy)"

definition symbols_in ::
  "('n \<Rightarrow> byte list) \<Rightarrow> ('n \<Rightarrow> u32) \<Rightarrow> byte list \<Rightarrow> symtab_command \<Rightarrow> ('n \<times> cstr) list \<Rightarrow> bool" where
  "symbols_in enc strx bs t es \<longleftrightarrow>
     length es = unat (nsyms t) \<and> length es \<le> INT_MAX \<and>
     bytes_at bs (unat (symoff t)) (concat (map (enc \<circ> fst) es)) \<and>
     list_all (\<lambda>(n, s). 0 \<notin> set s \<and> bytes_at bs (unat (stroff t) + unat (strx n)) (s @ [0])) es"

definition library_in :: "dylib_command \<Rightarrow> byte list \<Rightarrow> cstr \<Rightarrow> bool" where
  "library_in d tail name \<longleftrightarrow>
     0 \<notin> set name \<and> bytes_at (enc_lcmd (LC_Dylib d tail)) (unat (dylib_name_offset d)) (name @ [0])"

section \<open>Images\<close>

text \<open>
  A fixup is a location with its raw entry and, for a bind, the name of its import. Entries that
  the code never reaches (behind the limit of their chain) are kept apart, as skipped.
\<close>

record image =
  im_addr :: addr
  im_base :: addr
  im_segments :: "segment_info list"
  im_binds :: "bind_entry list"
  im_fixups :: "(addr \<times> u64 \<times> cstr option) list"
  im_skipped :: "(addr \<times> u64) list"
  im_libs :: "cstr list"
  im_entry :: addr

definition empty_image :: image where
  "empty_image =
     \<lparr>im_addr = 0, im_base = 0, im_segments = [], im_binds = [], im_fixups = [], im_skipped = [], im_libs = [],
      im_entry = 0\<rparr>"

text \<open>Where the segment \<open>name\<close> at \<open>va\<close> is recorded to be, and what an offset into it means.\<close>

definition placed_at :: "image \<Rightarrow> byte list \<Rightarrow> addr \<Rightarrow> addr" where
  "placed_at im name va =
     (if name_is name SEG_PAGEZERO then 0
      else if name_is name SEG_TEXT then im_addr im
      else if im_addr im \<noteq> 0 \<and> im_base im \<noteq> 0 then im_addr im + (va - im_base im)
      else 0)"

definition segment_place :: "image \<Rightarrow> int \<Rightarrow> u64 \<Rightarrow> addr" where
  "segment_place im i off =
     (if i < 0 \<or> int (length (im_segments im)) \<le> i then 0
      else let p = mapped_addr (im_segments im ! nat i) in if p = 0 then 0 else p + off)"

lemma segment_place_binds [simp]: "segment_place (im\<lparr>im_binds := bs\<rparr>) = segment_place im"
  by (intro ext) (simp add: segment_place_def)

text \<open>The steps that both loaders share.\<close>

definition add_segment :: "byte list \<Rightarrow> addr \<Rightarrow> u64 \<Rightarrow> image \<Rightarrow> image" where
  "add_segment name va sz im =
     im\<lparr>im_segments := take MACH_LOADER_MAX_SEGMENTS (im_segments im @
        [\<lparr>seg_name = name, seg_vmaddr = va, seg_vmsize = sz, mapped_addr = placed_at im name va\<rparr>])\<rparr>"

definition add_binds :: "bind_op list \<Rightarrow> bind_op list \<Rightarrow> image \<Rightarrow> image" where
  "add_binds ops lazy im =
     im\<lparr>im_binds := im_binds im @ run_ops (segment_place im) ops init_regs @
        run_ops (segment_place im) lazy init_regs\<rparr>"

definition set_entry :: "('n \<Rightarrow> addr) \<Rightarrow> ('n \<times> cstr) list \<Rightarrow> image \<Rightarrow> image" where
  "set_entry val es im =
     im\<lparr>im_entry := fold (\<lambda>(n, s) e. if s = MAIN_SYMBOL then val n - im_base im + im_addr im else e)
        es (im_entry im)\<rparr>"

definition add_library :: "cstr \<Rightarrow> image \<Rightarrow> image" where
  "add_library name im = im\<lparr>im_libs := im_libs im @ [name]\<rparr>"

lemmas image_step_defs = add_segment_def add_binds_def set_entry_def add_library_def

section \<open>Contexts that represent an image\<close>

definition lib_ok :: "memory \<Rightarrow> dylib_name \<Rightarrow> cstr \<Rightarrow> bool" where
  "lib_ok m d n \<longleftrightarrow> (\<exists>p. d = In_Memory p \<and> c_string m p = Ok n)"

definition represents :: "memory \<Rightarrow> image \<Rightarrow> mach_context \<Rightarrow> bool" where
  "represents m0 im c \<longleftrightarrow>
     img_addr c = im_addr im \<and> v_addr c = im_base im \<and>
     n_segment_info c = length (im_segments im) \<and>
     take (length (im_segments im)) (segments c) = im_segments im \<and>
     list_all2 (entry_ok m0) (b_list c) (im_binds im) \<and>
     list_all2 (lib_ok m0) (d_list c) (im_libs im) \<and>
     entry_point c = im_entry im \<and> ctx_ok c"

lemma represents_place:
  assumes "represents m0 im c"
  shows "bind_address_for_segment_offset c = segment_place im"
proof (intro ext)
  fix i off
  have im: "im_segments im = take (n_segment_info c) (segments c)"
    using assms unfolding represents_def by metis
  have "segments c ! nat i = im_segments im ! nat i" if "0 \<le> i" "i < int (n_segment_info c)"
    unfolding im using that by (simp add: nat_less_iff)
  then show "bind_address_for_segment_offset c i off = segment_place im i off"
    using assms by (simp add: bind_address_for_segment_offset_def segment_place_def represents_def Let_def)
qed

lemma represents_record:
  assumes "represents m0 im c" and "length name = 16"
  shows "represents m0 (add_segment name va sz im) (record_segment c name va sz)"
proof -
  have len: "length (segments c) = MACH_LOADER_MAX_SEGMENTS" "length (im_segments im) \<le> MACH_LOADER_MAX_SEGMENTS"
    using assms(1) by (auto simp: represents_def ctx_ok_def)
  have ok: "ctx_ok (record_segment c name va sz)"
    using assms extends_ok [OF record_segment_extends] by (simp add: represents_def)
  have place: "segment_mapped_addr c name va = placed_at im name va"
    using assms(1) by (simp add: segment_mapped_addr_def placed_at_def represents_def)
  show ?thesis
  proof (cases "n_segment_info c < MACH_LOADER_MAX_SEGMENTS")
    case True
    have "take (Suc (n_segment_info c)) ((segments c)[n_segment_info c := x]) =
        take (n_segment_info c) (segments c) @ [x]" for x
      using True len(1) by (simp add: take_Suc_conv_app_nth)
    then show ?thesis using True ok assms(1) place
      by (simp add: represents_def record_segment_def add_segment_def)
  next
    case False
    then have "length (im_segments im) = MACH_LOADER_MAX_SEGMENTS" using assms(1) len by (simp add: represents_def)
    then show ?thesis using False assms(1) by (simp add: represents_def record_segment_def add_segment_def)
  qed
qed

section \<open>The file in memory\<close>

definition resident :: "memory \<Rightarrow> addr \<Rightarrow> byte list \<Rightarrow> mach_context \<Rightarrow> bool" where
  "resident m0 f bs c \<longleftrightarrow> memblock c = f \<and> holds m0 f bs \<and> unat f + length bs < 2 ^ 64 \<and>
     (\<forall>x. m0 x \<noteq> None \<longrightarrow> mem c x = m0 x)"

lemma resident_holds: "resident m0 f bs c \<Longrightarrow> holds m0 p xs \<Longrightarrow> holds (mem c) p xs"
  by (erule holds_sub) (simp add: resident_def)

lemma resident_string: "resident m0 f bs c \<Longrightarrow> c_string m0 p = Ok s \<Longrightarrow> c_string (mem c) p = Ok s"
  using resident_holds by (simp add: c_string_iff)

lemma resident_bytes: "resident m0 f bs c \<Longrightarrow> bytes_at bs off xs \<Longrightarrow> holds m0 (f + of_nat off) xs"
  unfolding resident_def by (elim conjE) (rule bytes_at_holds)

text \<open>A bind stream of the file.\<close>

lemma stream_represents:
  assumes res: "resident m0 f bs c" and rep: "represents m0 im c" and alloc: "alloc_ok h"
    and ops: "list_all wf_op ops" and bytes: "bytes_at bs (unat (off :: u32)) (ops_bytes ops)"
    and size: "unat (sz :: u32) = length (ops_bytes ops)"
    and room: "length (im_binds im) + length (run_ops (segment_place im) ops init_regs) \<le> INT_MAX"
  shows "\<exists>xs. bind_list_retriever h c (f + ucast off) (f + ucast off + ucast sz) = Ok (c\<lparr>b_list := b_list c @ xs\<rparr>) \<and>
    represents m0 (im\<lparr>im_binds := im_binds im @ run_ops (segment_place im) ops init_regs\<rparr>) (c\<lparr>b_list := b_list c @ xs\<rparr>)"
proof -
  let ?p = "f + ucast off" and ?e = "f + ucast off + ucast sz"
  have off: "ucast off = (of_nat (unat off) :: addr)" and sz: "ucast sz = (of_nat (length (ops_bytes ops)) :: addr)"
    by (simp_all flip: size)
  have fits: "unat f + length bs < 2 ^ 64"
    and inside: "unat off + length (ops_bytes ops) \<le> length bs"
    using res bytes by (simp_all add: resident_def bytes_at_def)
  have "unat ?p = unat f + unat off"
    unfolding off by (rule unat_add_of_nat) (use fits inside in simp)
  moreover have e_eq: "?e = f + of_nat (unat off + length (ops_bytes ops))"
    unfolding off sz by (simp add: add.assoc)
  have "unat ?e = unat f + (unat off + length (ops_bytes ops))"
    unfolding e_eq by (rule unat_add_of_nat) (use fits inside in simp)
  ultimately have e: "unat ?p + length (concat (map enc_op ops)) = unat ?e"
    by (simp add: ops_bytes_def)
  have h0: "holds m0 ?p (concat (map enc_op ops))"
    using resident_bytes [OF res bytes] unfolding off by (simp add: ops_bytes_def)
  note place = represents_place [OF rep]
  have len: "length (b_list c) = length (im_binds im)"
    using rep by (auto simp: represents_def dest: list_all2_lengthD)
  obtain xs where xs: "bind_list_retriever h c ?p ?e = Ok (c\<lparr>b_list := b_list c @ xs\<rparr>)"
    "list_all2 (entry_ok m0) xs (run_ops (segment_place im) ops init_regs)"
    using bind_list_retriever_ops [of ops c ?p m0 ?e h] ops h0 resident_holds [OF res h0] e alloc room len place
    by (auto simp: list_all_iff)
  moreover have "ctx_ok (c\<lparr>b_list := b_list c @ xs\<rparr>)"
    using bind_list_retriever_binds [OF xs(1)] only_binds_extends extends_ok rep
    by (auto simp: represents_def)
  ultimately show ?thesis using rep by (auto simp: represents_def list_all2_appendI)
qed

lemma resident_binds [simp]: "resident m0 f bs (c\<lparr>b_list := xs\<rparr>) = resident m0 f bs c"
  by (simp add: resident_def)

text \<open>A bind command: both streams, in order.\<close>

lemma binds_represent:
  assumes res: "resident m0 f bs c" and rep: "represents m0 im c" and alloc: "alloc_ok h"
    and ok: "binds_in bs d ops lazy" and room: "length (im_binds (add_binds ops lazy im)) \<le> INT_MAX"
  shows "\<exists>xs. run_lcmd h (LC_Dyldinfo d) c = Ok (c\<lparr>b_list := xs\<rparr>) \<and>
    represents m0 (add_binds ops lazy im) (c\<lparr>b_list := xs\<rparr>)"
proof -
  let ?im = "im\<lparr>im_binds := im_binds im @ run_ops (segment_place im) ops init_regs\<rparr>"
  have mb: "memblock c = f" using res by (simp add: resident_def)
  obtain xs where xs: "bind_list_retriever h c (f + ucast (bind_off d)) (f + ucast (bind_off d) + ucast (bind_size d)) =
      Ok (c\<lparr>b_list := b_list c @ xs\<rparr>)" "represents m0 ?im (c\<lparr>b_list := b_list c @ xs\<rparr>)"
    using stream_represents [OF res rep alloc, of ops "bind_off d" "bind_size d"] ok room
    by (auto simp: binds_in_def add_binds_def)
  let ?c = "c\<lparr>b_list := b_list c @ xs\<rparr>"
  obtain ys where ys: "bind_list_retriever h ?c (f + ucast (lazy_bind_off d))
      (f + ucast (lazy_bind_off d) + ucast (lazy_bind_size d)) = Ok (?c\<lparr>b_list := b_list ?c @ ys\<rparr>)"
    "represents m0 (?im\<lparr>im_binds := im_binds ?im @ run_ops (segment_place ?im) lazy init_regs\<rparr>)
      (?c\<lparr>b_list := b_list ?c @ ys\<rparr>)"
    using stream_represents [OF _ xs(2) alloc, of f bs lazy "lazy_bind_off d" "lazy_bind_size d"] ok room res
    by (auto simp: binds_in_def add_binds_def)
  then show ?thesis using xs(1) mb
    by (intro exI [of _ "b_list c @ xs @ ys"]) (simp add: add_binds_def Let_def)
qed

text \<open>A symbol table.\<close>

lemma symbols_resident:
  assumes res: "resident m0 f bs c" and ok: "symbols_in enc strx bs t es"
  shows "symbols_listed enc strx c t es"
proof -
  have mb: "memblock c = f" using res by (simp add: resident_def)
  have "c_string (mem c) (f + ucast (stroff t) + ucast (strx n)) = Ok s" if e: "(n, s) \<in> set es" for n s
  proof -
    have at: "0 \<notin> set s" "bytes_at bs (unat (stroff t) + unat (strx n)) (s @ [0])"
      using ok e by (auto simp: symbols_in_def list_all_iff)
    have "f + of_nat (unat (stroff t) + unat (strx n)) = f + ucast (stroff t) + ucast (strx n)"
      by (simp add: add.assoc)
    then show ?thesis
      using resident_holds [OF res resident_bytes [OF res at(2)]] at(1) by (simp only: c_string_iff) simp
  qed
  moreover have "holds (mem c) (f + ucast (symoff t)) (concat (map (enc \<circ> fst) es))"
    using resident_holds [OF res resident_bytes [OF res]] ok by (fastforce simp: symbols_in_def)
  ultimately show ?thesis using ok mb by (auto simp: symbols_listed_def symbols_in_def)
qed

lemma entry_represents:
  assumes "represents m0 im c"
  shows "represents m0 (set_entry val es im) (c\<lparr>entry_point := last_main val c es\<rparr>)"
proof -
  have same: "img_addr c = im_addr im" "v_addr c = im_base im" "entry_point c = im_entry im"
    using assms by (simp_all add: represents_def)
  have "last_main val c es = im_entry (set_entry val es im)"
    unfolding last_main_def same set_entry_def by simp
  then show ?thesis using assms by (simp add: represents_def ctx_ok_def) (simp add: set_entry_def)
qed

text \<open>A library command, whose name lies in the command itself.\<close>

lemma library_represents:
  assumes res: "resident m0 f bs c" and rep: "represents m0 im c" and alloc: "alloc_ok h"
    and ok: "library_in d tail name" and here: "holds m0 (ptr c) (enc_lcmd (LC_Dylib d tail))"
    and room: "length (im_libs im) < INT_MAX"
  shows "\<exists>ds. run_lcmd h (LC_Dylib d tail) c = Ok (c\<lparr>d_list := ds\<rparr>) \<and>
    represents m0 (add_library name im) (c\<lparr>d_list := ds\<rparr>)"
proof -
  let ?p = "ptr c + ucast (dylib_name_offset d)"
  have str: "c_string m0 ?p = Ok name"
    using bytes_at_holds [OF here, of "unat (dylib_name_offset d)" "name @ [0]"] ok
    by (simp add: c_string_iff library_in_def)
  have len: "length (d_list c) = length (im_libs im)"
    using rep by (auto simp: represents_def dest: list_all2_lengthD)
  have "dylib_list_retriever h c (In_Memory ?p) = Ok (c\<lparr>d_list := d_list c @ [In_Memory ?p]\<rparr>)"
    using alloc room len by (simp add: dylib_list_retriever_def alloc_ok_def)
  then have "run_lcmd h (LC_Dylib d tail) c = Ok (c\<lparr>d_list := d_list c @ [In_Memory ?p]\<rparr>)"
    using resident_string [OF res str] by simp
  moreover have "represents m0 (add_library name im) (c\<lparr>d_list := d_list c @ [In_Memory ?p]\<rparr>)"
    using rep str room len by (auto simp: represents_def ctx_ok_def lib_ok_def add_library_def intro!: list_all2_appendI)
  ultimately show ?thesis by blast
qed

section \<open>The image in memory, and the binder\<close>

text \<open>
  Every import has a name, and the pointers to bind that lie above the start \<open>a\<close> of the image are
  inside its \<open>n\<close> bytes and do not overlap each other.
\<close>

definition imports_within :: "addr \<Rightarrow> nat \<Rightarrow> bind_entry list \<Rightarrow> bool" where
  "imports_within a n es \<longleftrightarrow>
     list_all (\<lambda>(s, p). s \<noteq> None \<and> (a < p \<longrightarrow> unat p + 8 \<le> unat a + n)) es \<and>
     sorted_wrt (\<lambda>(_, p) (_, q). a < p \<longrightarrow> a < q \<longrightarrow> apart p 8 q 8) es"

definition stands :: "memory \<Rightarrow> addr \<Rightarrow> nat \<Rightarrow> image \<Rightarrow> mach_context \<Rightarrow> bool" where
  "stands m0 a n im c \<longleftrightarrow> represents m0 im c \<and> (\<forall>x. m0 x \<noteq> None \<longrightarrow> mem c x = m0 x) \<and>
     im_addr im = a \<and> mapped (mem c) a n \<and> (\<forall>x\<in>region a n. m0 x = None)"

definition import_names :: "image \<Rightarrow> cstr list" where
  "import_names im = map (\<lambda>e. case fst e of Some s \<Rightarrow> s | None \<Rightarrow> []) (im_binds im)"

text \<open>What the pointer of import \<open>k\<close> holds in the end, when it held \<open>v\<close> before the binder.\<close>

definition import_value :: "host \<Rightarrow> image \<Rightarrow> nat \<Rightarrow> u64 \<Rightarrow> u64" where
  "import_value h im k =
     bound_value h (map (host_dlopen h) (im_libs im @ [lit ''libc.so.6'', lit ''libm.so.6'']))
       (import_names im ! k)"

lemma stands_active:
  assumes "stands m0 a n im c"
  shows "active c k \<longleftrightarrow> k < length (im_binds im) \<and> a < snd (im_binds im ! k)"
    and "k < length (im_binds im) \<Longrightarrow> bind_address (b_list c ! k) = snd (im_binds im ! k)"
proof -
  have all: "list_all2 (entry_ok m0) (b_list c) (im_binds im)" and a: "img_addr c = a"
    using assms by (auto simp: stands_def represents_def)
  note len = list_all2_lengthD [OF all]
  show addr: "bind_address (b_list c ! k) = snd (im_binds im ! k)" if "k < length (im_binds im)"
    using list_all2_nthD2 [OF all that] by (simp add: entry_ok_def)
  show "active c k \<longleftrightarrow> k < length (im_binds im) \<and> a < snd (im_binds im ! k)"
    using addr len a by (auto simp: active_def)
qed

lemma stands_sites:
  assumes st: "stands m0 a n im c" and imp: "imports_within a n (im_binds im)" and k: "active c k"
  shows "region (bind_address (b_list c ! k)) 8 \<subseteq> region a n"
    and "mapped (mem c) (bind_address (b_list c ! k)) 8"
proof -
  let ?p = "bind_address (b_list c ! k)"
  have len: "k < length (im_binds im)" and lt: "a < ?p"
    using k stands_active [OF st, of k] by auto
  obtain s where e: "im_binds im ! k = (s, ?p)"
    using stands_active(2) [OF st len] by (cases "im_binds im ! k") simp
  have "im_binds im ! k \<in> set (im_binds im)" using len by simp
  then have top: "unat ?p + 8 \<le> unat a + n"
    using imp lt unfolding e imports_within_def list_all_iff by fastforce
  then show "region ?p 8 \<subseteq> region a n"
    using lt by (auto simp: region_def word_less_nat_alt)
  have map: "mapped (mem c) a n" using st by (simp add: stands_def)
  have "?p = a + of_nat (unat ?p - unat a)"
    using lt by (simp add: word_less_nat_alt of_nat_diff)
  moreover have "mapped (mem c) (a + of_nat (unat ?p - unat a)) 8"
    using lt top by (intro mapped_offset [OF map]) (simp add: word_less_nat_alt)
  ultimately show "mapped (mem c) ?p 8" by simp
qed

lemma stands_clear:
  assumes st: "stands m0 a n im c" and imp: "imports_within a n (im_binds im)" and str: "c_string m0 p = Ok s"
  shows "clear_of_binds c p (length s + 1)"
  unfolding clear_of_binds_def
proof (intro allI impI region_apart)
  fix k assume k: "active c k"
  have "holds m0 p (s @ [0])" using str by (simp add: c_string_iff)
  from holds_mapped [OF this] have "mapped m0 p (length s + 1)" by (simp only: length_append) simp
  then have "m0 x \<noteq> None" if "x \<in> region p (length s + 1)" for x
    using that by (rule mapped_in_region)
  moreover have "\<forall>x\<in>region a n. m0 x = None" using st by (simp add: stands_def)
  ultimately show "region (bind_address (b_list c ! k)) 8 \<inter> region p (length s + 1) = {}"
    using stands_sites(1) [OF st imp k] by blast
qed simp_all

lemma stands_string: "stands m0 a n im c \<Longrightarrow> c_string m0 p = Ok s \<Longrightarrow> c_string (mem c) p = Ok s"
  using holds_sub [of m0 p "s @ [0]" "mem c"] by (simp add: c_string_iff stands_def)

lemma stands_laid:
  assumes st: "stands m0 a n im c" and imp: "imports_within a n (im_binds im)"
  shows "binds_laid c (import_names im)" and "list_all2 (library_named c) (d_list c) (im_libs im)"
proof -
  have all: "list_all2 (entry_ok m0) (b_list c) (im_binds im)"
    and libs: "list_all2 (lib_ok m0) (d_list c) (im_libs im)" using st by (simp_all add: stands_def represents_def)
  have len: "length (b_list c) = length (im_binds im)" using all by (rule list_all2_lengthD)
  have name: "c_string m0 (func_name (b_list c ! k)) = Ok (import_names im ! k)"
    if "k < length (im_binds im)" for k
  proof -
    obtain so q where e: "im_binds im ! k = (so, q)" by (cases "im_binds im ! k")
    then have "so \<noteq> None" using imp nth_mem [OF that] unfolding imports_within_def list_all_iff by fastforce
    then have "fst (im_binds im ! k) \<noteq> None" by (simp add: e)
    then show ?thesis
      using list_all2_nthD2 [OF all that] that by (auto simp: entry_ok_def sym_ok_def import_names_def)
  qed
  have sep: "apart (bind_address (b_list c ! j)) 8 (bind_address (b_list c ! k)) 8"
    if jk: "j < k" and act: "active c j" "active c k" for j k
  proof -
    have J: "j < length (im_binds im)" "a < snd (im_binds im ! j)" and K: "k < length (im_binds im)" "a < snd (im_binds im ! k)"
      using act stands_active(1) [OF st] by blast+
    have "sorted_wrt (\<lambda>(_, p) (_, q). a < p \<longrightarrow> a < q \<longrightarrow> apart p 8 q 8) (im_binds im)"
      using imp by (simp add: imports_within_def)
    from sorted_wrt_nth_less [OF this jk K(1)] show ?thesis
      using J K stands_active(2) [OF st] by (simp add: case_prod_beta)
  qed
  show "binds_laid c (import_names im)"
    unfolding binds_laid_def
  proof (intro conjI allI impI)
    show "length (import_names im) = length (b_list c)" by (simp add: import_names_def len)
    fix k assume "k < length (import_names im)"
    then have k: "k < length (im_binds im)" by (simp add: import_names_def)
    show "c_string (mem c) (func_name (b_list c ! k)) = Ok (import_names im ! k)"
      by (rule stands_string [OF st name [OF k]])
    show "clear_of_binds c (func_name (b_list c ! k)) (length (import_names im ! k) + 1)"
      by (rule stands_clear [OF st imp name [OF k]])
  next
    fix k assume "active c k"
    then show "mapped (mem c) (bind_address (b_list c ! k)) 8" by (rule stands_sites(2) [OF st imp])
  next
    fix j k assume "active c j" "active c k" "j \<noteq> k"
    then show "apart (bind_address (b_list c ! j)) 8 (bind_address (b_list c ! k)) 8"
      using sep [of j k] sep [of k j] by (cases "j < k") (auto simp: apart_sym)
  qed
  show "list_all2 (library_named c) (d_list c) (im_libs im)"
    using libs
  proof (rule list_all2_mono)
    fix d name assume "lib_ok m0 d name"
    then obtain p where p: "d = In_Memory p" "c_string m0 p = Ok name" by (auto simp: lib_ok_def)
    then show "library_named c d name"
      using stands_string [OF st p(2)] stands_clear [OF st imp p(2)] by simp
  qed
qed

text \<open>The binder: every import gets its value, from the one it had, and nothing else in memory changes.\<close>

lemma image_bound:
  assumes st: "stands m0 a n im c" and imp: "imports_within a n (im_binds im)"
    and alloc: "alloc_ok h" and room: "length (im_libs im) + 2 \<le> INT_MAX"
  shows "\<exists>c'. do_bind h c = Ok (0, c') \<and> entry_point c' = im_entry im \<and> img_addr c' = a \<and>
    (\<forall>k < length (im_binds im). a < snd (im_binds im ! k) \<longrightarrow>
       (\<exists>v. load64 (mem c) (snd (im_binds im ! k)) = Ok v \<and>
            load64 (mem c') (snd (im_binds im ! k)) = Ok (import_value h im k v))) \<and>
    (\<forall>x. (\<forall>e\<in>set (im_binds im). a < snd e \<longrightarrow> x \<notin> region (snd e) 8) \<longrightarrow> mem c' x = mem c x)"
proof -
  note laid = stands_laid [OF st imp] and act = stands_active(1) [OF st] and addr = stands_active(2) [OF st]
  have "length (d_list c) = length (im_libs im)" using laid(2) by (rule list_all2_lengthD)
  then obtain c' where run: "do_bind h c = Ok (0, c')"
    and only: "only_stores (c\<lparr>d_list := d_list c @ default_libs\<rparr>) c'"
    and vals: "\<And>k v. active c k \<Longrightarrow> load64 (mem c) (bind_address (b_list c ! k)) = Ok v \<Longrightarrow>
      load64 (mem c') (bind_address (b_list c ! k)) = Ok (import_value h im k v)"
    and same: "\<And>x. \<forall>k. active c k \<longrightarrow> x \<notin> region (bind_address (b_list c ! k)) 8 \<Longrightarrow> mem c' x = mem c x"
    using do_bind_run [OF alloc _ laid] room by (auto simp: import_value_def)
  have "entry_point c' = im_entry im" "img_addr c' = a"
    using only st by (auto simp: only_stores_def stands_def represents_def)
  moreover have "\<exists>v. load64 (mem c) (snd (im_binds im ! k)) = Ok v \<and>
      load64 (mem c') (snd (im_binds im ! k)) = Ok (import_value h im k v)"
    if "k < length (im_binds im)" "a < snd (im_binds im ! k)" for k
  proof -
    have k: "active c k" using act that by simp
    from stands_sites(2) [OF st imp k] load_mapped(3) [of "mem c" "bind_address (b_list c ! k)"]
    obtain v where "load64 (mem c) (bind_address (b_list c ! k)) = Ok v" by (auto simp: is_ok_iff)
    from this vals [OF k this] show ?thesis using addr [OF that(1)] by auto
  qed
  moreover have "mem c' x = mem c x" if "\<forall>e\<in>set (im_binds im). a < snd e \<longrightarrow> x \<notin> region (snd e) 8" for x
    using that act addr by (intro same) auto
  ultimately show ?thesis using run by blast
qed

section \<open>Walking over the parts of a file\<close>

text \<open>
  A loader whose commands have parts (\<open>cmd_of\<close>) with a meaning (\<open>load\<close>) on an abstract state:
  if one command carries its part from a context that stands for a state (\<open>stands_for\<close>, with
  \<open>left\<close> the condition on the parts to come) to one that stands for the next state, then the
  walk over all commands computes the meaning of all parts.
\<close>

locale part_walk =
  fixes enc :: "'x \<Rightarrow> byte list" and walk :: "'x \<Rightarrow> mach_context \<Rightarrow> mach_context res" and cmd_of :: "'p \<Rightarrow> 'x"
    and load :: "'p \<Rightarrow> 's \<Rightarrow> 's" and image_of :: "'s \<Rightarrow> image" and m0 :: memory
    and stands_for :: "'s \<Rightarrow> mach_context \<Rightarrow> bool" and left :: "'s \<Rightarrow> 'p list \<Rightarrow> bool"
  assumes load_grows: "length (im_binds (image_of s)) \<le> length (im_binds (image_of (load p s))) \<and>
      length (im_libs (image_of s)) \<le> length (im_libs (image_of (load p s)))"
    and left_rest: "left s (p # ps) \<Longrightarrow> left (load p s) ps"
    and walk_part: "stands_for s c \<Longrightarrow> left s (p # ps) \<Longrightarrow> holds m0 (ptr c) (enc (cmd_of p)) \<Longrightarrow>
      length (im_binds (image_of (load p s))) \<le> INT_MAX \<Longrightarrow> length (im_libs (image_of (load p s))) \<le> INT_MAX \<Longrightarrow>
      \<exists>c'. walk (cmd_of p) c = Ok c' \<and> stands_for (load p s) c'"
    and walk_ptr: "walk x c = Ok c' \<Longrightarrow> ptr c' = ptr c + of_nat (length (enc x))"
begin

lemma loads_grow:
  "length (im_binds (image_of s)) \<le> length (im_binds (image_of (fold load ps s))) \<and>
   length (im_libs (image_of s)) \<le> length (im_libs (image_of (fold load ps s)))"
proof (induction ps arbitrary: s)
  case Nil
  then show ?case by simp
next
  case (Cons p ps)
  show ?case using load_grows [of s p] Cons.IH [of "load p s"] by (auto intro: order_trans)
qed

lemma walk_parts:
  assumes "stands_for s c" and "left s ps" and "holds m0 (ptr c) (concat (map enc (map cmd_of ps)))"
    and "length (im_binds (image_of (fold load ps s))) \<le> INT_MAX"
    and "length (im_libs (image_of (fold load ps s))) \<le> INT_MAX"
  shows "\<exists>c'. res_fold walk (map cmd_of ps) c = Ok c' \<and> stands_for (fold load ps s) c'"
  using assms
proof (induction ps arbitrary: s c)
  case Nil
  then show ?case by simp
next
  case (Cons p ps)
  have room: "length (im_binds (image_of (load p s))) \<le> INT_MAX" "length (im_libs (image_of (load p s))) \<le> INT_MAX"
    using loads_grow [of "load p s" ps] Cons.prems(4,5) by auto
  have here: "holds m0 (ptr c) (enc (cmd_of p))"
    "holds m0 (ptr c + of_nat (length (enc (cmd_of p)))) (concat (map enc (map cmd_of ps)))"
    using Cons.prems(3) by (simp_all add: holds_append)
  obtain c1 where c1: "walk (cmd_of p) c = Ok c1" "stands_for (load p s) c1"
    using walk_part [OF Cons.prems(1,2) here(1) room] by blast
  show ?case
    using Cons.IH [OF c1(2) left_rest [OF Cons.prems(2)]] c1(1) here(2) walk_ptr [OF c1(1)] Cons.prems(4,5)
    by simp
qed

end

end
