(* ===== verification/Mal_Fixups.thy ===== *)
theory Mal_Fixups
  imports Mal_Chained
begin

unbundle bit_operations_syntax

text \<open>
  The whole fixup blob of \<open>LC_DYLD_CHAINED_FIXUPS\<close>: a header, the table of segment starts and,
  per segment, the table of page starts. \<open>segment_fix\<close> is what the blob says about a segment,
  \<open>blob_at\<close> that its bytes are in memory.

  \<^item> \<open>blob_run\<close>: \<open>dump_chained_fixups\<close> applies the entries of all segments, segment after
    segment, each with its original raw value; segments that are not loaded, not mapped or in
    another pointer format are skipped, and so are the entries behind the 512th of a chain.
\<close>

section \<open>The tables\<close>

datatype segment_fix =
    No_Chains
  | Chains u32 chained_starts "u16 list" "(addr \<times> u64) list list"

fun fix_offset :: "segment_fix \<Rightarrow> u32" where
  "fix_offset No_Chains = 0"
| "fix_offset (Chains off s ps ess) = off"

text \<open>The blob: \<open>n\<close> bytes at \<open>b\<close>, a header, and the table of starts.\<close>

record blob =
  bl_base :: addr
  bl_size :: nat
  bl_header :: chained_fixups_header
  bl_fixes :: "segment_fix list"

definition bl_starts :: "blob \<Rightarrow> addr" where
  "bl_starts B = bl_base B + ucast (starts_offset (bl_header B))"

definition bl_table :: "blob \<Rightarrow> u32 \<Rightarrow> addr" where
  "bl_table B off = bl_starts B + ucast off"

text \<open>A segment's table lies in the blob and is not empty.\<close>

fun fix_at :: "memory \<Rightarrow> blob \<Rightarrow> segment_fix \<Rightarrow> bool" where
  "fix_at m B No_Chains \<longleftrightarrow> True"
| "fix_at m B (Chains off s ps ess) \<longleftrightarrow> off \<noteq> 0 \<and>
     bl_table B off + 24 \<le> bl_base B + of_nat (bl_size B) \<and>
     starts_table m (bl_table B off) s ps \<and> length ess = length ps \<and>
     region (bl_table B off) (22 + 2 * length ps) \<subseteq> region (bl_base B) (bl_size B)"

definition blob_at :: "memory \<Rightarrow> blob \<Rightarrow> bool" where
  "blob_at m B \<longleftrightarrow>
     holds m (bl_base B) (enc_chained_fixups_header (bl_header B)) \<and>
     28 \<le> bl_size B \<and> bl_size B < 2 ^ 32 \<and> unat (bl_base B) + bl_size B \<le> 2 ^ 64 \<and>
     unat (starts_offset (bl_header B)) < bl_size B \<and>
     bl_starts B + 4 \<le> bl_base B + of_nat (bl_size B) \<and>
     length (bl_fixes B) < 2 ^ 32 \<and>
     holds m (bl_starts B) (word_bytes 4 (of_nat (length (bl_fixes B)) :: u32) @
       concat (map (word_bytes 4) (map fix_offset (bl_fixes B)))) \<and>
     region (bl_starts B) (4 + 4 * length (bl_fixes B)) \<subseteq> region (bl_base B) (bl_size B) \<and>
     list_all (fix_at m B) (bl_fixes B)"

section \<open>The entries\<close>

text \<open>The image the fixups are for: its address and the segments recorded so far.\<close>

definition image_at :: "mach_context \<Rightarrow> addr \<Rightarrow> segment_info list \<Rightarrow> bool" where
  "image_at c img segs \<longleftrightarrow>
     img_addr c = img \<and> n_segment_info c = length segs \<and> (\<forall>i < length segs. segments c ! i = segs ! i)"

text \<open>The chains of segment \<open>i\<close> that will be walked, as one list per page.\<close>

fun fix_pages :: "segment_info list \<Rightarrow> nat \<Rightarrow> segment_fix \<Rightarrow> (addr \<times> u64) list list" where
  "fix_pages segs i No_Chains = []"
| "fix_pages segs i (Chains off s ps ess) =
     (if css_pointer_format s = MAL_DYLD_CHAINED_PTR_64_OFFSET \<and> i < length segs \<and>
         mapped_addr (segs ! i) \<noteq> 0
      then ess else [])"

definition fix_entries :: "segment_info list \<Rightarrow> blob \<Rightarrow> nat \<Rightarrow> (addr \<times> u64) list" where
  "fix_entries segs B i = concat (fix_pages segs i (bl_fixes B ! i))"

definition fix_applied :: "segment_info list \<Rightarrow> blob \<Rightarrow> nat \<Rightarrow> (addr \<times> u64) list" where
  "fix_applied segs B i = concat (map (take CHAIN_LIMIT) (fix_pages segs i (bl_fixes B ! i)))"

fun fix_chains :: "memory \<Rightarrow> addr \<Rightarrow> segment_info list \<Rightarrow> nat \<Rightarrow> segment_fix \<Rightarrow> bool" where
  "fix_chains m img segs i No_Chains \<longleftrightarrow> True"
| "fix_chains m img segs i (Chains off s ps ess) \<longleftrightarrow>
     (fix_pages segs i (Chains off s ps ess) \<noteq> [] \<longrightarrow>
      (\<forall>k < length ps. page_chain m img s k (ps ! k) (ess ! k)))"

text \<open>All chains of the image, in ascending order and outside the blob.\<close>

definition blob_chains :: "memory \<Rightarrow> addr \<Rightarrow> segment_info list \<Rightarrow> blob \<Rightarrow> bool" where
  "blob_chains m img segs B \<longleftrightarrow>
     (\<forall>i < length (bl_fixes B). fix_chains m img segs i (bl_fixes B ! i)) \<and>
     spaced (concat (map (fix_entries segs B) [0..<length (bl_fixes B)])) \<and>
     (\<forall>i < length (bl_fixes B). \<forall>(l, raw) \<in> set (fix_entries segs B i). apart l 8 (bl_base B) (bl_size B))"

lemma image_at_only: "image_at c img segs \<Longrightarrow> only_fixups c t \<Longrightarrow> image_at t img segs"
  by (simp add: image_at_def only_fixups_def)

lemma applied_subset: "set (fix_applied segs B i) \<subseteq> set (fix_entries segs B i)"
  by (auto simp: fix_applied_def fix_entries_def dest: in_set_takeD)

text \<open>
  All entries of the chains in the format the code handles, those that \<open>dump_chained_fixups\<close>
  applies (the first 512 of each page's chain), and those it never reaches.
\<close>

definition blob_entries :: "segment_info list \<Rightarrow> blob \<Rightarrow> (addr \<times> u64) list" where
  "blob_entries segs B = concat (map (fix_entries segs B) [0..<length (bl_fixes B)])"

definition blob_applied :: "segment_info list \<Rightarrow> blob \<Rightarrow> (addr \<times> u64) list" where
  "blob_applied segs B = concat (map (fix_applied segs B) [0..<length (bl_fixes B)])"

lemma blob_applied_entries: "set (blob_applied segs B) \<subseteq> set (blob_entries segs B)"
  using applied_subset by (fastforce simp: blob_applied_def blob_entries_def)

definition blob_skipped :: "segment_info list \<Rightarrow> blob \<Rightarrow> (addr \<times> u64) list" where
  "blob_skipped segs B = filter (\<lambda>e. e \<notin> set (blob_applied segs B)) (blob_entries segs B)"

lemma blob_applied_or_skipped:
  "set (blob_entries segs B) = set (blob_applied segs B) \<union> set (blob_skipped segs B)"
  using blob_applied_entries by (auto simp: blob_skipped_def)

section \<open>Reading the tables\<close>

lemma spaced_take_pages: "spaced (concat ess) \<Longrightarrow> spaced (concat (map (take n) ess))"
proof (induction ess)
  case (Cons es ess)
  then show ?case
    by (fastforce simp: spaced_def sorted_wrt_append sorted_wrt_take dest: in_set_takeD)
qed simp

lemma starts_table_cong:
  assumes "starts_table m seg s ps" and "region seg (22 + 2 * length ps) \<subseteq> R" and "\<And>a. a \<in> R \<Longrightarrow> m' a = m a"
  shows "starts_table m' seg s ps"
  using assms(1) by (rule starts_table_frame) (use assms(2,3) in blast)

lemma fix_at_cong:
  assumes "fix_at m B f" and "\<And>a. a \<in> region (bl_base B) (bl_size B) \<Longrightarrow> m' a = m a"
  shows "fix_at m' B f"
  using assms(1) starts_table_cong [OF _ _ assms(2)] by (cases f) auto

lemma length_offsets: "length (concat (map (word_bytes 4) (ws :: u32 list))) = 4 * length ws"
  by (simp add: c32.length_concat_enc)

lemma blob_at_cong:
  assumes B: "blob_at m B" and same: "\<And>a. a \<in> region (bl_base B) (bl_size B) \<Longrightarrow> m' a = m a"
  shows "blob_at m' B"
proof -
  have "holds m' (bl_base B) (enc_chained_fixups_header (bl_header B))"
    using B by (intro holds_cong [of m _ _ m'] same) (auto simp: blob_at_def chdr.width region_def)
  moreover have "holds m' (bl_starts B) (word_bytes 4 (of_nat (length (bl_fixes B)) :: u32) @
      concat (map (word_bytes 4) (map fix_offset (bl_fixes B))))"
  proof (rule holds_cong [of m])
    fix a assume "a \<in> region (bl_starts B) (length (word_bytes 4 (of_nat (length (bl_fixes B)) :: u32) @
      concat (map (word_bytes 4) (map fix_offset (bl_fixes B)))))"
    then have "a \<in> region (bl_starts B) (4 + 4 * length (bl_fixes B))"
      by (simp only: length_append length_word_bytes length_offsets length_map)
    then show "m' a = m a" using B by (intro same) (auto simp: blob_at_def)
  qed (use B in \<open>simp add: blob_at_def\<close>)
  moreover have "list_all (fix_at m' B) (bl_fixes B)"
    using B fix_at_cong [OF _ same] by (auto simp: blob_at_def list_all_iff)
  ultimately show ?thesis using B by (simp add: blob_at_def)
qed

lemma blob_fix: "blob_at m B \<Longrightarrow> i < length (bl_fixes B) \<Longrightarrow> fix_at m B (bl_fixes B ! i)"
  by (simp add: blob_at_def list_all_length)

lemma blob_loads:
  assumes B: "blob_at m B"
  shows "load32 m (bl_starts B) = Ok (of_nat (length (bl_fixes B)))"
    and "i < length (bl_fixes B) \<Longrightarrow> load32 m (bl_starts B + 4 + of_nat (4 * i)) = Ok (fix_offset (bl_fixes B ! i))"
proof -
  have h: "holds m (bl_starts B) (word_bytes 4 (of_nat (length (bl_fixes B)) :: u32))"
    "holds m (bl_starts B + 4) (concat (map (word_bytes 4) (map fix_offset (bl_fixes B))))"
    using B by (simp_all add: blob_at_def holds_append)
  show "load32 m (bl_starts B) = Ok (of_nat (length (bl_fixes B)))" using h(1) by (simp add: load32_iff)
  assume i: "i < length (bl_fixes B)"
  then have "load32 m (bl_starts B + 4 + of_nat (4 * i)) = Ok (map fix_offset (bl_fixes B) ! i)"
    by (intro c32.dec_array [OF _ h(2)]) simp_all
  then show "load32 m (bl_starts B + 4 + of_nat (4 * i)) = Ok (fix_offset (bl_fixes B ! i))" using i by simp
qed

lemma for_upto_reads: "(\<And>k. k < n \<Longrightarrow> body k () = Ok ()) \<Longrightarrow> for_upto 0 n body () = Ok ()"
  using for_upto_total [of 0 n "\<lambda>_ _. True" "()" body] by auto

section \<open>One segment\<close>

lemma fix_entries_apart:
  assumes "\<forall>(l, raw) \<in> set (fix_entries segs B i). apart l 8 (bl_base B) (bl_size B)"
    and "a \<in> region (bl_base B) (bl_size B)"
  shows "\<forall>(l, raw) \<in> set (fix_applied segs B i). a \<notin> region l 8"
  using assms applied_subset [of segs B i] by (fastforce simp: apart_def region_def)

lemma chains_run:
  assumes B: "blob_at (mem t) B" and i: "i < length (bl_fixes B)" and f: "bl_fixes B ! i = Chains off s ps ess"
    and at: "image_at t img segs" and chains: "fix_chains (mem t) img segs i (bl_fixes B ! i)"
    and sp: "spaced (fix_entries segs B i)"
    and ap: "\<forall>(l, raw) \<in> set (fix_entries segs B i). apart l 8 (bl_base B) (bl_size B)"
  shows "(if css_pointer_format s = MAL_DYLD_CHAINED_PTR_64_OFFSET
      then dump_chained_64_offset_entries h t b hdr i (bl_table B off) else Ok t) =
    res_fold (\<lambda>(l, raw). fixup_entry h b hdr l raw) (fix_applied segs B i) t"
proof (cases "css_pointer_format s = MAL_DYLD_CHAINED_PTR_64_OFFSET \<and> i < length segs \<and>
    mapped_addr (segs ! i) \<noteq> 0")
  case False
  then have "fix_applied segs B i = []" by (auto simp: fix_applied_def f)
  then show ?thesis using False at by (auto simp: dump_chained_64_offset_entries_def image_at_def)
next
  case True
  then have pages: "fix_pages segs i (bl_fixes B ! i) = ess" by (simp add: f)
  have tab: "fix_at (mem t) B (Chains off s ps ess)"
    using blob_fix [OF B i] unfolding f .
  have img: "img_addr t = img" "n_segment_info t = length segs" "segments t ! i = segs ! i"
    using at True by (simp_all add: image_at_def)
  have len: "length ess = length ps" using tab by simp
  have "pages_ready (mem t) (img_addr t) (bl_table B off) s ps ess 0"
    using tab chains pages len by (cases "ess = []") (auto simp: pages_ready_def img f)
  moreover have "table_apart (bl_table B off) ps (concat ess)"
    unfolding table_apart_def
  proof (safe intro!: region_apart)
    fix l raw x assume e: "(l, raw) \<in> set (concat ess)" and x: "x \<in> region l 8" "x \<in> region (bl_table B off) (22 + 2 * length ps)"
    have "apart l 8 (bl_base B) (bl_size B)" using ap e by (auto simp: fix_entries_def pages)
    moreover have "x \<in> region (bl_base B) (bl_size B)" using x(2) tab by auto
    ultimately show "x \<in> {}" using x(1) apart_disjoint by blast
  qed simp_all
  ultimately show ?thesis
    using pages_run [of t "bl_table B off" s ps ess i h b hdr] True sp len
    by (simp add: fix_applied_def fix_entries_def pages img)
qed

lemma segment_run:
  assumes B: "blob_at (mem t) B" and i: "i < length (bl_fixes B)"
    and at: "image_at t img segs" and chains: "fix_chains (mem t) img segs i (bl_fixes B ! i)"
    and sp: "spaced (fix_entries segs B i)"
    and ap: "\<forall>(l, raw) \<in> set (fix_entries segs B i). apart l 8 (bl_base B) (bl_size B)"
  shows "segment_fixups h (bl_base B) (bl_base B + of_nat (bl_size B)) (bl_base B) (bl_starts B) i t =
    res_fold (\<lambda>(l, raw). fixup_entry h (bl_base B) (bl_base B) l raw) (fix_applied segs B i) t"
proof (cases "bl_fixes B ! i")
  case No_Chains
  then show ?thesis using blob_loads(2) [OF B i] by (simp add: segment_fixups_def fix_applied_def)
next
  case (Chains off s ps ess)
  let ?seg = "bl_table B off" and ?f = "\<lambda>(l, raw). fixup_entry h (bl_base B) (bl_base B) l raw"
  have tab: "fix_at (mem t) B (Chains off s ps ess)"
    using blob_fix [OF B i] unfolding Chains .
  then have tbl: "starts_table (mem t) ?seg s ps" and inside: "\<not> bl_base B + of_nat (bl_size B) < ?seg + 24" by auto
  have s: "read_chained_starts (mem t) ?seg = Ok s"
    using tbl by (simp add: starts_table_def holds_append cstarts.dec_iff)
  have n: "length ps = unat (css_page_count s)" using tbl by (simp add: starts_table_def)
  have shown: "for_upto 0 (min 8 (unat (css_page_count s)))
      (\<lambda>page _. res_bind (load16 (mem t) (?seg + 22 + of_nat (2 * page))) (\<lambda>_. Ok ())) () = Ok ()"
    using starts_table_loads(4) [OF tbl] n by (intro for_upto_reads) simp
  have last: "res_bind (res_fold ?f (fix_applied segs B i) t)
      (\<lambda>c'. res_bind (load16 (mem c') (?seg + 20)) (\<lambda>_. Ok c')) = res_fold ?f (fix_applied segs B i) t"
  proof (cases "res_fold ?f (fix_applied segs B i) t")
    case (Inr c')
    have "spaced (fix_applied segs B i)"
      using sp by (simp add: fix_applied_def fix_entries_def spaced_take_pages)
    from fixups_fold [OF Inr this] have "\<And>a. a \<in> region (bl_base B) (bl_size B) \<Longrightarrow> mem c' a = mem t a"
      using fix_entries_apart [OF ap] by (simp add: fixups_done_def)
    then have "starts_table (mem c') ?seg s ps" using tab by (intro starts_table_cong [OF tbl]) auto
    then show ?thesis using starts_table_loads(1) Inr by simp
  qed simp
  have "fix_offset (bl_fixes B ! i) \<noteq> 0" "fix_offset (bl_fixes B ! i) = off" using tab Chains by auto
  then show ?thesis
    using blob_loads(2) [OF B i] s shown inside last
      chains_run [OF B i Chains at chains sp ap, of h "bl_base B" "bl_base B"]
    unfolding bl_table_def by (simp add: segment_fixups_def Let_def split del: if_split)
qed

section \<open>The whole blob\<close>

lemma spaced_parts: "spaced (concat (map g [0..<n])) \<Longrightarrow> i < n \<Longrightarrow> spaced (g i)"
  using spaced_nth [of "map g [0..<n]" i] by simp

lemma fix_chains_frame:
  assumes "fix_chains m img segs i f"
    and "\<And>l raw a. (l, raw) \<in> set (concat (fix_pages segs i f)) \<Longrightarrow> a \<in> region l 8 \<Longrightarrow> m' a = m a"
    and "case f of No_Chains \<Rightarrow> True | Chains off s ps ess \<Rightarrow> length ess = length ps"
  shows "fix_chains m' img segs i f"
proof (cases f)
  case (Chains off s ps ess)
  show ?thesis unfolding Chains fix_chains.simps
  proof (intro impI allI)
    fix k assume ne: "fix_pages segs i (Chains off s ps ess) \<noteq> []" and k: "k < length ps"
    then have pages: "fix_pages segs i f = ess" by (simp add: Chains split: if_splits)
    show "page_chain m' img s k (ps ! k) (ess ! k)"
    proof (rule page_chain_frame)
      show "page_chain m img s k (ps ! k) (ess ! k)" using assms(1) ne k Chains by simp
      fix l raw a assume "(l, raw) \<in> set (ess ! k)" and a: "a \<in> region l 8"
      moreover have "k < length ess" using k assms(3) Chains by simp
      ultimately have "(l, raw) \<in> set (concat ess)" by auto
      then show "m' a = m a" using a assms(2) pages by simp
    qed
  qed
qed simp

text \<open>Between two segments: the tables are unchanged, and so are the chains still to come.\<close>

definition blob_state :: "addr \<Rightarrow> segment_info list \<Rightarrow> blob \<Rightarrow> nat \<Rightarrow> mach_context \<Rightarrow> bool" where
  "blob_state img segs B j t \<longleftrightarrow> image_at t img segs \<and> blob_at (mem t) B \<and>
     (\<forall>k. j \<le> k \<longrightarrow> k < length (bl_fixes B) \<longrightarrow> fix_chains (mem t) img segs k (bl_fixes B ! k))"

lemma blob_state_step:
  assumes st: "blob_state img segs B j t" and bc: "blob_chains m img segs B" and j: "j < length (bl_fixes B)"
    and run: "res_fold (\<lambda>(l, raw). fixup_entry h b hdr l raw) (fix_applied segs B j) t = Ok t'"
  shows "blob_state img segs B (Suc j) t'"
proof -
  let ?n = "length (bl_fixes B)"
  have sp: "spaced (concat (map (fix_entries segs B) [0..<?n]))" using bc by (simp add: blob_chains_def)
  have "spaced (fix_applied segs B j)"
    using spaced_parts [OF sp j] by (simp add: fix_applied_def fix_entries_def spaced_take_pages)
  then have fx: "fixups_done (fix_applied segs B j) t t'" by (rule fixups_fold [OF run])
  have same: "mem t' a = mem t a" if "\<forall>(l, raw) \<in> set (fix_applied segs B j). a \<notin> region l 8" for a
    using fx that by (simp add: fixups_done_def)
  have ap: "\<forall>(l, raw) \<in> set (fix_entries segs B j). apart l 8 (bl_base B) (bl_size B)"
    using bc j by (simp add: blob_chains_def)
  have "blob_at (mem t') B"
  proof (rule blob_at_cong)
    show "blob_at (mem t) B" using st by (simp add: blob_state_def)
    fix a assume "a \<in> region (bl_base B) (bl_size B)"
    then show "mem t' a = mem t a" by (rule same [OF fix_entries_apart [OF ap]])
  qed
  moreover have "fix_chains (mem t') img segs k (bl_fixes B ! k)" if k: "Suc j \<le> k" "k < ?n" for k
  proof (rule fix_chains_frame)
    show "fix_chains (mem t) img segs k (bl_fixes B ! k)" using st k by (simp add: blob_state_def)
    have "fix_at (mem t) B (bl_fixes B ! k)" using blob_fix [of "mem t" B k] st k by (simp add: blob_state_def)
    then show "case bl_fixes B ! k of No_Chains \<Rightarrow> True | Chains off s ps ess \<Rightarrow> length ess = length ps"
      by (cases "bl_fixes B ! k") simp_all
    fix l raw a assume e: "(l, raw) \<in> set (concat (fix_pages segs k (bl_fixes B ! k)))" and a: "a \<in> region l 8"
    show "mem t' a = mem t a"
    proof (rule same, safe)
      fix l' raw' assume "(l', raw') \<in> set (fix_applied segs B j)" and a': "a \<in> region l' 8"
      then have "(l', raw') \<in> set (map (fix_entries segs B) [0..<?n] ! j)"
        using applied_subset [of segs B j] j by auto
      moreover have "(l, raw) \<in> set (map (fix_entries segs B) [0..<?n] ! k)" using e k by (simp add: fix_entries_def)
      ultimately have "unat l' + 8 \<le> unat l"
        using spaced_pages [OF sp, of j k "(l', raw')" "(l, raw)"] k by simp
      then show False using a a' by (simp add: region_def)
    qed
  qed
  moreover have "image_at t' img segs"
    using st fx image_at_only unfolding blob_state_def fixups_done_def by blast
  ultimately show ?thesis unfolding blob_state_def by blast
qed

lemma blob_run:
  assumes B: "blob_at (mem c) B" and at: "image_at c img segs" and bc: "blob_chains (mem c) img segs B" and base: "bl_base B = memblock c + ucast off"
    and size: "bl_size B = unat sz"
  shows "dump_chained_fixups h c off sz =
    res_fold (\<lambda>(l, raw). fixup_entry h (bl_base B) (bl_base B) l raw)
      (concat (map (fix_applied segs B) [0..<length (bl_fixes B)]))
      (c\<lparr>chained_rebase_count := 0, chained_bind_count := 0\<rparr>)"
proof -
  let ?c = "c\<lparr>chained_rebase_count := 0, chained_bind_count := 0\<rparr>"
  let ?n = "length (bl_fixes B)" and ?f = "\<lambda>(l, raw). fixup_entry h (bl_base B) (bl_base B) l raw"
  let ?e = "bl_base B + of_nat (bl_size B)"
  have hdr: "read_chained_fixups_header (mem c) (bl_base B) = Ok (bl_header B)"
    using B by (simp add: blob_at_def chdr.dec_iff)
  have cap: "?n < 2 ^ 32" and starts: "\<not> ?e < bl_starts B + 4"
    using B by (auto simp: blob_at_def)
  have guards: "\<not> sz < 28" "\<not> sz \<le> starts_offset (bl_header B)"
    using B size by (auto simp: blob_at_def word_less_nat_alt word_le_nat_alt)
  have e: "ucast sz = (of_nat (bl_size B) :: addr)" by (simp add: size)
  have st: "blob_state img segs B 0 ?c"
    using B bc at by (simp add: blob_state_def blob_chains_def image_at_def)
  have seg: "segment_fixups h (bl_base B) ?e (bl_base B) (bl_starts B) j t = res_fold ?f (fix_applied segs B j) t"
    if "j < ?n" "blob_state img segs B j t" for j t
    using that bc spaced_parts [of "fix_entries segs B" ?n j]
    by (intro segment_run [where img = img and segs = segs]) (simp_all add: blob_state_def blob_chains_def)
  have "for_below 0 (2 ^ 32) (\<lambda>c. res_bind (load32 (mem c) (bl_starts B)) (\<lambda>n. Ok (unat n)))
      (segment_fixups h (bl_base B) ?e (bl_base B) (bl_starts B)) ?c =
      res_fold (\<lambda>j. res_fold ?f (fix_applied segs B j)) [0..<?n] ?c"
  proof (rule for_below_fold [where P = "blob_state img segs B"])
    show "blob_state img segs B 0 ?c" by (rule st)
    show "res_bind (load32 (mem t) (bl_starts B)) (\<lambda>n. Ok (unat n)) = Ok ?n" if "blob_state img segs B j t" for j t
      using blob_loads(1) [of "mem t" B] that cap by (simp add: blob_state_def unat_of_nat)
    show "segment_fixups h (bl_base B) ?e (bl_base B) (bl_starts B) j t = res_fold ?f (fix_applied segs B j) t \<and>
        (\<forall>t'. res_fold ?f (fix_applied segs B j) t = Ok t' \<longrightarrow> blob_state img segs B (Suc j) t')"
      if "j < ?n" "blob_state img segs B j t" for j t
      using seg [OF that] blob_state_step [OF that(2) bc that(1)] by blast
    show "0 \<le> ?n" by simp
  qed (rule cap)
  also have "\<dots> = res_fold ?f (concat (map (fix_applied segs B) [0..<?n])) ?c" by (rule res_fold_concat)
  finally show ?thesis
    using hdr guards starts blob_loads(1) [OF B]
    unfolding dump_chained_fixups_def Let_def base [symmetric] e by (simp add: bl_starts_def)
qed

text \<open>C4: refinement. \<open>dump_chained_fixups\<close> applies, segment after segment and page after page,
  the entries of every chain that the blob's tables start, each at its location with its original
  raw value and each chain up to 512 entries; segments without chains, without a mapping or in
  another pointer format contribute nothing. Both counters start from zero.\<close>

theorem dump_chained_fixups_refines:
  assumes "blob_at (mem c) B" and "image_at c img segs" and "blob_chains (mem c) img segs B" and "bl_base B = memblock c + ucast off"
    and "bl_size B = unat sz"
  shows "dump_chained_fixups h c off sz =
    res_fold (\<lambda>(l, raw). fixup_entry h (bl_base B) (bl_base B) l raw)
      (blob_applied segs B) (c\<lparr>chained_rebase_count := 0, chained_bind_count := 0\<rparr>)"
  unfolding blob_applied_def using assms by (rule blob_run)

end
