(* ===== verification/Mal_Fixup_Values.thy ===== *)
theory Mal_Fixup_Values
  imports Mal_Fixups
begin

unbundle bit_operations_syntax

text \<open>
  What the fixed-up pointers hold. The blob also carries the import table: \<open>names_at\<close> says which
  names it lists, \<open>import_for\<close> which of them a bind entry means.

  \<^item> \<open>fixups_total\<close>: applying a list of entries outside the blob never faults, and every location
    ends with \<open>fix_value\<close>: image address plus target, or resolved address plus addend.
  \<^item> \<open>blob_values\<close>: so do the applied entries of the whole of \<open>dump_chained_fixups\<close>; the skipped ones
    (behind the 512th of their chain) keep their raw value.
\<close>

section \<open>The import table\<close>

text \<open>An import is its word in the table together with the name it points to.\<close>

type_synonym chained_import = "u32 \<times> cstr"

definition import_pos :: "blob \<Rightarrow> u32 \<Rightarrow> addr" where
  "import_pos B w = bl_base B + ucast (symbols_offset (bl_header B)) + ucast (drop_bit 9 w)"

definition names_at :: "memory \<Rightarrow> blob \<Rightarrow> chained_import list \<Rightarrow> bool" where
  "names_at m B ims \<longleftrightarrow>
     length ims = unat (imports_count (bl_header B)) \<and>
     holds m (bl_base B + ucast (imports_offset (bl_header B))) (concat (map (word_bytes 4) (map fst ims))) \<and>
     region (bl_base B + ucast (imports_offset (bl_header B))) (4 * length ims) \<subseteq> region (bl_base B) (bl_size B) \<and>
     list_all (\<lambda>(w, s). c_string m (import_pos B w) = Ok s \<and>
       region (import_pos B w) (length s + 1) \<subseteq> region (bl_base B) (bl_size B)) ims"

lemma names_at_cong:
  assumes N: "names_at m B ims" and same: "\<And>a. a \<in> region (bl_base B) (bl_size B) \<Longrightarrow> m' a = m a"
  shows "names_at m' B ims"
proof -
  have "holds m' (bl_base B + ucast (imports_offset (bl_header B))) (concat (map (word_bytes 4) (map fst ims)))"
  proof (rule holds_cong [of m])
    fix a assume "a \<in> region (bl_base B + ucast (imports_offset (bl_header B)))
        (length (concat (map (word_bytes 4) (map fst ims))))"
    then show "m' a = m a" using N unfolding length_offsets length_map by (intro same) (auto simp: names_at_def)
  qed (use N in \<open>simp add: names_at_def\<close>)
  moreover have "c_string m' (import_pos B w) = Ok s" if "(w, s) \<in> set ims" for w s
  proof -
    have "c_string m (import_pos B w) = Ok s"
      and sub: "region (import_pos B w) (length s + 1) \<subseteq> region (bl_base B) (bl_size B)"
      using N that by (auto simp: names_at_def list_all_iff)
    then have "holds m (import_pos B w) (s @ [0])" "0 \<notin> set s" by (simp_all add: c_string_iff)
    moreover have "m' a = m a" if "a \<in> region (import_pos B w) (length (s @ [0]))" for a
      using that sub by (intro same) auto
    ultimately show ?thesis using holds_cong [of m "import_pos B w" "s @ [0]" m'] by (simp add: c_string_iff)
  qed
  ultimately show ?thesis using N by (auto simp: names_at_def list_all_iff)
qed

text \<open>The name a raw entry asks for.\<close>

definition import_for :: "chained_import list \<Rightarrow> u64 \<Rightarrow> cstr option" where
  "import_for ims raw =
     (if chained64_is_bind raw \<and> unat (chained64_bind_ordinal raw) < length ims
      then Some (snd (ims ! unat (chained64_bind_ordinal raw))) else None)"

lemma import_name:
  assumes B: "blob_at m B" and N: "names_at m B ims" and bind: "chained64_is_bind raw"
  shows "case import_for ims raw of
      None \<Rightarrow> chained_import_name m (bl_base B) (bl_base B) (chained64_bind_ordinal raw) = Ok 0
    | Some s \<Rightarrow> \<exists>p. chained_import_name m (bl_base B) (bl_base B) (chained64_bind_ordinal raw) = Ok p \<and>
        p \<noteq> 0 \<and> c_string m p = Ok s"
proof -
  let ?k = "unat (chained64_bind_ordinal raw)"
  have name: "chained_import_name m (bl_base B) (bl_base B) (chained64_bind_ordinal raw) =
      Ok (if ?k < length ims then import_pos B (fst (ims ! ?k)) else 0)"
    using import_name_run [of m "bl_base B" "bl_header B" "map fst ims"] B N
    by (simp add: blob_at_def names_at_def chdr.dec_iff import_pos_def)
  have "c_string m (import_pos B (fst (ims ! ?k))) = Ok (snd (ims ! ?k))" if "?k < length ims"
    using N that nth_mem [OF that] by (cases "ims ! ?k") (auto simp: names_at_def list_all_iff)
  then show ?thesis using name bind c_string_nonnull by (auto simp: import_for_def)
qed

section \<open>Values\<close>

text \<open>The resolver as a function of names, and what a pointer is set to.\<close>

definition resolver :: "host \<Rightarrow> 'a process_scheme \<Rightarrow> cstr \<Rightarrow> addr" where
  "resolver h c = (\<lambda>s. first_nonzero (providers h c (host_name s)))"

lemma resolver_cong:
  "libc_handle d = libc_handle c \<Longrightarrow> libm_handle d = libm_handle c \<Longrightarrow> resolver h d = resolver h c"
  by (auto simp: resolver_def providers_def libc_of_def libm_of_def split: option.split)

definition fix_target :: "(cstr \<Rightarrow> addr) \<Rightarrow> cstr option \<Rightarrow> addr" where
  "fix_target f name = (case name of None \<Rightarrow> 0 | Some s \<Rightarrow> f s)"

definition fix_unresolved :: "(cstr \<Rightarrow> addr) \<Rightarrow> cstr option \<Rightarrow> u64 \<Rightarrow> bool" where
  "fix_unresolved f name raw \<longleftrightarrow> chained64_is_bind raw \<and> fix_target f name = 0"

definition fix_value :: "(cstr \<Rightarrow> addr) \<Rightarrow> addr \<Rightarrow> cstr option \<Rightarrow> u64 \<Rightarrow> u64" where
  "fix_value f img name raw =
     (if \<not> chained64_is_bind raw then img + chained64_rebase_target raw
      else if fix_target f name = 0 then raw
      else fix_target f name + of_int (chained64_bind_addend raw))"

lemma fixup_entry_value:
  assumes B: "blob_at (mem c) B" and N: "names_at (mem c) B ims" and loc: "mapped (mem c) l 8"
  shows "\<exists>c'. fixup_entry h (bl_base B) (bl_base B) l raw c = Ok c' \<and> resolver h c' = resolver h c \<and>
    chained_unresolved_bind_count c' = chained_unresolved_bind_count c +
      (if fix_unresolved (resolver h c) (import_for ims raw) raw then 1 else 0) \<and>
    (if fix_unresolved (resolver h c) (import_for ims raw) raw then mem c' = mem c
     else store64 (mem c) l (fix_value (resolver h c) (img_addr c) (import_for ims raw) raw) = Ok (mem c'))"
proof -
  have store: "\<exists>m. store64 (mem c) l v = Ok m" for v
    using loc store64_total [of "mem c" l v] by (auto simp: is_ok_iff)
  show ?thesis
  proof (cases "chained64_is_bind raw")
    case False
    obtain m where "store64 (mem c) l (img_addr c + chained64_rebase_target raw) = Ok m" using store by blast
    then show ?thesis using False
      by (simp add: fixup_entry_def apply_chained_64_offset_rebase_def Let_def fix_unresolved_def fix_value_def)
        (rule resolver_cong; simp)
  next
    case bind: True
    note name = import_name [OF B N bind]
    show ?thesis
    proof (cases "import_for ims raw")
      case None
      then show ?thesis using name bind
        by (simp add: fixup_entry_def fix_unresolved_def fix_target_def)
          (rule resolver_cong; simp)
    next
      case (Some s)
      let ?a = "resolver h c s" and ?r = "resolved_by h (host_name s) c"
      obtain p where p: "chained_import_name (mem c) (bl_base B) (bl_base B) (chained64_bind_ordinal raw) = Ok p"
        "p \<noteq> 0" "c_string (mem c) p = Ok s" using name Some by auto
      have a: "fst ?r = ?a" by (simp add: resolved_by_first resolver_def)
      note frame = only_handles_context [OF resolved_by_handles [of c h "host_name s"]]
      have kept: "resolver h (snd ?r) = resolver h c" by (simp add: resolver_def providers_kept)
      have res: "resolve_macho_import_symbol h p c = Ok (?a, snd ?r)"
        using resolve_named [OF p(3)] a by (metis prod.collapse)
      obtain m where "store64 (mem c) l (?a + of_int (chained64_bind_addend raw)) = Ok m" using store by blast
      then have m: "store64 (mem (snd ?r)) l (?a + of_int (chained64_bind_addend raw)) = Ok m" using frame by simp
      let ?n = "(snd ?r)\<lparr>chained_bind_count := chained_bind_count (snd ?r) + 1\<rparr>"
      let ?d = "if ?a = 0 then ?n\<lparr>chained_unresolved_bind_count := chained_unresolved_bind_count ?n + 1\<rparr>
        else ?n\<lparr>mem := m\<rparr>"
      have "fixup_entry h (bl_base B) (bl_base B) l raw c = Ok ?d"
        using p res bind m by (simp add: fixup_entry_def apply_chained_bind_def Let_def)
      moreover have "resolver h ?d = resolver h c"
        unfolding kept [symmetric] by (rule resolver_cong; simp)
      ultimately show ?thesis using Some m frame bind
        by (intro exI [of _ ?d]) (simp add: fix_unresolved_def fix_value_def fix_target_def)
    qed
  qed
qed

section \<open>All entries\<close>

text \<open>Entries that are spaced out, hold their raw values and lie outside the blob.\<close>

definition entries_ready :: "memory \<Rightarrow> blob \<Rightarrow> (addr \<times> u64) list \<Rightarrow> bool" where
  "entries_ready m B es \<longleftrightarrow> spaced es \<and>
     (\<forall>(l, raw) \<in> set es. load64 m l = Ok raw \<and> apart l 8 (bl_base B) (bl_size B))"

lemma fixups_total:
  assumes "blob_at (mem c) B" and "names_at (mem c) B ims" and "entries_ready (mem c) B es"
  shows "\<exists>c'. res_fold (\<lambda>(l, raw). fixup_entry h (bl_base B) (bl_base B) l raw) es c = Ok c' \<and>
    resolver h c' = resolver h c \<and>
    chained_unresolved_bind_count c' = chained_unresolved_bind_count c +
      of_nat (length (filter (\<lambda>(l, raw). fix_unresolved (resolver h c) (import_for ims raw) raw) es)) \<and>
    (\<forall>(l, raw) \<in> set es. load64 (mem c') l = Ok (fix_value (resolver h c) (img_addr c) (import_for ims raw) raw))"
  using assms
proof (induction es arbitrary: c)
  case Nil
  then show ?case by simp
next
  case (Cons e es)
  obtain l raw where e: "e = (l, raw)" by (cases e)
  let ?u = "fix_unresolved (resolver h c) (import_for ims raw) raw"
  let ?v = "fix_value (resolver h c) (img_addr c) (import_for ims raw) raw"
  have raw: "load64 (mem c) l = Ok raw" and ap: "apart l 8 (bl_base B) (bl_size B)"
    using Cons.prems(3) by (auto simp: entries_ready_def e)
  then have "mapped (mem c) l 8" by (simp add: load_mapped(3) [symmetric] is_ok_iff)
  then obtain d where d: "fixup_entry h (bl_base B) (bl_base B) l raw c = Ok d" "resolver h d = resolver h c"
    "chained_unresolved_bind_count d = chained_unresolved_bind_count c + (if ?u then 1 else 0)"
    "if ?u then mem d = mem c else store64 (mem c) l ?v = Ok (mem d)"
    using fixup_entry_value [OF Cons.prems(1,2)] by blast
  have img: "img_addr d = img_addr c" using fixup_entry_frame(1) [OF d(1)] by (simp add: only_fixups_def)
  have same: "mem d a = mem c a" if "a \<notin> region l 8" for a using fixup_entry_frame(2) [OF d(1)] that by blast
  have val: "load64 (mem d) l = Ok ?v"
    using d(4) raw store64_load64 by (cases ?u) (auto simp: fix_unresolved_def fix_value_def)
  have blob: "mem d a = mem c a" if "a \<in> region (bl_base B) (bl_size B)" for a
    using that ap by (intro same) (auto simp: apart_def region_def)
  have far: "unat l + 8 \<le> unat l'" if "(l', raw') \<in> set es" for l' raw'
    using Cons.prems(3) that by (auto simp: entries_ready_def spaced_def e)
  have "load64 (mem d) l' = Ok raw'" if "(l', raw') \<in> set es" for l' raw'
  proof -
    have "load64 (mem c) l' = Ok raw'" using Cons.prems(3) that by (auto simp: entries_ready_def)
    then show ?thesis
      by (rule c64.dec_unchanged) (use far [OF that] in \<open>auto intro!: same simp: region_def\<close>)
  qed
  then have "entries_ready (mem d) B es"
    using Cons.prems(3) by (auto simp: entries_ready_def spaced_def)
  from Cons.IH [OF blob_at_cong [OF Cons.prems(1) blob] names_at_cong [OF Cons.prems(2) blob] this]
  obtain c' where c': "res_fold (\<lambda>(l, raw). fixup_entry h (bl_base B) (bl_base B) l raw) es d = Ok c'"
    "resolver h c' = resolver h c"
    "chained_unresolved_bind_count c' = chained_unresolved_bind_count d +
      of_nat (length (filter (\<lambda>(l, raw). fix_unresolved (resolver h c) (import_for ims raw) raw) es))"
    "\<forall>(l, raw) \<in> set es. load64 (mem c') l = Ok (fix_value (resolver h c) (img_addr c) (import_for ims raw) raw)"
    using d(2) img by auto
  have "spaced es" using Cons.prems(3) by (simp add: entries_ready_def spaced_def)
  then have "\<forall>a. (\<forall>(l, raw) \<in> set es. a \<notin> region l 8) \<longrightarrow> mem c' a = mem d a"
    using fixups_fold [OF c'(1)] by (simp add: fixups_done_def)
  moreover have "\<forall>(l', raw') \<in> set es. a \<notin> region l' 8" if "a \<in> region l 8" for a
    using far that by (fastforce simp: region_def)
  ultimately have "load64 (mem c') l = Ok ?v" by (intro c64.dec_unchanged [OF val]) simp
  then show ?case using c' d(1,3) by (auto simp: e)
qed

section \<open>The whole function\<close>

lemma fix_chains_loads:
  assumes "fix_chains m img segs i f" and "(l, raw) \<in> set (concat (fix_pages segs i f))"
    and "case f of No_Chains \<Rightarrow> True | Chains off s ps ess \<Rightarrow> length ess = length ps"
  shows "load64 m l = Ok raw"
proof (cases f)
  case (Chains off s ps ess)
  then obtain k where k: "k < length ess" and e: "(l, raw) \<in> set (ess ! k)"
    using assms(2) by (auto simp: in_set_conv_nth [of _ ess] split: if_splits)
  then have "page_chain m img s k (ps ! k) (ess ! k)"
    using assms Chains by (auto split: if_splits)
  then show ?thesis using e chain_entries by (fastforce simp: page_chain_def split: if_splits)
qed (use assms(2) in simp)

lemma spaced_applied:
  "spaced (concat (map (fix_entries segs B) is)) \<Longrightarrow> spaced (concat (map (fix_applied segs B) is))"
proof (induction "is")
  case (Cons i "is")
  then have "spaced (concat (fix_pages segs i (bl_fixes B ! i)))"
    by (simp add: fix_entries_def spaced_def sorted_wrt_append)
  then have "spaced (fix_applied segs B i)" unfolding fix_applied_def by (rule spaced_take_pages)
  then show ?case using Cons applied_subset by (fastforce simp: spaced_def sorted_wrt_append)
qed simp

lemma blob_entries_ready:
  assumes B: "blob_at m' B" and bc: "blob_chains m img segs B"
  shows "entries_ready m B (blob_entries segs B)"
proof -
  have "load64 m l = Ok raw \<and> apart l 8 (bl_base B) (bl_size B)"
    if e: "(l, raw) \<in> set (blob_entries segs B)" for l raw
  proof -
    obtain i where i: "i < length (bl_fixes B)" and e: "(l, raw) \<in> set (fix_entries segs B i)"
      using e by (auto simp: blob_entries_def)
    have "fix_chains m img segs i (bl_fixes B ! i)" using bc i by (simp add: blob_chains_def)
    moreover have "case bl_fixes B ! i of No_Chains \<Rightarrow> True | Chains off s ps ess \<Rightarrow> length ess = length ps"
      using blob_fix [OF B i] by (cases "bl_fixes B ! i") simp_all
    ultimately have "load64 m l = Ok raw" using e unfolding fix_entries_def by (intro fix_chains_loads)
    then show ?thesis using bc i e by (auto simp: blob_chains_def)
  qed
  then show ?thesis using bc by (auto simp: entries_ready_def blob_chains_def blob_entries_def)
qed

lemma blob_ready:
  assumes "blob_at m' B" and bc: "blob_chains m img segs B"
  shows "entries_ready m B (blob_applied segs B)"
proof -
  have "spaced (blob_applied segs B)"
    using bc spaced_applied by (simp add: blob_chains_def blob_applied_def)
  then show ?thesis
    using blob_entries_ready [OF assms] blob_applied_entries by (fastforce simp: entries_ready_def)
qed

lemma blob_chains_cong:
  assumes B: "blob_at m0 B" and bc: "blob_chains m img segs B"
    and same: "\<And>l raw a. (l, raw) \<in> set (blob_entries segs B) \<Longrightarrow> a \<in> region l 8 \<Longrightarrow> m' a = m a"
  shows "blob_chains m' img segs B"
proof -
  have "fix_chains m' img segs i (bl_fixes B ! i)" if i: "i < length (bl_fixes B)" for i
  proof (rule fix_chains_frame)
    show "fix_chains m img segs i (bl_fixes B ! i)" using bc i by (simp add: blob_chains_def)
    show "case bl_fixes B ! i of No_Chains \<Rightarrow> True | Chains off s ps ess \<Rightarrow> length ess = length ps"
      using blob_fix [OF B i] by (cases "bl_fixes B ! i") simp_all
    fix l raw a assume "(l, raw) \<in> set (concat (fix_pages segs i (bl_fixes B ! i)))" "a \<in> region l 8"
    moreover from this have "(l, raw) \<in> set (blob_entries segs B)"
      using i by (auto simp: blob_entries_def fix_entries_def)
    ultimately show "m' a = m a" by (intro same)
  qed
  then show ?thesis using bc by (simp add: blob_chains_def)
qed

lemma spaced_apart:
  assumes "spaced es" and "(l, raw) \<in> set es" and "(l', raw') \<in> set es" and "(l, raw) \<noteq> (l', raw')"
  shows "apart l 8 l' 8"
proof -
  obtain i j where i: "i < length es" "es ! i = (l, raw)" and j: "j < length es" "es ! j = (l', raw')"
    using assms(2,3) by (auto simp: in_set_conv_nth)
  then have "i < j \<or> j < i" using assms(4) by (metis linorder_neqE_nat)
  then show ?thesis
    using assms(1) i j sorted_wrt_nth_less [of _ es i j] sorted_wrt_nth_less [of _ es j i]
    by (fastforce simp: spaced_def apart_def)
qed

text \<open>The entries behind the limit of their chain keep their raw values.\<close>

lemma blob_skipped_kept:
  assumes B: "blob_at m' B" and bc: "blob_chains m img segs B" and e: "(l, raw) \<in> set (blob_skipped segs B)"
  shows "load64 m l = Ok raw" and "(l', raw') \<in> set (blob_applied segs B) \<Longrightarrow> apart l 8 l' 8"
proof -
  have all: "entries_ready m B (blob_entries segs B)" by (rule blob_entries_ready [OF B bc])
  have e: "(l, raw) \<in> set (blob_entries segs B)" "(l, raw) \<notin> set (blob_applied segs B)"
    using e by (simp_all add: blob_skipped_def)
  show "load64 m l = Ok raw" using all e(1) by (auto simp: entries_ready_def)
  assume "(l', raw') \<in> set (blob_applied segs B)"
  then have "(l', raw') \<in> set (blob_entries segs B)" "(l, raw) \<noteq> (l', raw')"
    using e(2) blob_applied_entries by auto
  then show "apart l 8 l' 8" using all e(1) by (auto simp: entries_ready_def intro: spaced_apart)
qed

definition values_set ::
  "host \<Rightarrow> chained_import list \<Rightarrow> (addr \<times> u64) list \<Rightarrow> mach_context \<Rightarrow> mach_context \<Rightarrow> bool" where
  "values_set h ims es c c' \<longleftrightarrow>
     (\<forall>(l, raw) \<in> set es. load64 (mem c') l = Ok (fix_value (resolver h c) (img_addr c) (import_for ims raw) raw)) \<and>
     chained_unresolved_bind_count c' = chained_unresolved_bind_count c +
       of_nat (length (filter (\<lambda>(l, raw). fix_unresolved (resolver h c) (import_for ims raw) raw) es)) \<and>
     resolver h c' = resolver h c"

lemma blob_values:
  assumes B: "blob_at (mem c) B" and at: "image_at c img segs" and bc: "blob_chains (mem c) img segs B"
    and base: "bl_base B = memblock c + ucast off" and size: "bl_size B = unat sz" and N: "names_at (mem c) B ims"
  shows "\<exists>c'. dump_chained_fixups h c off sz = Ok c' \<and>
    fixups_done (blob_applied segs B) (c\<lparr>chained_rebase_count := 0, chained_bind_count := 0\<rparr>) c' \<and>
    values_set h ims (blob_applied segs B) c c' \<and>
    (\<forall>(l, raw) \<in> set (blob_skipped segs B). load64 (mem c') l = Ok raw)"
proof -
  let ?c = "c\<lparr>chained_rebase_count := 0, chained_bind_count := 0\<rparr>"
  have res: "resolver h ?c = resolver h c" by (rule resolver_cong; simp)
  have ready: "entries_ready (mem c) B (blob_applied segs B)" by (rule blob_ready [OF B bc])
  then obtain c' where run: "res_fold (\<lambda>(l, raw). fixup_entry h (bl_base B) (bl_base B) l raw) (blob_applied segs B) ?c = Ok c'"
    and vals: "values_set h ims (blob_applied segs B) c c'"
    using fixups_total [of ?c B ims "blob_applied segs B" h] B N unfolding res values_set_def by auto
  have "dump_chained_fixups h c off sz = Ok c'"
    using run blob_run [OF B at bc base size] by (simp add: blob_applied_def)
  moreover have fx: "fixups_done (blob_applied segs B) ?c c'"
    using run ready by (intro fixups_fold) (simp_all add: entries_ready_def)
  moreover have "load64 (mem c') l = Ok raw" if e: "(l, raw) \<in> set (blob_skipped segs B)" for l raw
  proof (rule c64.dec_unchanged [OF blob_skipped_kept(1) [OF B bc e]])
    fix a assume "a \<in> region l (length (word_bytes 8 raw))"
    then have "\<forall>(l', raw') \<in> set (blob_applied segs B). a \<notin> region l' 8"
      using blob_skipped_kept(2) [OF B bc e] apart_disjoint by fastforce
    then show "mem c' a = mem c a" using fx by (simp add: fixups_done_def)
  qed
  ultimately show ?thesis using vals by blast
qed

text \<open>C3: liveness. The fixups of an image whose blob is in memory with its import table are always
  processed to the end without a fault, and every entry of every chain is accounted for. The
  first 512 entries of each page's chain (in the segments that are recorded, mapped and in
  pointer format 6, the only one the code handles) end with their value: a rebase as the image
  address plus its target, a bind as the resolved address of its import plus the addend, or
  its raw value when nobody provides it, in which case it is counted as unresolved. The
  entries behind the 512th keep their raw value, unresolved and uncounted. No other byte
  changes, so the slots of segments in other formats hold what they held; the counters are
  those of the applied entries.\<close>

theorem dump_chained_fixups_values:
  assumes "blob_at (mem c) B" and "image_at c img segs" and "blob_chains (mem c) img segs B"
    and "bl_base B = memblock c + ucast off" and "bl_size B = unat sz" and "names_at (mem c) B ims"
  shows "\<exists>c'. dump_chained_fixups h c off sz = Ok c' \<and>
    (\<forall>(l, raw) \<in> set (blob_entries segs B). load64 (mem c') l =
       Ok (if (l, raw) \<in> set (blob_applied segs B)
           then fix_value (resolver h c) (img_addr c) (import_for ims raw) raw else raw)) \<and>
    (\<forall>a. (\<forall>(l, raw) \<in> set (blob_applied segs B). a \<notin> region l 8) \<longrightarrow> mem c' a = mem c a) \<and>
    fixups_done (blob_applied segs B) (c\<lparr>chained_rebase_count := 0, chained_bind_count := 0\<rparr>) c' \<and>
    values_set h ims (blob_applied segs B) c c'"
proof -
  obtain c' where run: "dump_chained_fixups h c off sz = Ok c'"
    and fx: "fixups_done (blob_applied segs B) (c\<lparr>chained_rebase_count := 0, chained_bind_count := 0\<rparr>) c'"
    and vs: "values_set h ims (blob_applied segs B) c c'"
    and sk: "\<forall>(l, raw) \<in> set (blob_skipped segs B). load64 (mem c') l = Ok raw"
    using blob_values [OF assms] by blast
  have "load64 (mem c') l = Ok (if (l, raw) \<in> set (blob_applied segs B)
      then fix_value (resolver h c) (img_addr c) (import_for ims raw) raw else raw)"
    if "(l, raw) \<in> set (blob_entries segs B)" for l raw
    using that vs sk by (auto simp: values_set_def blob_skipped_def)
  moreover have "mem c' a = mem c a" if "\<forall>(l, raw) \<in> set (blob_applied segs B). a \<notin> region l 8" for a
    using fx that by (simp add: fixups_done_def)
  ultimately show ?thesis using run fx vs by blast
qed

section \<open>Examples\<close>

text \<open>
  A blob of 74 bytes at \<open>b\<close> for two segments. The first has no chains; the second is at \<open>off\<close>
  in the image and has one page with the chain \<open>es\<close>. In \<open>sample_blob\<close> the chain is a rebase at \<open>l\<close>
  and a bind of the only import, \<open>_puts\<close>.
\<close>

definition PUTS :: u64 where "PUTS = 0x8000000000000000"

definition sample_chain :: "addr \<Rightarrow> (addr \<times> u64) list" where
  "sample_chain l = [(l, LINK), (l + 8, PUTS)]"

definition sample_header :: chained_fixups_header where
  "sample_header =
     \<lparr>fixups_version = 0, starts_offset = 28, imports_offset = 64, symbols_offset = 68,
      imports_count = 1, imports_format = 1, symbols_format = 0\<rparr>"

definition sample_starts :: "u64 \<Rightarrow> chained_starts" where
  "sample_starts off = example_starts\<lparr>css_segment_offset := off\<rparr>"

definition sample_imports :: "chained_import list" where
  "sample_imports = [(0, lit ''_puts'')]"

definition chain_blob :: "addr \<Rightarrow> u64 \<Rightarrow> (addr \<times> u64) list \<Rightarrow> blob" where
  "chain_blob b off es =
     \<lparr>bl_base = b, bl_size = 74, bl_header = sample_header,
      bl_fixes = [No_Chains, Chains 12 (sample_starts off) [0] [es]]\<rparr>"

definition sample_blob :: "addr \<Rightarrow> u64 \<Rightarrow> addr \<Rightarrow> blob" where
  "sample_blob b off l = chain_blob b off (sample_chain l)"

definition sample_bytes :: "u64 \<Rightarrow> byte list" where
  "sample_bytes off = enc_chained_fixups_header sample_header @
     (word_bytes 4 (2 :: u32) @ concat (map (word_bytes 4) [0, 12 :: u32])) @
     (enc_chained_starts (sample_starts off) @ concat (map (word_bytes 2) [0 :: u16])) @
     word_bytes 4 (0 :: u32) @ (lit ''_puts'' @ [0])"

lemma PUTS_fields:
  "chained64_next PUTS = 0" "chained64_is_bind PUTS" "chained64_bind_ordinal PUTS = 0" "chained64_bind_addend PUTS = 0"
  by (simp_all add: PUTS_def chained64_next_def chained64_is_bind_def chained64_bind_ordinal_def
      chained64_bind_addend_def)

lemma length_sample: "length (sample_bytes off) = 74"
  by (simp add: sample_bytes_def chdr.width cstarts.width) (simp add: lit_def)

lemma sample_offset:
  assumes "unat b < 2 ^ 63" and "numeral n \<le> (74 :: nat)"
  shows "unat (b + numeral n :: addr) = unat b + numeral n"
proof -
  have "unat b + numeral n < 2 ^ 64" using assms(1,2) by (simp del: numeral_le_iff)
  then have "unat (b + of_nat (numeral n)) = unat b + numeral n" by (intro unat_add_of_nat) simp
  then show ?thesis by simp
qed

lemma sample_tables:
  assumes "holds m b (sample_bytes off)"
  shows "holds m b (enc_chained_fixups_header sample_header)"
    and "holds m (b + 28) (word_bytes 4 (2 :: u32) @ concat (map (word_bytes 4) [0, 12 :: u32]))"
    and "holds m (b + 40) (enc_chained_starts (sample_starts off) @ concat (map (word_bytes 2) [0 :: u16]))"
    and "holds m (b + 64) (word_bytes 4 (0 :: u32))" and "holds m (b + 68) (lit ''_puts'' @ [0])"
  using assms unfolding sample_bytes_def
  by (simp_all only: holds_append) (simp_all add: chdr.width cstarts.width add.assoc)

lemma chain_blob_addrs:
  "bl_starts (chain_blob b off es) = b + 28" "bl_table (chain_blob b off es) 12 = b + 40"
  by (simp_all add: bl_table_def bl_starts_def chain_blob_def sample_header_def add.assoc)

lemma chain_blob_at:
  assumes m: "holds m b (sample_bytes off)" and b: "unat b < 2 ^ 63"
  shows "blob_at m (chain_blob b off es)"
proof -
  note at = sample_offset [OF b]
  have "fix_at m (chain_blob b off es) (Chains 12 (sample_starts off) [0] [es])"
    using sample_tables(3) [OF m] chain_blob_addrs(2) at
    by (auto simp: chain_blob_def starts_table_def sample_starts_def example_starts_def region_def
        word_le_nat_alt add.assoc)
  then show ?thesis
    using sample_tables(1,2) [OF m] chain_blob_addrs(1) at b
    by (auto simp: blob_at_def chain_blob_def sample_header_def region_def word_le_nat_alt add.assoc)
qed

lemma chain_names_at:
  assumes m: "holds m b (sample_bytes off)" and b: "unat b < 2 ^ 63"
  shows "names_at m (chain_blob b off es) sample_imports"
proof -
  have "c_string m (b + 68) = Ok (lit ''_puts'')"
    using sample_tables(5) [OF m] by (simp add: c_string_iff lit_def)
  then show ?thesis
    using sample_tables(4) [OF m] sample_offset [OF b]
    by (auto simp: names_at_def chain_blob_def sample_header_def sample_imports_def import_pos_def
        region_def lit_def)
qed

lemma chain_blob_entries:
  assumes "length segs = 2" and "mapped_addr (segs ! 1) \<noteq> 0"
  shows "blob_entries segs (chain_blob b off es) = es"
    and "blob_applied segs (chain_blob b off es) = take CHAIN_LIMIT es"
    and "i < 2 \<Longrightarrow> fix_entries segs (chain_blob b off es) i = (if i = 0 then [] else es)"
proof -
  have "fix_pages segs 0 (bl_fixes (chain_blob b off es) ! 0) = []"
    "fix_pages segs 1 (bl_fixes (chain_blob b off es) ! 1) = [es]"
    using assms by (simp_all add: chain_blob_def sample_starts_def example_starts_def)
  moreover have "[0..<length (bl_fixes (chain_blob b off es))] = [0, 1]" by (simp add: chain_blob_def)
  ultimately show "blob_entries segs (chain_blob b off es) = es"
    "blob_applied segs (chain_blob b off es) = take CHAIN_LIMIT es"
    "i < 2 \<Longrightarrow> fix_entries segs (chain_blob b off es) i = (if i = 0 then [] else es)"
    by (auto simp: blob_entries_def blob_applied_def fix_entries_def fix_applied_def less_2_cases_iff)
qed

lemma chain_blob_chains:
  assumes ch: "chain m (img + off) es" and segs: "length segs = 2" "mapped_addr (segs ! 1) \<noteq> 0"
    and ap: "\<And>l raw. (l, raw) \<in> set es \<Longrightarrow> unat b + 74 \<le> unat l"
  shows "blob_chains m img segs (chain_blob b off es)"
proof -
  have "page_chain m img (sample_starts off) 0 0 es"
    using ch by (simp add: page_chain_def page_skipped_def page_start_offset_def sample_starts_def
        example_starts_def macho_consts)
  then have "fix_chains m img segs i (bl_fixes (chain_blob b off es) ! i)" if "i < 2" for i
    using that by (auto simp: less_2_cases_iff chain_blob_def)
  moreover have "spaced (concat (map (fix_entries segs (chain_blob b off es)) [0..<2]))"
    using chain_blob_entries(1) [OF segs, of b off es] chain_spaced [OF ch]
    by (simp add: blob_entries_def chain_blob_def numeral_2_eq_2)
  moreover have "apart x 8 b 74" if "i < 2" "(x, raw) \<in> set (fix_entries segs (chain_blob b off es) i)" for i x raw
    using that chain_blob_entries(3) [OF segs] ap by (auto simp: apart_def split: if_splits)
  moreover have "length (bl_fixes (chain_blob b off es)) = 2" "bl_base (chain_blob b off es) = b"
    "bl_size (chain_blob b off es) = 74"
    by (simp_all add: chain_blob_def)
  ultimately show ?thesis unfolding blob_chains_def by auto
qed

text \<open>The sample.\<close>

lemmas sample_blob_at = chain_blob_at [where es = "sample_chain l" for l, folded sample_blob_def]
lemmas sample_names_at = chain_names_at [where es = "sample_chain l" for l, folded sample_blob_def]

lemma sample_entries:
  assumes "length segs = 2" and "mapped_addr (segs ! 1) \<noteq> 0"
  shows "blob_entries segs (sample_blob b off l) = sample_chain l"
    and "blob_applied segs (sample_blob b off l) = sample_chain l"
  using chain_blob_entries [OF assms] by (simp_all add: sample_blob_def sample_chain_def CHAIN_LIMIT_def)

lemma sample_chain_at:
  assumes m: "holds m l (word_bytes 8 LINK @ word_bytes 8 PUTS)" and l: "unat l < 2 ^ 63"
  shows "chain m l (sample_chain l)"
proof -
  have "unat (l + 8) = unat l + 8" using unat_add_of_nat [of l 8] l by simp
  moreover have "load64 m l = Ok LINK" "load64 m (l + 8) = Ok PUTS"
    using m by (simp_all add: holds_append load64_iff)
  ultimately show ?thesis
    unfolding sample_chain_def using l by (auto simp: LINK_fields PUTS_fields intro!: chain_link chain_last)
qed

lemma sample_chains:
  assumes m: "holds m l (word_bytes 8 LINK @ word_bytes 8 PUTS)" and l: "l = img + off" "unat l < 2 ^ 63"
    and segs: "length segs = 2" "mapped_addr (segs ! 1) \<noteq> 0" and ap: "unat b + 74 \<le> unat l"
  shows "blob_chains m img segs (sample_blob b off l)"
proof -
  have "unat (l + 8) = unat l + 8" using unat_add_of_nat [of l 8] l(2) by simp
  then show ?thesis
    unfolding sample_blob_def using sample_chain_at [OF m l(2)] ap
    by (intro chain_blob_chains [OF _ segs]) (auto simp: sample_chain_def l(1))
qed

text \<open>A context with such a blob at \<open>0x1000\<close> and the bytes of its chain at the start of the image.\<close>

definition example_blob :: blob where
  "example_blob = sample_blob 0x1000 0 0x200000000"

definition example_blob_segments :: "segment_info list" where
  "example_blob_segments = [zero_segment_info, zero_segment_info\<lparr>mapped_addr := 0x200000000\<rparr>]"

definition blob_context :: "byte list \<Rightarrow> mach_context" where
  "blob_context bs =
     (zero_context (map_file (map_file Map.empty 0x200000000 bs) 0x1000 (sample_bytes 0)))
       \<lparr>memblock := 0x1000, img_addr := 0x200000000, n_segment_info := 2, segments := example_blob_segments\<rparr>"

definition example_blob_context :: mach_context where
  "example_blob_context = blob_context (word_bytes 8 LINK @ word_bytes 8 PUTS)"

lemma blob_context_mem:
  assumes "length bs < 0x10000"
  shows "holds (mem (blob_context bs)) 0x1000 (sample_bytes 0)"
    and "holds (mem (blob_context bs)) 0x200000000 bs"
proof -
  let ?m = "map_file Map.empty 0x200000000 bs"
  have m: "mem (blob_context bs) = map_file ?m 0x1000 (sample_bytes 0)"
    by (simp add: blob_context_def zero_context_def)
  show "holds (mem (blob_context bs)) 0x1000 (sample_bytes 0)"
    unfolding m by (rule map_file_holds) (simp_all add: length_sample)
  have "holds ?m 0x200000000 bs" by (rule map_file_holds) (use assms in simp_all)
  then show "holds (mem (blob_context bs)) 0x200000000 bs"
    unfolding m by (rule holds_cong) (auto simp: map_file_def region_def length_sample)
qed

lemma blob_context_ok:
  assumes "length bs < 0x10000" and "chain (mem (blob_context bs)) 0x200000000 es"
    and "\<forall>(l, raw) \<in> set es. 0x2000 \<le> unat l"
  shows "blob_at (mem (blob_context bs)) (chain_blob 0x1000 0 es)"
    and "image_at (blob_context bs) 0x200000000 example_blob_segments"
    and "blob_chains (mem (blob_context bs)) 0x200000000 example_blob_segments (chain_blob 0x1000 0 es)"
    and "bl_base (chain_blob 0x1000 0 es) = memblock (blob_context bs) + ucast (0 :: u32)"
    and "bl_size (chain_blob 0x1000 0 es) = unat (74 :: u32)"
    and "names_at (mem (blob_context bs)) (chain_blob 0x1000 0 es) sample_imports"
  using chain_blob_at [OF blob_context_mem(1) [OF assms(1)]] chain_names_at [OF blob_context_mem(1) [OF assms(1)]]
    chain_blob_chains [of _ "0x200000000" 0 es example_blob_segments "0x1000"] assms(2,3)
  by (simp_all add: example_blob_segments_def)
    (fastforce simp: blob_context_def image_at_def example_blob_segments_def chain_blob_def)+

lemma example_blob_chain:
  "length (word_bytes 8 LINK @ word_bytes 8 PUTS) < 0x10000"
  "chain (mem (blob_context (word_bytes 8 LINK @ word_bytes 8 PUTS))) 0x200000000 (sample_chain 0x200000000)"
  "\<forall>(l, raw) \<in> set (sample_chain 0x200000000). 0x2000 \<le> unat l"
proof -
  show len: "length (word_bytes 8 LINK @ word_bytes 8 PUTS) < 0x10000" by simp
  show "chain (mem (blob_context (word_bytes 8 LINK @ word_bytes 8 PUTS))) 0x200000000 (sample_chain 0x200000000)"
    by (rule sample_chain_at [OF blob_context_mem(2) [OF len]]) simp
qed (simp add: sample_chain_def)

lemmas example_blob_ok =
  blob_context_ok [OF example_blob_chain, folded example_blob_context_def sample_blob_def, folded example_blob_def]

text \<open>A chain of 513 entries in one page: 512 rebases and a last one.\<close>

definition long_blob :: blob where
  "long_blob = chain_blob 0x1000 0 (link_run 512 0x200000000)"

definition long_context :: mach_context where
  "long_context = blob_context (run_bytes 512)"

lemma long_chain:
  "length (run_bytes 512) < 0x10000"
  "chain (mem (blob_context (run_bytes 512))) 0x200000000 (link_run 512 0x200000000)"
  "\<forall>(l, raw) \<in> set (link_run 512 0x200000000). 0x2000 \<le> unat l"
proof -
  show len: "length (run_bytes 512) < 0x10000" by (simp add: length_run_bytes)
  show "chain (mem (blob_context (run_bytes 512))) 0x200000000 (link_run 512 0x200000000)"
    by (rule run_chain [OF blob_context_mem(2) [OF len]]) simp
  have "0x2000 \<le> unat (fst (link_run 512 0x200000000 ! i))" if "i \<le> 512" for i
    using that unat_add_of_nat [of "0x200000000 :: addr" "8 * i"] by (simp add: run_nth)
  then have "0x2000 \<le> unat (fst e)" if "e \<in> set (link_run 512 0x200000000)" for e
    using that by (auto simp: in_set_conv_nth less_Suc_eq_le)
  then show "\<forall>(l, raw) \<in> set (link_run 512 0x200000000). 0x2000 \<le> unat l" by fastforce
qed

lemmas long_blob_ok = blob_context_ok [OF long_chain, folded long_context_def long_blob_def]

lemma long_blob_entries:
  "blob_entries example_blob_segments long_blob = link_run 512 0x200000000"
  "blob_applied example_blob_segments long_blob = take 512 (link_run 512 0x200000000)"
  unfolding long_blob_def
  by (subst chain_blob_entries; simp add: example_blob_segments_def CHAIN_LIMIT_def)+

lemma example_blob_applied:
  "blob_applied example_blob_segments example_blob = [(0x200000000, LINK), (0x200000008, PUTS)]"
  unfolding example_blob_def
  by (subst sample_entries(2)) (simp_all add: example_blob_segments_def sample_chain_def)

lemma dump_chained_fixups_refines_witness:
  "dump_chained_fixups example_host example_blob_context 0 74 =
   res_fold (\<lambda>(l, raw). fixup_entry example_host 0x1000 0x1000 l raw)
     [(0x200000000, LINK), (0x200000008, PUTS)]
     (example_blob_context\<lparr>chained_rebase_count := 0, chained_bind_count := 0\<rparr>)"
proof -
  have "bl_base example_blob = 0x1000" by (simp add: example_blob_def sample_blob_def chain_blob_def)
  then show ?thesis
    using dump_chained_fixups_refines [OF example_blob_ok(1-5), of example_host] example_blob_applied by simp
qed

lemma sample_import: "import_for sample_imports PUTS = Some (lit ''_puts'')"
  by (simp add: import_for_def sample_imports_def PUTS_fields)

lemma sample_resolved:
  "fix_value (resolver example_host example_blob_context) img (import_for sample_imports PUTS) PUTS = 0x7100"
  "\<not> fix_unresolved (resolver example_host example_blob_context) (import_for sample_imports PUTS) PUTS"
  "fix_value f 0x200000000 n LINK = 0x200000123" "\<not> fix_unresolved f n LINK"
proof -
  have "resolver example_host example_blob_context (lit ''_puts'') = 0x7100"
    by (simp add: resolver_def first_nonzero_def providers_def shim_for_def lookup_in_def libc_of_def
        libm_of_def host_name_def strip_underscore_def lit_def example_host_def example_blob_context_def
        blob_context_def zero_context_def)
  then show "fix_value (resolver example_host example_blob_context) img (import_for sample_imports PUTS) PUTS = 0x7100"
    "\<not> fix_unresolved (resolver example_host example_blob_context) (import_for sample_imports PUTS) PUTS"
    "fix_value f 0x200000000 n LINK = 0x200000123" "\<not> fix_unresolved f n LINK"
    by (simp_all add: sample_import fix_value_def fix_unresolved_def fix_target_def PUTS_fields LINK_fields)
qed

lemma long_entries:
  assumes "i \<le> 512"
  shows "(0x200000000 + of_nat (8 * i), if i < 512 then LINK else 0) \<in> set (blob_entries example_blob_segments long_blob)"
    and "(0x200000000 + of_nat (8 * i), if i < 512 then LINK else 0) \<in> set (blob_applied example_blob_segments long_blob)
      \<longleftrightarrow> i < 512"
proof -
  let ?e = "(0x200000000 + of_nat (8 * i), if i < 512 then LINK else 0)"
  have "link_run 512 0x200000000 ! i = ?e" "i < length (link_run 512 0x200000000)"
    using assms by (simp_all only: run_nth run_length less_Suc_eq_le)
  then show "?e \<in> set (blob_entries example_blob_segments long_blob)"
    unfolding long_blob_entries using nth_mem by metis
  have "set (take 512 (link_run 512 0x200000000)) = (\<lambda>j. link_run 512 0x200000000 ! j) ` {..<512}"
    using nth_image [of 512 "link_run 512 0x200000000"] by (simp add: lessThan_atLeast0)
  also have "\<dots> = (\<lambda>j. (0x200000000 + of_nat (8 * j), LINK)) ` {..<512}"
    by (rule image_cong) (simp_all add: run_nth)
  finally show "?e \<in> set (blob_applied example_blob_segments long_blob) \<longleftrightarrow> i < 512"
    unfolding long_blob_entries by (auto simp: LINK_def)
qed

lemma dump_chained_fixups_values_witness:
  "(\<exists>c'. dump_chained_fixups example_host example_blob_context 0 74 = Ok c' \<and>
     load64 (mem c') 0x200000000 = Ok 0x200000123 \<and> load64 (mem c') 0x200000008 = Ok 0x7100 \<and>
     chained_rebase_count c' = 1 \<and> chained_bind_count c' = 1 \<and> chained_unresolved_bind_count c' = 0) \<and>
   (\<exists>c'. dump_chained_fixups example_host long_context 0 74 = Ok c' \<and>
     load64 (mem c') 0x200000FF8 = Ok 0x200000123 \<and> load64 (mem c') 0x200001000 = Ok 0)"
proof
  have "img_addr example_blob_context = 0x200000000" "chained_unresolved_bind_count example_blob_context = 0"
    by (simp_all add: example_blob_context_def blob_context_def zero_context_def)
  then show "\<exists>c'. dump_chained_fixups example_host example_blob_context 0 74 = Ok c' \<and>
     load64 (mem c') 0x200000000 = Ok 0x200000123 \<and> load64 (mem c') 0x200000008 = Ok 0x7100 \<and>
     chained_rebase_count c' = 1 \<and> chained_bind_count c' = 1 \<and> chained_unresolved_bind_count c' = 0"
    using dump_chained_fixups_values [OF example_blob_ok, of example_host] sample_resolved
    unfolding example_blob_applied
    by (auto simp: fixups_done_def values_set_def LINK_fields PUTS_fields)
next
  have img: "img_addr long_context = 0x200000000" by (simp add: long_context_def blob_context_def)
  obtain c' where run: "dump_chained_fixups example_host long_context 0 74 = Ok c'"
    and vals: "\<forall>(l, raw) \<in> set (blob_entries example_blob_segments long_blob). load64 (mem c') l =
       Ok (if (l, raw) \<in> set (blob_applied example_blob_segments long_blob)
           then fix_value (resolver example_host long_context) (img_addr long_context) (import_for sample_imports raw) raw
           else raw)"
    using dump_chained_fixups_values [OF long_blob_ok, of example_host] by blast
  have at: "load64 (mem c') (0x200000000 + of_nat (8 * i)) = Ok (if i < 512 then 0x200000123 else 0)" if "i \<le> 512" for i
    using bspec [OF vals long_entries(1) [OF that]] long_entries(2) [OF that] sample_resolved(3)
    by (cases "i < 512") (simp_all add: img)
  show "\<exists>c'. dump_chained_fixups example_host long_context 0 74 = Ok c' \<and>
     load64 (mem c') 0x200000FF8 = Ok 0x200000123 \<and> load64 (mem c') 0x200001000 = Ok 0"
    using run at [of 511] at [of 512] by simp
qed

end
