(* ===== verification/Mal_Parts.thy ===== *)
theory Mal_Parts
  imports Mal_Main Mal_Image Mal_Fixup_Values
begin

unbundle bit_operations_syntax

text \<open>
  The parts of a file and what each does. A part is a load command together with what it points
  to: the bind operations, the symbols with their names, the library name, the fixup blob.
  \<open>load_image\<close> says, without memory or decoding, which image the parts amount to: where it is,
  its segment table, its binds, its applied and its skipped fixups, its libraries, its entry point.

  \<^item> \<open>image_memory\<close>: the file, the zeroed mapping of the image and the bytes of the segments.
  \<^item> \<open>loaded\<close>: the loader's context stands for the image (\<open>represents\<close>), and so does its memory:
    \<open>image_memory\<close> with the applied fixups.
  \<^item> \<open>run_part\<close>: a command computes the image of its part, and every segment's bytes are at
    their relocated address except where a fixup replaced them.
  \<^item> \<open>parts64\<close>, \<open>parts_run\<close>: so does the walk over all commands (locale \<open>part_walk\<close>).
\<close>

section \<open>Parts of a file\<close>

datatype part =
    P_Segment segment_command_64 "section_64 list"
  | P_Binds dyld_info_command "bind_op list" "bind_op list"
  | P_Symbols symtab_command "(nlist_64 \<times> cstr) list"
  | P_Library dylib_command "byte list" cstr
  | P_Fixups linkedit_data_command blob "chained_import list"
  | P_Other lcmd

fun part_lcmd :: "part \<Rightarrow> lcmd" where
  "part_lcmd (P_Segment s ss) = LC_Seg s ss"
| "part_lcmd (P_Binds d _ _) = LC_Dyldinfo d"
| "part_lcmd (P_Symbols t _) = LC_Sym t"
| "part_lcmd (P_Library d tail _) = LC_Dylib d tail"
| "part_lcmd (P_Fixups d B ims) = LC_Fixups d"
| "part_lcmd (P_Other x) = x"

definition loadable :: "segment_command_64 \<Rightarrow> bool" where
  "loadable s \<longleftrightarrow> \<not> name_is (segname s) SEG_PAGEZERO \<and> filesize s \<noteq> 0"

text \<open>What the file \<open>bs\<close> must contain for a part: everything the command points to.\<close>

fun part_ok :: "byte list \<Rightarrow> part \<Rightarrow> bool" where
  "part_ok bs (P_Segment s ss) \<longleftrightarrow>
     (loadable s \<longrightarrow> unat (fileoff s) + unat (filesize s) \<le> length bs)"
| "part_ok bs (P_Binds d ops lazy) \<longleftrightarrow> binds_in bs d ops lazy"
| "part_ok bs (P_Symbols t es) \<longleftrightarrow> symbols_in enc_nlist_64 n_strx bs t es"
| "part_ok bs (P_Library d tail name) \<longleftrightarrow> library_in d tail name"
| "part_ok bs (P_Fixups d B ims) \<longleftrightarrow> unat (dataoff d) + unat (datasize d) \<le> length bs"
| "part_ok bs (P_Other x) \<longleftrightarrow>
     (case x of LC_Dysym _ \<Rightarrow> True | LC_Exports _ \<Rightarrow> True | LC_Opaque _ _ \<Rightarrow> True | _ \<Rightarrow> False)"

section \<open>The image they describe\<close>

text \<open>One part, for an image that will be mapped at \<open>img\<close> with lowest address \<open>lo\<close>.\<close>

fun load_part :: "addr \<Rightarrow> addr \<Rightarrow> part \<Rightarrow> image \<Rightarrow> image" where
  "load_part img lo (P_Segment s ss) im =
     (let im1 = (if im_addr im = 0 then im\<lparr>im_addr := img, im_base := lo\<rparr> else im)
      in add_segment (segname s) (vmaddr s) (vmsize s) im1)"
| "load_part img lo (P_Binds d ops lazy) im = add_binds ops lazy im"
| "load_part img lo (P_Symbols t es) im = set_entry n_value es im"
| "load_part img lo (P_Library d tail name) im = add_library name im"
| "load_part img lo (P_Fixups d B ims) im =
     im\<lparr>im_fixups := im_fixups im @
        map (\<lambda>(l, raw). (l, raw, import_for ims raw)) (blob_applied (im_segments im) B),
       im_skipped := im_skipped im @ blob_skipped (im_segments im) B\<rparr>"
| "load_part img lo (P_Other x) im = im"

definition load_image :: "addr \<Rightarrow> addr \<Rightarrow> part list \<Rightarrow> image" where
  "load_image img lo ps = fold (load_part img lo) ps empty_image"

lemma load_part_grows:
  "length (im_binds im) \<le> length (im_binds (load_part img lo p im)) \<and>
   length (im_libs im) \<le> length (im_libs (load_part img lo p im))"
  by (cases p) (simp_all add: Let_def image_step_defs)

section \<open>Where everything is\<close>

text \<open>
  The addresses of a run: the file \<open>ly_bytes\<close> at \<open>ly_file\<close> in the memory \<open>ly_mem\<close>, and the
  image, \<open>ly_size\<close> bytes at \<open>ly_img\<close> for the virtual addresses from \<open>ly_lo\<close>.
\<close>

record layout =
  ly_file :: addr
  ly_bytes :: "byte list"
  ly_mem :: memory
  ly_img :: addr
  ly_lo :: addr
  ly_size :: nat

definition layout_ok :: "host \<Rightarrow> mach_header_64 \<Rightarrow> lcmd list \<Rightarrow> layout \<Rightarrow> bool" where
  "layout_ok h hdr cs L \<longleftrightarrow>
     holds (ly_mem L) (ly_file L) (ly_bytes L) \<and>
     unat (ly_file L) + length (ly_bytes L) < 2 ^ 64 \<and>
     file_at (ly_mem L) (ly_file L) hdr cs \<and>
     extent_ok (extent cs) \<and> fst (extent cs) = ly_lo L \<and> ly_lo L \<noteq> 0 \<and>
     unat (image_size (extent cs)) = ly_size L \<and>
     host_mmap h (ly_mem L) (ly_lo L) (image_size (extent cs)) = Some (ly_img L) \<and>
     mmap_ok h (ly_mem L) \<and> segments_fit cs \<and> sized_segments cs \<and> alloc_ok h"

definition seg_dest :: "layout \<Rightarrow> segment_command_64 \<Rightarrow> addr" where
  "seg_dest L s = ly_img L + (vmaddr s - ly_lo L)"

definition seg_bytes :: "layout \<Rightarrow> segment_command_64 \<Rightarrow> byte list" where
  "seg_bytes L s = take (unat (filesize s)) (drop (unat (fileoff s)) (ly_bytes L))"

lemma layout_image:
  assumes "layout_ok h hdr cs L"
  shows "ly_img L \<noteq> 0" and "unat (ly_img L) + ly_size L \<le> 2 ^ 64"
    and "x \<in> region (ly_img L) (ly_size L) \<Longrightarrow> ly_mem L x = None" and "ly_lo L \<noteq> 0"
proof -
  have m: "host_mmap h (ly_mem L) (ly_lo L) (image_size (extent cs)) = Some (ly_img L)" "mmap_ok h (ly_mem L)"
    and n: "unat (image_size (extent cs)) = ly_size L" and lo: "ly_lo L \<noteq> 0"
    using assms by (simp_all add: layout_ok_def)
  have "ly_img L \<noteq> 0 \<and> unat (ly_img L) + ly_size L \<le> 2 ^ 64 \<and>
      (\<forall>x\<in>region (ly_img L) (ly_size L). ly_mem L x = None)"
    using m(2)[unfolded mmap_ok_def, rule_format, OF m(1)] unfolding n by simp
  then show "ly_img L \<noteq> 0" "unat (ly_img L) + ly_size L \<le> 2 ^ 64" "ly_lo L \<noteq> 0"
    "x \<in> region (ly_img L) (ly_size L) \<Longrightarrow> ly_mem L x = None" using lo by auto
qed

lemma layout_segment:
  assumes L: "layout_ok h hdr cs L" and seg: "LC_Seg s ss \<in> set cs" and ld: "loadable s"
  shows "region (seg_dest L s) (unat (filesize s)) \<subseteq> region (ly_img L) (ly_size L)"
    and "seg_dest L s \<noteq> 0" and "unat (seg_dest L s) + unat (filesize s) \<le> 2 ^ 64"
proof -
  obtain hi where ext: "extent cs = (ly_lo L, hi)"
    using L by (cases "extent cs") (simp add: layout_ok_def)
  have fit: "segments_fit cs" and sized: "sized_segments cs" and size: "ly_size L = unat (image_size (extent cs))"
    using L by (simp_all add: layout_ok_def)
  have le: "unat (filesize s) \<le> unat (vmsize s)"
    using sized seg ld unfolding sized_segments_def loadable_def by blast
  have "unat (filesize s) \<noteq> 0" using ld by (simp add: loadable_def unat_eq_0)
  then have sz: "vmsize s \<noteq> 0" using le by auto
  then have mem: "s \<in> set (image_segments cs)"
    using seg ld by (force simp: image_segments_def mappable_def loadable_def)
  then have "unat (vmaddr s) + unat (vmsize s) < 2 ^ 64"
    using fit by (simp add: segments_fit_def list_all_iff)
  moreover have "unat (hi - ly_lo L) \<le> ly_size L" using image_size_ge [OF fit] ext size by simp
  ultimately have pos: "unat (seg_dest L s) = unat (ly_img L) + (unat (vmaddr s) - unat (ly_lo L))"
    "unat (ly_img L) + (unat (vmaddr s) - unat (ly_lo L)) + unat (vmsize s) \<le> unat (ly_img L) + ly_size L"
    using unat_relocated [of "ly_lo L" "vmaddr s" "vmsize s" hi "ly_size L" "ly_img L"] extent_bounds [OF ext mem]
      sz layout_image(2) [OF L] by (simp_all add: seg_dest_def)
  then show "region (seg_dest L s) (unat (filesize s)) \<subseteq> region (ly_img L) (ly_size L)"
    using le by (auto simp: region_def)
  show "seg_dest L s \<noteq> 0"
  proof
    assume "seg_dest L s = 0"
    then have "unat (ly_img L) = 0" using pos(1) by simp
    then show False using layout_image(1) [OF L] by (simp add: unat_eq_0)
  qed
  show "unat (seg_dest L s) + unat (filesize s) \<le> 2 ^ 64"
    using pos le layout_image(2) [OF L] by linarith
qed

text \<open>
  The fixups: every location holds its value (with the names resolved by the host), the unresolved
  ones are counted. A byte is unfixed when no fixup replaced it.
\<close>

definition host_resolver :: "host \<Rightarrow> cstr \<Rightarrow> addr" where
  "host_resolver h = resolver h (zero_context Map.empty)"

definition unresolved_fixups :: "host \<Rightarrow> image \<Rightarrow> u32" where
  "unresolved_fixups h im =
     of_nat (length (filter (\<lambda>(l, raw, n). fix_unresolved (host_resolver h) n raw) (im_fixups im)))"

definition fixups_hold :: "host \<Rightarrow> image \<Rightarrow> memory \<Rightarrow> bool" where
  "fixups_hold h im m \<longleftrightarrow>
     (\<forall>(l, raw, n) \<in> set (im_fixups im). load64 m l = Ok (fix_value (host_resolver h) (im_addr im) n raw))"

definition unfixed :: "image \<Rightarrow> addr \<Rightarrow> bool" where
  "unfixed im a \<longleftrightarrow> (\<forall>e \<in> set (im_fixups im). a \<notin> region (fst e) 8)"

definition copied_region :: "layout \<Rightarrow> segment_command_64 list \<Rightarrow> addr set" where
  "copied_region L ss = (\<Union>s \<in> set ss. region (seg_dest L s) (unat (filesize s)))"

text \<open>
  The address space when the segments \<open>ss\<close> have been copied and nothing is fixed up or bound: the
  file, the mapping of the image filled with zeros, and over it the bytes of the segments.
\<close>

definition image_memory :: "layout \<Rightarrow> segment_command_64 list \<Rightarrow> memory" where
  "image_memory L ss = fold (\<lambda>s m. map_file m (seg_dest L s) (seg_bytes L s)) ss
     (map_anon (ly_mem L) (ly_img L) (ly_size L))"

lemma image_memory_snoc:
  "image_memory L (ss @ [s]) = map_file (image_memory L ss) (seg_dest L s) (seg_bytes L s)"
  by (simp add: image_memory_def)

text \<open>The skipped entries of chains still hold their raw values.\<close>

definition skipped_raw :: "layout \<Rightarrow> segment_command_64 list \<Rightarrow> image \<Rightarrow> bool" where
  "skipped_raw L ss im \<longleftrightarrow>
     (\<forall>(l, raw) \<in> set (im_skipped im). load64 (image_memory L ss) l = Ok raw \<and> region l 8 \<subseteq> copied_region L ss)"

text \<open>A context that stands for the image, with the segments \<open>ss\<close> copied into it.\<close>

definition loaded :: "host \<Rightarrow> layout \<Rightarrow> segment_command_64 list \<Rightarrow> image \<Rightarrow> mach_context \<Rightarrow> bool" where
  "loaded h L ss im c \<longleftrightarrow>
     memblock c = ly_file L \<and> represents (ly_mem L) im c \<and>
     (\<forall>x. ly_mem L x \<noteq> None \<longrightarrow> mem c x = ly_mem L x) \<and>
     (if im_addr im = 0 then mem c = ly_mem L \<and> ss = [] \<and> im_fixups im = [] \<and> im_skipped im = []
      else im_addr im = ly_img L \<and> im_base im = ly_lo L \<and> mapped (mem c) (ly_img L) (ly_size L) \<and>
        (\<forall>a. unfixed im a \<longrightarrow> mem c a = image_memory L ss a)) \<and>
     (\<forall>s\<in>set ss. \<forall>i < unat (filesize s). unfixed im (seg_dest L s + of_nat i) \<longrightarrow>
        mem c (seg_dest L s + of_nat i) = Some (seg_bytes L s ! i)) \<and>
     fixups_hold h im (mem c) \<and> chained_unresolved_bind_count c = unresolved_fixups h im \<and>
     resolver h c = host_resolver h \<and>
     (\<forall>e\<in>set (im_fixups im). region (fst e) 8 \<subseteq> copied_region L ss) \<and> skipped_raw L ss im"

text \<open>Parts other than fixups change nothing of that.\<close>

lemma fixups_same:
  "im_fixups im' = im_fixups im \<Longrightarrow> im_addr im' = im_addr im \<Longrightarrow>
   unresolved_fixups h im' = unresolved_fixups h im \<and> fixups_hold h im' = fixups_hold h im \<and> unfixed im' = unfixed im"
  "im_skipped im' = im_skipped im \<Longrightarrow> skipped_raw L ss im' = skipped_raw L ss im"
  by (auto simp: unresolved_fixups_def fixups_hold_def unfixed_def skipped_raw_def)

lemma loaded_cong:
  assumes "loaded h L ss im c" and "represents (ly_mem L) im' c'"
    and "im_fixups im' = im_fixups im" "im_skipped im' = im_skipped im"
      "im_addr im' = im_addr im" "im_base im' = im_base im"
    and "mem c' = mem c" "memblock c' = memblock c"
      "chained_unresolved_bind_count c' = chained_unresolved_bind_count c"
      "libc_handle c' = libc_handle c" "libm_handle c' = libm_handle c"
  shows "loaded h L ss im' c'"
  using assms resolver_cong [OF assms(10,11), of h] fixups_same(1) [OF assms(3,5), of h]
    fixups_same(2) [OF assms(4), of L ss]
  unfolding loaded_def by (simp split: if_splits)

lemma loaded_resident: "layout_ok h hdr cs L \<Longrightarrow> loaded h L ss im c \<Longrightarrow> resident (ly_mem L) (ly_file L) (ly_bytes L) c"
  by (simp add: resident_def layout_ok_def loaded_def)

lemma loaded_holds: "loaded h L ss im c \<Longrightarrow> holds (ly_mem L) p xs \<Longrightarrow> holds (mem c) p xs"
  by (erule holds_sub) (simp add: loaded_def)

lemma loaded_string: "loaded h L ss im c \<Longrightarrow> c_string (ly_mem L) p = Ok s \<Longrightarrow> c_string (mem c) p = Ok s"
  using loaded_holds by (simp add: c_string_iff)

lemma layout_bytes:
  "layout_ok h hdr cs L \<Longrightarrow> bytes_at (ly_bytes L) off xs \<Longrightarrow> holds (ly_mem L) (ly_file L + of_nat off) xs"
  unfolding layout_ok_def by (elim conjE) (rule bytes_at_holds)

section \<open>One part at a time\<close>

definition opened :: "layout \<Rightarrow> image \<Rightarrow> image" where
  "opened L im = (if im_addr im = 0 then im\<lparr>im_addr := ly_img L, im_base := ly_lo L\<rparr> else im)"

lemma ensure_loaded:
  assumes L: "layout_ok h hdr cs L" and c: "loaded h L ss im c"
  shows "\<exists>c1. ensure_image_mapping_64 h c = Ok (0, c1) \<and> loaded h L ss (opened L im) c1 \<and>
    im_addr (opened L im) \<noteq> 0"
proof (cases "im_addr im = 0")
  case False
  then have "ensure_image_mapping_64 h c = Ok (0, c)"
    using c by (simp add: ensure_image_mapping_64_def loaded_def represents_def)
  then show ?thesis using c False by (simp add: opened_def)
next
  case True
  let ?n = "image_size (extent cs)"
  let ?c = "c\<lparr>mem := map_anon (mem c) (ly_img L) (unat ?n), img_addr := ly_img L, v_addr := ly_lo L\<rparr>"
  have st: "mem c = ly_mem L" "memblock c = ly_file L" "img_addr c = 0" "ss = []"
    using c True by (simp_all add: loaded_def represents_def)
  have "file_at (mem c) (memblock c) hdr cs" using L st by (simp add: layout_ok_def)
  moreover have "extent_ok (extent cs)" "fst (extent cs) = ly_lo L"
    "host_mmap h (ly_mem L) (ly_lo L) ?n = Some (ly_img L)"
    using L by (simp_all add: layout_ok_def)
  ultimately have run: "ensure_image_mapping_64 h c = Ok (0, ?c)"
    using ensure_image_mapping_64_file [of c hdr cs h] st by simp
  have n: "unat ?n = ly_size L" using L by (simp add: layout_ok_def)
  have keep: "mem ?c x = ly_mem L x" if "ly_mem L x \<noteq> None" for x
  proof -
    have "x \<notin> region (ly_img L) (unat ?n)" using that layout_image(3) [OF L, of x] n by auto
    then show ?thesis using st by (simp add: map_anon_other)
  qed
  have "mapped (mem ?c) (ly_img L) (ly_size L)"
    using layout_image(1,2) [OF L] n map_anon_mapped by simp
  moreover have "represents (ly_mem L) (im\<lparr>im_addr := ly_img L, im_base := ly_lo L\<rparr>) ?c"
    using c by (simp add: loaded_def represents_def ctx_ok_def)
  moreover have "im_fixups im = []" "im_skipped im = []" "chained_unresolved_bind_count ?c = 0"
    "resolver h ?c = host_resolver h"
    using c True resolver_cong [of ?c c h] by (simp_all add: loaded_def unresolved_fixups_def)
  moreover have "image_memory L ss = mem ?c" using st n by (simp add: image_memory_def)
  ultimately have "loaded h L ss (opened L im) ?c"
    using True st keep layout_image(1) [OF L]
    by (simp add: loaded_def opened_def unresolved_fixups_def fixups_hold_def skipped_raw_def)
  then show ?thesis using run True layout_image(1) [OF L] by (simp add: opened_def)
qed

definition clear_of :: "layout \<Rightarrow> segment_command_64 \<Rightarrow> segment_command_64 \<Rightarrow> bool" where
  "clear_of L s t \<longleftrightarrow> apart (seg_dest L s) (unat (filesize s)) (seg_dest L t) (unat (filesize t))"

lemma length_seg_bytes: "part_ok (ly_bytes L) (P_Segment s ss) \<Longrightarrow> loadable s \<Longrightarrow>
  length (seg_bytes L s) = unat (filesize s)"
  by (simp add: seg_bytes_def)

lemma copied_region_append [simp]:
  "copied_region L (ss @ ts) = copied_region L ss \<union> copied_region L ts"
  by (auto simp: copied_region_def)

text \<open>Writing a segment that lies apart from those already copied.\<close>

lemma copy_kept:
  assumes c: "loaded h L ss im c" and m: "store_bytes (mem c) (seg_dest L s) (seg_bytes L s) = Ok m"
    and len: "length (seg_bytes L s) = unat (filesize s)"
    and clear: "region (seg_dest L s) (unat (filesize s)) \<inter> copied_region L ss = {}"
    and old: "\<And>x. ly_mem L x \<noteq> None \<Longrightarrow> x \<notin> region (seg_dest L s) (unat (filesize s))"
    and wrap: "\<forall>t\<in>set ss. unat (seg_dest L t) + unat (filesize t) \<le> 2 ^ 64"
    and im: "im_addr im \<noteq> 0"
  shows "loaded h L (ss @ [s]) im (c\<lparr>mem := m\<rparr>)"
proof -
  have other: "m x = mem c x" if "x \<notin> region (seg_dest L s) (unat (filesize s))" for x
    using store_bytes_other [OF m] that len by simp
  have fix_other: "m x = mem c x" if "(l, raw, n) \<in> set (im_fixups im)" "x \<in> region l 8" for l raw n x
  proof (rule other)
    have "region l 8 \<subseteq> copied_region L ss" using c that(1) by (force simp: loaded_def)
    then show "x \<notin> region (seg_dest L s) (unat (filesize s))" using clear that(2) by blast
  qed
  have "fixups_hold h im m"
    unfolding fixups_hold_def
  proof (intro ballI, clarify)
    fix l raw n assume e: "(l, raw, n) \<in> set (im_fixups im)"
    then have v: "load64 (mem c) l = Ok (fix_value (host_resolver h) (im_addr im) n raw)"
      using c by (auto simp: loaded_def fixups_hold_def)
    show "load64 m l = Ok (fix_value (host_resolver h) (im_addr im) n raw)"
      by (rule c64.dec_unchanged [OF v]) (use fix_other [OF e] in simp)
  qed
  moreover have "m (seg_dest L t + of_nat i) = Some (seg_bytes L t ! i)"
    if t: "t \<in> set ss" and i: "i < unat (filesize t)" and u: "unfixed im (seg_dest L t + of_nat i)" for t i
  proof -
    have "seg_dest L t + of_nat i \<in> copied_region L ss"
      using region_at [OF i, of "seg_dest L t"] wrap t by (auto simp: copied_region_def)
    then have "m (seg_dest L t + of_nat i) = mem c (seg_dest L t + of_nat i)" using clear by (intro other) blast
    then show ?thesis using c t i u by (simp add: loaded_def)
  qed
  moreover have "m (seg_dest L s + of_nat i) = Some (seg_bytes L s ! i)" if "i < unat (filesize s)" for i
    using holds_at [OF store_bytes_holds [OF m]] that len by simp
  moreover have "mapped m (ly_img L) (ly_size L)" using store_bytes_mapped [OF m] c im by (simp add: loaded_def)
  moreover have "m x = ly_mem L x" if "ly_mem L x \<noteq> None" for x
    using other [OF old [OF that]] c that by (simp add: loaded_def)
  moreover have "image_memory L (ss @ [s]) a = m a" if "unfixed im a" for a
    using c im that by (simp add: store_bytes_map_file [OF m] image_memory_snoc map_file_def loaded_def)
  moreover have "skipped_raw L (ss @ [s]) im"
    unfolding skipped_raw_def
  proof (intro ballI, clarify)
    fix l raw assume "(l, raw) \<in> set (im_skipped im)"
    then have v: "load64 (image_memory L ss) l = Ok raw" and sub: "region l 8 \<subseteq> copied_region L ss"
      using c by (auto simp: loaded_def skipped_raw_def)
    have "image_memory L (ss @ [s]) x = image_memory L ss x" if "x \<in> region l 8" for x
      unfolding image_memory_snoc using that sub clear len by (intro map_file_other) auto
    then show "load64 (image_memory L (ss @ [s])) l = Ok raw \<and> region l 8 \<subseteq> copied_region L (ss @ [s])"
      using sub by (auto intro: c64.dec_unchanged [OF v])
  qed
  moreover have "resolver h (c\<lparr>mem := m\<rparr>) = resolver h c" by (rule resolver_cong; simp)
  ultimately show ?thesis using c im by (auto simp: loaded_def represents_def ctx_ok_def)
qed

lemma copy_loaded:
  assumes L: "layout_ok h hdr cs L" and c: "loaded h L ss im c" and im: "im_addr im \<noteq> 0"
    and seg: "LC_Seg s sx \<in> set cs" and ok: "part_ok (ly_bytes L) (P_Segment s sx)" and ld: "loadable s"
    and apart: "\<forall>t\<in>set ss. clear_of L t s"
    and wrap: "\<forall>t\<in>set ss. unat (seg_dest L t) + unat (filesize t) \<le> 2 ^ 64"
  shows "\<exists>c1. copy_segment_64 s c = Ok c1 \<and> loaded h L (ss @ [s]) im c1"
proof -
  let ?n = "unat (filesize s)"
  have "bytes_at (ly_bytes L) (unat (fileoff s)) (seg_bytes L s)"
    using ok ld by (simp add: bytes_at_def seg_bytes_def)
  then have src: "holds (mem c) (ly_file L + fileoff s) (seg_bytes L s)"
    using loaded_holds [OF c layout_bytes [OF L]] by fastforce
  have img: "img_addr c = ly_img L" "v_addr c = ly_lo L" "memblock c = ly_file L" "ly_lo L \<noteq> 0"
    and map: "mapped (mem c) (ly_img L) (ly_size L)"
    using c im layout_image(4) [OF L] by (simp_all add: loaded_def represents_def)
  have "mapped (mem c) (seg_dest L s) ?n"
    using layout_segment(2,3) [OF L seg ld] mapped_in_region [OF map] layout_segment(1) [OF L seg ld]
    by (intro mapped_region) auto
  then obtain m where m: "store_bytes (mem c) (seg_dest L s) (seg_bytes L s) = Ok m"
    using length_seg_bytes [OF ok ld] store_bytes_total [of "mem c" "seg_dest L s" "seg_bytes L s"]
    by (auto simp: is_ok_iff)
  have "copy_segment_64 s c = Ok (c\<lparr>mem := m\<rparr>)"
    using img ld m src length_seg_bytes [OF ok ld] layout_image(1) [OF L]
    by (simp add: copy_segment_64_def Let_def loadable_def memcpy_def seg_dest_def)
  moreover have "loaded h L (ss @ [s]) im (c\<lparr>mem := m\<rparr>)"
  proof (rule copy_kept [OF c m length_seg_bytes [OF ok ld] _ _ wrap im])
    show "region (seg_dest L s) ?n \<inter> copied_region L ss = {}"
      using apart apart_disjoint by (fastforce simp: copied_region_def clear_of_def)
    show "x \<notin> region (seg_dest L s) ?n" if "ly_mem L x \<noteq> None" for x
      using that layout_image(3) [OF L, of x] layout_segment(1) [OF L seg ld] by auto
  qed
  ultimately show ?thesis by blast
qed

text \<open>A segment command.\<close>

definition copied :: "part \<Rightarrow> segment_command_64 list" where
  "copied p = (case p of P_Segment s ss \<Rightarrow> if loadable s then [s] else [] | _ \<Rightarrow> [])"

lemma loaded_record:
  assumes "loaded h L ss im c" and "length name = 16"
  shows "loaded h L ss (add_segment name va sz im) (record_segment c name va sz)"
  using assms(1)
proof (rule loaded_cong)
  show "represents (ly_mem L) (add_segment name va sz im) (record_segment c name va sz)"
    using assms represents_record by (simp add: loaded_def)
qed (simp_all add: record_segment_def add_segment_def)

definition segs_ok :: "layout \<Rightarrow> segment_command_64 list \<Rightarrow> bool" where
  "segs_ok L ss \<longleftrightarrow> sorted_wrt (clear_of L) ss \<and>
     list_all (\<lambda>s. length (seg_bytes L s) = unat (filesize s)) ss"

definition segs_placed :: "layout \<Rightarrow> segment_command_64 list \<Rightarrow> bool" where
  "segs_placed L ss \<longleftrightarrow> copied_region L ss \<subseteq> region (ly_img L) (ly_size L) \<and>
     (\<forall>s\<in>set ss. unat (seg_dest L s) + unat (filesize s) \<le> 2 ^ 64)"

lemma copied_placed:
  assumes "layout_ok h hdr cs L" and "part_lcmd p \<in> set cs"
  shows "segs_placed L (copied p)"
  using layout_segment(1,3) [OF assms(1)] assms(2)
  by (cases p) (auto simp: copied_def segs_placed_def copied_region_def)

lemma segs_placed_append: "segs_placed L (ss @ ts) \<longleftrightarrow> segs_placed L ss \<and> segs_placed L ts"
  by (auto simp: segs_placed_def)

lemma run_segment:
  assumes L: "layout_ok h hdr cs L" and c: "loaded h L done im c" and seg: "LC_Seg s sx \<in> set cs"
    and wf: "wf_lcmd (LC_Seg s sx)" and ok: "part_ok (ly_bytes L) (P_Segment s sx)"
    and sep: "segs_ok L (done @ copied (P_Segment s sx))" and placed: "segs_placed L done"
  shows "\<exists>c'. run_lcmd h (LC_Seg s sx) c = Ok c' \<and>
    loaded h L (done @ copied (P_Segment s sx)) (load_part (ly_img L) (ly_lo L) (P_Segment s sx) im) c'"
proof -
  obtain c1 where c1: "ensure_image_mapping_64 h c = Ok (0, c1)" "loaded h L done (opened L im) c1"
    and im: "im_addr (opened L im) \<noteq> 0" using ensure_loaded [OF L c] by blast
  have "\<exists>c2. copy_segment_64 s c1 = Ok c2 \<and> loaded h L (done @ copied (P_Segment s sx)) (opened L im) c2"
  proof (cases "loadable s")
    case True
    then show ?thesis
      using copy_loaded [OF L c1(2) im seg ok True] sep placed
      by (simp add: copied_def segs_ok_def sorted_wrt_append segs_placed_def)
  next
    case False
    then have "copy_segment_64 s c1 = Ok c1" by (auto simp: copy_segment_64_def loadable_def)
    then show ?thesis using False c1(2) by (simp add: copied_def)
  qed
  then obtain c2 where c2: "copy_segment_64 s c1 = Ok c2"
    "loaded h L (done @ copied (P_Segment s sx)) (opened L im) c2" by blast
  have "length (segname s) = 16" using wf by (simp add: wf_segment_command_64_def)
  from loaded_record [OF c2(2) this] show ?thesis
    using c1(1) c2(1) by (simp add: opened_def Let_def)
qed

text \<open>Bind commands, symbol tables and libraries change the image alone.\<close>

lemma run_binds:
  assumes L: "layout_ok h hdr cs L" and c: "loaded h L ss im c" and ok: "part_ok (ly_bytes L) (P_Binds d ops lazy)"
    and room: "length (im_binds (load_part img lo (P_Binds d ops lazy) im)) \<le> INT_MAX"
  shows "\<exists>c'. run_lcmd h (LC_Dyldinfo d) c = Ok c' \<and> loaded h L ss (load_part img lo (P_Binds d ops lazy) im) c'"
proof -
  have rep: "represents (ly_mem L) im c" and alloc: "alloc_ok h" using c L by (simp_all add: loaded_def layout_ok_def)
  obtain xs where "run_lcmd h (LC_Dyldinfo d) c = Ok (c\<lparr>b_list := xs\<rparr>)"
    and xs: "represents (ly_mem L) (add_binds ops lazy im) (c\<lparr>b_list := xs\<rparr>)"
    using binds_represent [OF loaded_resident [OF L c] rep alloc, of d ops lazy] ok room by auto
  moreover have "loaded h L ss (add_binds ops lazy im) (c\<lparr>b_list := xs\<rparr>)"
    by (rule loaded_cong [OF c xs]) (simp_all add: add_binds_def)
  ultimately show ?thesis by simp
qed

lemma run_symbols:
  assumes L: "layout_ok h hdr cs L" and c: "loaded h L ss im c" and ok: "part_ok (ly_bytes L) (P_Symbols t es)"
  shows "\<exists>c'. run_lcmd h (LC_Sym t) c = Ok c' \<and> loaded h L ss (load_part img lo (P_Symbols t es) im) c'"
proof -
  have rep: "represents (ly_mem L) im c" using c by (simp add: loaded_def)
  have "symbols_at c t es" using symbols_resident [OF loaded_resident [OF L c]] ok by simp
  then have "run_lcmd h (LC_Sym t) c = Ok (c\<lparr>entry_point := entry_of c es\<rparr>)"
    using symbols_run ok by (simp add: symbols_in_def)
  moreover have "loaded h L ss (set_entry n_value es im) (c\<lparr>entry_point := entry_of c es\<rparr>)"
    by (rule loaded_cong [OF c entry_represents [OF rep]]) (simp_all add: set_entry_def)
  ultimately show ?thesis by simp
qed

lemma run_library:
  assumes L: "layout_ok h hdr cs L" and c: "loaded h L ss im c" and ok: "part_ok (ly_bytes L) (P_Library d tail name)"
    and here: "holds (ly_mem L) (ptr c) (enc_lcmd (LC_Dylib d tail))" and room: "length (im_libs im) < INT_MAX"
  shows "\<exists>c'. run_lcmd h (LC_Dylib d tail) c = Ok c' \<and> loaded h L ss (load_part img lo (P_Library d tail name) im) c'"
proof -
  have rep: "represents (ly_mem L) im c" and alloc: "alloc_ok h" using c L by (simp_all add: loaded_def layout_ok_def)
  obtain ds where "run_lcmd h (LC_Dylib d tail) c = Ok (c\<lparr>d_list := ds\<rparr>)"
    and ds: "represents (ly_mem L) (add_library name im) (c\<lparr>d_list := ds\<rparr>)"
    using library_represents [OF loaded_resident [OF L c] rep alloc _ here room] ok by auto
  moreover have "loaded h L ss (add_library name im) (c\<lparr>d_list := ds\<rparr>)"
    by (rule loaded_cong [OF c ds]) (simp_all add: add_library_def)
  ultimately show ?thesis by simp
qed

text \<open>
  A fixup blob: it lies in the file, the chains it starts are in the segments copied so far, and
  they stay apart from the pointers that earlier blobs fixed up.
\<close>

definition copied_memory :: "layout \<Rightarrow> segment_command_64 list \<Rightarrow> memory" where
  "copied_memory L ss = fold (\<lambda>s m. map_file m (seg_dest L s) (seg_bytes L s)) ss Map.empty"

fun fixups_ok :: "layout \<Rightarrow> segment_command_64 list \<Rightarrow> image \<Rightarrow> part \<Rightarrow> bool" where
  "fixups_ok L ss im (P_Fixups d B ims) \<longleftrightarrow> im_addr im \<noteq> 0 \<and>
     bl_base B = ly_file L + ucast (dataoff d) \<and> bl_size B = unat (datasize d) \<and>
     blob_at (ly_mem L) B \<and> names_at (ly_mem L) B ims \<and>
     blob_chains (copied_memory L ss) (im_addr im) (im_segments im) B \<and>
     (\<forall>(l, raw) \<in> set (blob_entries (im_segments im) B). \<forall>e \<in> set (im_fixups im). apart l 8 (fst e) 8)"
| "fixups_ok L ss im p \<longleftrightarrow> True"

lemma copied_memory_at:
  "copied_memory L ss a = Some b \<Longrightarrow>
   \<exists>s\<in>set ss. \<exists>i < length (seg_bytes L s). a = seg_dest L s + of_nat i \<and> b = seg_bytes L s ! i"
proof (induction ss rule: rev_induct)
  case Nil
  then show ?case by (simp add: copied_memory_def)
next
  case (snoc s ss)
  let ?p = "seg_dest L s" and ?i = "unat a - unat (seg_dest L s)"
  show ?case
  proof (cases "a \<in> region ?p (length (seg_bytes L s))")
    case True
    then have "unat ?p \<le> unat a" and "?i < length (seg_bytes L s)" by (auto simp: region_def)
    moreover from this have "a = ?p + of_nat ?i" by (simp add: of_nat_diff)
    moreover have "b = seg_bytes L s ! ?i"
      using snoc.prems True by (simp add: copied_memory_def map_file_def region_def)
    ultimately show ?thesis by (intro bexI [of _ s] exI [of _ ?i]) simp_all
  next
    case False
    then have "copied_memory L ss a = Some b"
      using snoc.prems by (simp add: copied_memory_def map_file_other)
    then show ?thesis using snoc.IH by auto
  qed
qed

lemma copied_memory_loaded:
  assumes c: "loaded h L ss im c" and sep: "segs_ok L ss" "segs_placed L ss"
    and a: "copied_memory L ss a = Some b" and u: "unfixed im a"
  shows "mem c a = Some b" and "a \<in> copied_region L ss"
proof -
  obtain s i where s: "s \<in> set ss" and i: "i < length (seg_bytes L s)"
    and ab: "a = seg_dest L s + of_nat i" "b = seg_bytes L s ! i"
    using copied_memory_at [OF a] by blast
  have len: "length (seg_bytes L s) = unat (filesize s)" and wrap: "unat (seg_dest L s) + unat (filesize s) \<le> 2 ^ 64"
    using sep s by (auto simp: segs_ok_def segs_placed_def list_all_iff)
  show "mem c a = Some b" using c s i u len by (simp add: loaded_def ab)
  show "a \<in> copied_region L ss"
    using region_at [of i "unat (filesize s)" "seg_dest L s"] i len wrap s by (auto simp: copied_region_def ab)
qed

lemma copied_memory_image: "copied_memory L ss a = Some b \<Longrightarrow> image_memory L ss a = Some b"
proof (induction ss rule: rev_induct)
  case (snoc s ss)
  then show ?case by (simp add: image_memory_snoc) (auto simp: copied_memory_def map_file_def split: if_splits)
qed (simp add: copied_memory_def)

text \<open>The state of the image after its entries were fixed up.\<close>

lemma fixups_loaded:
  assumes c: "loaded h L ss im c" and im: "im_addr im \<noteq> 0" and ready: "entries_ready m B es"
    and apart: "\<forall>(l, raw) \<in> set es. \<forall>e \<in> set (im_fixups im). apart l 8 (fst e) 8"
    and inside: "\<forall>(l, raw) \<in> set es. region l 8 \<subseteq> copied_region L ss"
    and free: "\<And>x. x \<in> copied_region L ss \<Longrightarrow> ly_mem L x = None"
    and fx: "fixups_done es (c\<lparr>chained_rebase_count := 0, chained_bind_count := 0\<rparr>) c'"
    and vs: "values_set h ims es c c'"
    and skip: "\<forall>(l, raw) \<in> set sk. load64 (image_memory L ss) l = Ok raw \<and> region l 8 \<subseteq> copied_region L ss"
  shows "loaded h L ss (im\<lparr>im_fixups := im_fixups im @ map (\<lambda>(l, raw). (l, raw, import_for ims raw)) es,
    im_skipped := im_skipped im @ sk\<rparr>) c'"
proof -
  let ?im = "im\<lparr>im_fixups := im_fixups im @ map (\<lambda>(l, raw). (l, raw, import_for ims raw)) es,
    im_skipped := im_skipped im @ sk\<rparr>"
  have only: "only_fixups c c'" and same: "\<And>a. \<forall>(l, raw) \<in> set es. a \<notin> region l 8 \<Longrightarrow> mem c' a = mem c a"
    using fx by (auto simp: fixups_done_def only_fixups_def)
  have left: "unfixed im a \<and> mem c' a = mem c a" if u: "unfixed ?im a" for a
  proof
    show "unfixed im a" using u by (simp add: unfixed_def)
    have "\<forall>(l, raw) \<in> set es. a \<notin> region l 8" using u unfolding unfixed_def by force
    then show "mem c' a = mem c a" by (rule same)
  qed
  have res: "resolver h c = host_resolver h" "resolver h c' = host_resolver h" and img: "img_addr c = im_addr im"
    using c vs by (auto simp: loaded_def values_set_def represents_def)
  have "fixups_hold h ?im (mem c')"
    unfolding fixups_hold_def
  proof (intro ballI, clarify)
    fix l raw n assume "(l, raw, n) \<in> set (im_fixups ?im)"
    then consider "(l, raw, n) \<in> set (im_fixups im)" | "(l, raw) \<in> set es" "n = import_for ims raw" by auto
    then show "load64 (mem c') l = Ok (fix_value (host_resolver h) (im_addr ?im) n raw)"
    proof cases
      case 1
      then have v: "load64 (mem c) l = Ok (fix_value (host_resolver h) (im_addr im) n raw)"
        using c by (auto simp: loaded_def fixups_hold_def)
      have "mem c' a = mem c a" if a: "a \<in> region l 8" for a
        using apart 1 a by (intro same) (fastforce simp: apart_def region_def)
      then show ?thesis using c64.dec_unchanged [OF v] by simp
    next
      case 2
      then show ?thesis using vs res img by (auto simp: values_set_def)
    qed
  qed
  moreover have "length (filter (\<lambda>(l, raw, n). P n raw) (map (\<lambda>(l, raw). (l, raw, f raw)) es)) =
      length (filter (\<lambda>(l, raw). P (f raw) raw) es)" for P :: "cstr option \<Rightarrow> u64 \<Rightarrow> bool" and f
    by (induction es) auto
  then have "chained_unresolved_bind_count c' = unresolved_fixups h ?im"
    using c vs res by (simp add: loaded_def values_set_def unresolved_fixups_def)
  moreover have "mem c' x = ly_mem L x" if "ly_mem L x \<noteq> None" for x
  proof -
    have "mem c' x = mem c x" using inside free that by (intro same) fastforce
    then show ?thesis using c that by (simp add: loaded_def)
  qed
  moreover have "mem c' (seg_dest L s + of_nat i) = Some (seg_bytes L s ! i)"
    if s: "s \<in> set ss" "i < unat (filesize s)" and u: "unfixed ?im (seg_dest L s + of_nat i)" for s i
    using c s left [OF u] by (simp add: loaded_def)
  moreover have "mem c' a = image_memory L ss a" if "unfixed ?im a" for a
    using c im left [OF that] by (simp add: loaded_def)
  moreover have "skipped_raw L ss ?im" using c skip by (auto simp: skipped_raw_def loaded_def)
  moreover have "mapped (mem c') (ly_img L) (ly_size L)"
  proof (rule extends_mapped)
    show "extends c c'" using only by (rule only_fixups_extends)
  qed (use c im in \<open>simp add: loaded_def\<close>)
  moreover have "represents (ly_mem L) ?im c'"
    using c only by (auto simp: loaded_def represents_def only_fixups_def ctx_ok_def)
  moreover have "memblock c' = ly_file L" using c only by (simp add: loaded_def only_fixups_def)
  moreover have "\<forall>e\<in>set (im_fixups ?im). region (fst e) 8 \<subseteq> copied_region L ss"
    using c inside by (fastforce simp: loaded_def)
  ultimately show ?thesis using c im res by (simp add: loaded_def)
qed

lemma image_segments_at: "represents m0 im c \<Longrightarrow> image_at c (im_addr im) (im_segments im)"
proof -
  assume rep: "represents m0 im c"
  then have segs: "im_segments im = take (length (im_segments im)) (segments c)"
    and "length (im_segments im) \<le> length (segments c)"
    by (auto simp: represents_def ctx_ok_def)
  then have "segments c ! i = im_segments im ! i" if "i < length (im_segments im)" for i
    using that by (metis nth_take)
  then show ?thesis using rep by (simp add: image_at_def represents_def)
qed

lemma run_fixups:
  assumes L: "layout_ok h hdr cs L" and c: "loaded h L ss im c" and ok: "part_ok (ly_bytes L) (P_Fixups d B ims)"
    and laid: "fixups_ok L ss im (P_Fixups d B ims)" and sep: "segs_ok L ss" "segs_placed L ss"
  shows "\<exists>c'. run_lcmd h (LC_Fixups d) c = Ok c' \<and> loaded h L ss (load_part img lo (P_Fixups d B ims) im) c'"
proof -
  let ?segs = "im_segments im"
  have rep: "represents (ly_mem L) im c" and mb: "memblock c = ly_file L"
    and keep: "\<And>x. ly_mem L x \<noteq> None \<Longrightarrow> mem c x = ly_mem L x" using c by (simp_all add: loaded_def)
  have B: "blob_at (ly_mem L) B" and N: "names_at (ly_mem L) B ims" and im: "im_addr im \<noteq> 0"
    and base: "bl_base B = memblock c + ucast (dataoff d)" and size: "bl_size B = unat (datasize d)"
    and bc: "blob_chains (copied_memory L ss) (im_addr im) ?segs B"
    and old: "\<forall>(l, raw) \<in> set (blob_entries ?segs B). \<forall>e \<in> set (im_fixups im). apart l 8 (fst e) 8"
    using laid mb by simp_all
  have "bl_base B = ly_file L + of_nat (unat (dataoff d))" using base mb by simp
  moreover have "mapped (ly_mem L) (ly_file L) (length (ly_bytes L))"
    using L by (auto simp: layout_ok_def intro: holds_mapped)
  ultimately have "mapped (ly_mem L) (bl_base B) (bl_size B)"
    using ok size by (simp only: part_ok.simps) (rule mapped_offset)
  then have blob: "mem c a = ly_mem L a" if "a \<in> region (bl_base B) (bl_size B)" for a
    using that mapped_in_region by (intro keep) blast
  have entry: "mem c a = copied_memory L ss a \<and> a \<in> copied_region L ss"
    if e: "(l, raw) \<in> set (blob_entries ?segs B)" and a: "a \<in> region l 8" for l raw a
  proof -
    have "load64 (copied_memory L ss) l = Ok raw"
      using blob_entries_ready [OF B bc] e by (auto simp: entries_ready_def)
    then have "mapped (copied_memory L ss) l 8" by (simp add: load_mapped(3) [symmetric] is_ok_iff)
    then obtain b where b: "copied_memory L ss a = Some b" using mapped_in_region a by blast
    have "unfixed im a" unfolding unfixed_def
    proof
      fix e' assume "e' \<in> set (im_fixups im)"
      then have "apart l 8 (fst e') 8" using old e by auto
      then show "a \<notin> region (fst e') 8" using a by (auto simp: apart_def region_def)
    qed
    from copied_memory_loaded [OF c sep b this] show ?thesis using b by simp
  qed
  have free: "ly_mem L x = None" if "x \<in> copied_region L ss" for x
    using layout_image(3) [OF L, of x] sep(2) that by (auto simp: segs_placed_def)
  have ready: "entries_ready (copied_memory L ss) B (blob_applied ?segs B)" by (rule blob_ready [OF B bc])
  have "blob_chains (mem c) (im_addr im) ?segs B"
    using blob_chains_cong [OF B bc] entry by blast
  then obtain c' where c': "dump_chained_fixups h c (dataoff d) (datasize d) = Ok c'"
    "fixups_done (blob_applied ?segs B) (c\<lparr>chained_rebase_count := 0, chained_bind_count := 0\<rparr>) c'"
    "values_set h ims (blob_applied ?segs B) c c'"
    using blob_values [OF blob_at_cong [OF B blob] image_segments_at [OF rep] _ base size names_at_cong [OF N blob]]
    by blast
  have skip: "load64 (image_memory L ss) l = Ok raw \<and> region l 8 \<subseteq> copied_region L ss"
    if e: "(l, raw) \<in> set (blob_skipped ?segs B)" for l raw
  proof
    have "(l, raw) \<in> set (blob_entries ?segs B)" using e by (simp add: blob_skipped_def)
    then show "region l 8 \<subseteq> copied_region L ss" using entry by blast
    have v: "load64 (copied_memory L ss) l = Ok raw" by (rule blob_skipped_kept(1) [OF B bc e])
    then have "mapped (copied_memory L ss) l 8" by (simp add: load_mapped(3) [symmetric] is_ok_iff)
    then have "copied_memory L ss a \<noteq> None" if "a \<in> region l 8" for a using that by (rule mapped_in_region)
    then show "load64 (image_memory L ss) l = Ok raw"
      by (intro c64.dec_unchanged [OF v]) (use copied_memory_image in fastforce)
  qed
  have "loaded h L ss (im\<lparr>im_fixups := im_fixups im @
      map (\<lambda>(l, raw). (l, raw, import_for ims raw)) (blob_applied ?segs B),
      im_skipped := im_skipped im @ blob_skipped ?segs B\<rparr>) c'"
  proof (rule fixups_loaded [OF c im ready _ _ free c'(2,3)])
    show "\<forall>(l, raw) \<in> set (blob_skipped ?segs B). load64 (image_memory L ss) l = Ok raw \<and>
        region l 8 \<subseteq> copied_region L ss"
      using skip by blast
    show "\<forall>(l, raw) \<in> set (blob_applied ?segs B). \<forall>e \<in> set (im_fixups im). apart l 8 (fst e) 8"
      using old blob_applied_entries by fast
    show "\<forall>(l, raw) \<in> set (blob_applied ?segs B). region l 8 \<subseteq> copied_region L ss"
      using entry blob_applied_entries by fast
  qed
  then show ?thesis using c'(1) by simp
qed

lemma run_part:
  assumes L: "layout_ok h hdr cs L" and c: "loaded h L done im c" and x: "part_lcmd p \<in> set cs"
    and wf: "wf_lcmd (part_lcmd p)" and ok: "part_ok (ly_bytes L) p" and laid: "fixups_ok L done im p"
    and sep: "segs_ok L (done @ copied p)" and placed: "segs_placed L done"
    and here: "holds (ly_mem L) (ptr c) (enc_lcmd (part_lcmd p))"
    and room: "length (im_binds (load_part (ly_img L) (ly_lo L) p im)) \<le> INT_MAX"
      "length (im_libs (load_part (ly_img L) (ly_lo L) p im)) \<le> INT_MAX"
  shows "\<exists>c'. run_lcmd h (part_lcmd p) c = Ok c' \<and>
    loaded h L (done @ copied p) (load_part (ly_img L) (ly_lo L) p im) c'"
proof (cases p)
  case (P_Segment s sx)
  then show ?thesis using run_segment [OF L c] x wf ok sep placed by simp
next
  case (P_Binds d ops lazy)
  have "\<exists>c'. run_lcmd h (LC_Dyldinfo d) c = Ok c' \<and> loaded h L done (load_part (ly_img L) (ly_lo L) p im) c'"
    unfolding P_Binds by (rule run_binds [OF L c]) (use ok room in \<open>simp_all only: P_Binds\<close>)
  then show ?thesis using P_Binds by (simp add: copied_def)
next
  case (P_Symbols t es)
  have "\<exists>c'. run_lcmd h (LC_Sym t) c = Ok c' \<and> loaded h L done (load_part (ly_img L) (ly_lo L) p im) c'"
    unfolding P_Symbols by (rule run_symbols [OF L c]) (use ok in \<open>simp only: P_Symbols\<close>)
  then show ?thesis using P_Symbols by (simp add: copied_def)
next
  case (P_Library d tail name)
  have "\<exists>c'. run_lcmd h (LC_Dylib d tail) c = Ok c' \<and> loaded h L done (load_part (ly_img L) (ly_lo L) p im) c'"
    unfolding P_Library
    by (rule run_library [OF L c]) (use ok here room in \<open>simp_all add: P_Library add_library_def\<close>)
  then show ?thesis using P_Library by (simp add: copied_def)
next
  case (P_Fixups d B ims)
  have "segs_ok L done" using sep by (simp add: segs_ok_def sorted_wrt_append)
  then have "\<exists>c'. run_lcmd h (LC_Fixups d) c = Ok c' \<and> loaded h L done (load_part (ly_img L) (ly_lo L) p im) c'"
    unfolding P_Fixups
    by (intro run_fixups [OF L c]) (use ok laid placed in \<open>simp_all only: P_Fixups\<close>)
  then show ?thesis using P_Fixups by (simp add: copied_def)
next
  case (P_Other y)
  then show ?thesis using c ok by (cases y) (auto simp: copied_def)
qed

lemma loaded_ptr [simp]: "loaded h L ss im (c\<lparr>ptr := q\<rparr>) = loaded h L ss im c"
proof -
  have "resolver h (c\<lparr>ptr := q\<rparr>) = resolver h c" by (rule resolver_cong; simp)
  then show ?thesis by (simp add: loaded_def represents_def ctx_ok_def)
qed

section \<open>All parts\<close>

lemma segs_ok_append: "segs_ok L (xs @ ys) \<Longrightarrow> segs_ok L xs"
  by (simp add: segs_ok_def sorted_wrt_append)

text \<open>The condition on the fixup blobs, each with the segments and the image before it.\<close>

fun fixups_laid :: "layout \<Rightarrow> segment_command_64 list \<Rightarrow> image \<Rightarrow> part list \<Rightarrow> bool" where
  "fixups_laid L ss im [] \<longleftrightarrow> True"
| "fixups_laid L ss im (p # ps) \<longleftrightarrow> fixups_ok L ss im p \<and>
     fixups_laid L (ss @ copied p) (load_part (ly_img L) (ly_lo L) p im) ps"

lemma fixups_laid_append: "fixups_laid L ss im (ps @ qs) \<Longrightarrow> fixups_laid L ss im ps"
  by (induction ps arbitrary: ss im) simp_all

text \<open>The abstract state of the walk: the segments copied so far, and the image.\<close>

definition place_part :: "layout \<Rightarrow> part \<Rightarrow> segment_command_64 list \<times> image \<Rightarrow> segment_command_64 list \<times> image" where
  "place_part L p = (\<lambda>(ss, im). (ss @ copied p, load_part (ly_img L) (ly_lo L) p im))"

definition parts_left ::
  "host \<Rightarrow> mach_header_64 \<Rightarrow> lcmd list \<Rightarrow> layout \<Rightarrow> segment_command_64 list \<times> image \<Rightarrow> part list \<Rightarrow> bool" where
  "parts_left h hdr cs L = (\<lambda>(ss, im) ps.
     layout_ok h hdr cs L \<and> set (map part_lcmd ps) \<subseteq> set cs \<and> (\<forall>p\<in>set ps. part_ok (ly_bytes L) p) \<and>
     segs_ok L (ss @ concat (map copied ps)) \<and> fixups_laid L ss im ps \<and> segs_placed L ss)"

lemma place_parts:
  "fold (place_part L) ps (ss, im) = (ss @ concat (map copied ps), fold (load_part (ly_img L) (ly_lo L)) ps im)"
  by (induction ps arbitrary: ss im) (simp_all add: place_part_def)

lemma walk_part_64:
  assumes "loaded h L ss im c" and left: "parts_left h hdr cs L (ss, im) (p # ps)"
    and here: "holds (ly_mem L) (ptr c) (enc_lcmd (part_lcmd p))"
    and room: "length (im_binds (load_part (ly_img L) (ly_lo L) p im)) \<le> INT_MAX"
      "length (im_libs (load_part (ly_img L) (ly_lo L) p im)) \<le> INT_MAX"
  shows "\<exists>c'. walk_lcmd h (part_lcmd p) c = Ok c' \<and>
    loaded h L (ss @ copied p) (load_part (ly_img L) (ly_lo L) p im) c'"
proof -
  have L: "layout_ok h hdr cs L" and x: "part_lcmd p \<in> set cs" and sep: "segs_ok L (ss @ copied p)"
    using left segs_ok_append [of L "ss @ copied p" "concat (map copied ps)"] by (simp_all add: parts_left_def)
  have wf: "wf_lcmd (part_lcmd p)" using x L by (simp add: layout_ok_def file_at_def)
  show ?thesis
    using run_part [OF L assms(1) x wf _ _ sep _ here room] left
    by (auto simp: parts_left_def walk_lcmd_def advance_def)
qed

lemma parts_left_rest: "parts_left h hdr cs L s (p # ps) \<Longrightarrow> parts_left h hdr cs L (place_part L p s) ps"
  using copied_placed [of h hdr cs L p]
  by (cases s) (auto simp: parts_left_def place_part_def segs_placed_append)

interpretation parts64: part_walk enc_lcmd "walk_lcmd h" part_lcmd "place_part L" snd "ly_mem L"
  "\<lambda>(ss, im). loaded h L ss im" "parts_left h hdr cs L"
proof unfold_locales
  show "length (im_binds (snd s)) \<le> length (im_binds (snd (place_part L p s))) \<and>
      length (im_libs (snd s)) \<le> length (im_libs (snd (place_part L p s)))" for s L p
    using load_part_grows by (simp add: place_part_def split: prod.split)
  show "parts_left h hdr cs L s (p # ps) \<Longrightarrow> parts_left h hdr cs L (place_part L p s) ps" for h hdr cs L s p ps
    by (rule parts_left_rest)
  show "ptr c' = ptr c + of_nat (length (enc_lcmd x))" if "walk_lcmd h x c = Ok c'" for h x c c'
    using that run_lcmd_ptr by (auto simp: walk_lcmd_def advance_def res_bind_eq_Ok)
qed (auto simp: place_part_def intro: walk_part_64)

lemmas load_parts_grow = parts64.loads_grow [of "(ss, im)" L ps for ss im L ps, simplified place_parts snd_conv]

lemma parts_run:
  assumes "loaded h L [] im c" and "parts_left h hdr cs L ([], im) ps"
    and "holds (ly_mem L) (ptr c) (concat (map enc_lcmd (map part_lcmd ps)))"
    and "length (im_binds (fold (load_part (ly_img L) (ly_lo L)) ps im)) \<le> INT_MAX"
    and "length (im_libs (fold (load_part (ly_img L) (ly_lo L)) ps im)) \<le> INT_MAX"
  shows "\<exists>c'. res_fold (walk_lcmd h) (map part_lcmd ps) c = Ok c' \<and>
    loaded h L (concat (map copied ps)) (fold (load_part (ly_img L) (ly_lo L)) ps im) c'"
  using parts64.walk_parts [of h L "([], im)" c hdr cs ps] assms by (simp add: place_parts)

end
