(* ===== verification/Mal_Program.thy ===== *)
theory Mal_Program
  imports Mal_Parts
begin

unbundle bit_operations_syntax

text \<open>
  From a file to the running program, over the parts of \<open>Mal_Parts\<close>.

  \<^item> \<open>program_ok\<close>: a file, its description and the host fit together.
  \<^item> \<open>program_loaded\<close>: the walk never overwrites the command list, so \<open>loader_64\<close> is the walk
    over the parts, fixups included.
  \<^item> \<open>main_program\<close>: \<open>main\<close> reaches the entry point; imports hold their last offer or their old
    value, applied fixups their values, and all other bytes are those of \<open>image_memory\<close>
    (\<open>program_started\<close>).
\<close>

section \<open>The whole program\<close>

text \<open>The pointers to bind are inside the image and overlap neither each other nor the fixups.\<close>

abbreviation imports_ok :: "layout \<Rightarrow> bind_entry list \<Rightarrow> bool" where
  "imports_ok L \<equiv> imports_within (ly_img L) (ly_size L)"

definition imports_clear :: "layout \<Rightarrow> image \<Rightarrow> bool" where
  "imports_clear L im \<longleftrightarrow>
     (\<forall>(s, p) \<in> set (im_binds im). \<forall>e \<in> set (im_fixups im). ly_img L < p \<longrightarrow> apart p 8 (fst e) 8)"

text \<open>A file, its description and the host fit together.\<close>

definition program_ok ::
  "host \<Rightarrow> cstr list \<Rightarrow> mach_header_64 \<Rightarrow> part list \<Rightarrow> layout \<Rightarrow> image \<Rightarrow> bool" where
  "program_ok h args hdr ps L im \<longleftrightarrow>
     2 \<le> length args \<and> host_open h (args ! 1) = Some (ly_bytes L) \<and>
     host_map_file h (ly_bytes L) = Some (ly_file L) \<and> map_file_ok h (ly_bytes L) \<and>
     map_file Map.empty (ly_file L) (page_filled (ly_bytes L)) = ly_mem L \<and>
     executable_file (ly_bytes L) hdr (map part_lcmd ps) \<and>
     layout_ok h hdr (map part_lcmd ps) L \<and>
     (\<forall>p\<in>set ps. part_ok (ly_bytes L) p) \<and> segs_ok L (concat (map copied ps)) \<and>
     load_image (ly_img L) (ly_lo L) ps = im \<and>
     im_addr im \<noteq> 0 \<and> im_entry im \<noteq> 0 \<and>
     length (im_binds im) \<le> INT_MAX \<and> length (im_libs im) + 2 \<le> INT_MAX \<and>
     imports_ok L (im_binds im) \<and> imports_clear L im \<and> fixups_laid L [] empty_image ps"

lemma represents_start: "represents (ly_mem L) empty_image ((opened_context args a bs)\<lparr>ptr := q\<rparr>)"
  using zero_context_ok [of "map_file Map.empty a (page_filled bs)"]
  by (simp add: represents_def empty_image_def opened_context_def zero_context_def ctx_ok_def)

lemma loaded_stands:
  "layout_ok h hdr cs L \<Longrightarrow> loaded h L ss im c \<Longrightarrow> im_addr im \<noteq> 0 \<Longrightarrow>
   stands (ly_mem L) (ly_img L) (ly_size L) im c"
  using layout_image(3) by (simp add: stands_def loaded_def)

text \<open>The report that \<open>main\<close> prints about binds nothing could resolve.\<close>

definition unresolved_report :: "host \<Rightarrow> image \<Rightarrow> diagnostic list" where
  "unresolved_report h im =
     (if unresolved_fixups h im = 0 then [] else [Unresolved_Binds (unresolved_fixups h im)])"

text \<open>The bytes that neither a fixup nor a bind replaces.\<close>

definition untouched :: "layout \<Rightarrow> image \<Rightarrow> addr \<Rightarrow> bool" where
  "untouched L im a \<longleftrightarrow> unfixed im a \<and> (\<forall>e\<in>set (im_binds im). ly_img L < snd e \<longrightarrow> a \<notin> region (snd e) 8)"

definition program_started :: "host \<Rightarrow> layout \<Rightarrow> segment_command_64 list \<Rightarrow> image \<Rightarrow> mach_context \<Rightarrow> bool" where
  "program_started h L ss im c \<longleftrightarrow>
     entry_point c = im_entry im \<and> img_addr c = ly_img L \<and>
     (\<forall>k < length (im_binds im). ly_img L < snd (im_binds im ! k) \<longrightarrow>
        (\<exists>v. load64 (image_memory L ss) (snd (im_binds im ! k)) = Ok v \<and>
             load64 (mem c) (snd (im_binds im ! k)) = Ok (import_value h im k v))) \<and>
     fixups_hold h im (mem c) \<and>
     (\<forall>(l, raw) \<in> set (im_skipped im). region l 8 \<subseteq> Collect (untouched L im) \<longrightarrow> load64 (mem c) l = Ok raw) \<and>
     (\<forall>a. untouched L im a \<longrightarrow> mem c a = image_memory L ss a) \<and>
     (\<forall>s\<in>set ss. \<forall>i < unat (filesize s). untouched L im (seg_dest L s + of_nat i) \<longrightarrow>
        mem c (seg_dest L s + of_nat i) = Some (ly_bytes L ! (unat (fileoff s) + i)))"

lemma imports_untouched:
  assumes "imports_clear L im" and "b \<in> set (im_binds im)" and "ly_img L < snd b"
    and "e \<in> set (im_fixups im)"
  shows "region (snd b) 8 \<inter> region (fst e) 8 = {}"
  using assms unfolding imports_clear_def by (cases b) (auto intro!: apart_disjoint)

lemma program_bound:
  assumes ok: "program_ok h args hdr ps L im" and c: "loaded h L (concat (map copied ps)) im c"
  shows "\<exists>c'. do_bind h c = Ok (0, c') \<and> program_started h L (concat (map copied ps)) im c'"
proof -
  let ?ss = "concat (map copied ps)" and ?m = "image_memory L (concat (map copied ps))"
  have L: "layout_ok h hdr (map part_lcmd ps) L" and im: "im_addr im \<noteq> 0" and imp: "imports_ok L (im_binds im)"
    and room: "length (im_libs im) + 2 \<le> INT_MAX" and clear: "imports_clear L im"
    using ok by (simp_all add: program_ok_def)
  then have alloc: "alloc_ok h" by (simp add: layout_ok_def)
  have before: "mem c a = ?m a" if "unfixed im a" for a using c im that by (simp add: loaded_def)
  obtain c' where c': "do_bind h c = Ok (0, c')" "entry_point c' = im_entry im" "img_addr c' = ly_img L"
    and bound: "\<forall>k < length (im_binds im). ly_img L < snd (im_binds im ! k) \<longrightarrow>
         (\<exists>v. load64 (mem c) (snd (im_binds im ! k)) = Ok v \<and>
              load64 (mem c') (snd (im_binds im ! k)) = Ok (import_value h im k v))"
    and same: "\<forall>x. (\<forall>e\<in>set (im_binds im). ly_img L < snd e \<longrightarrow> x \<notin> region (snd e) 8) \<longrightarrow> mem c' x = mem c x"
    using image_bound [OF loaded_stands [OF L c im] imp alloc room] by blast
  have "\<exists>v. load64 ?m (snd (im_binds im ! k)) = Ok v \<and> load64 (mem c') (snd (im_binds im ! k)) = Ok (import_value h im k v)"
    if k: "k < length (im_binds im)" "ly_img L < snd (im_binds im ! k)" for k
  proof -
    obtain v where v: "load64 (mem c) (snd (im_binds im ! k)) = Ok v"
      "load64 (mem c') (snd (im_binds im ! k)) = Ok (import_value h im k v)" using bound k by blast
    have "unfixed im a" if "a \<in> region (snd (im_binds im ! k)) 8" for a
      using imports_untouched [OF clear nth_mem [OF k(1)] k(2)] that unfolding unfixed_def by blast
    then have "load64 ?m (snd (im_binds im ! k)) = Ok v"
      using before by (intro c64.dec_unchanged [OF v(1)]) simp
    then show ?thesis using v(2) by blast
  qed
  moreover have after: "mem c' a = ?m a" if "untouched L im a" for a
    using that same before by (simp add: untouched_def)
  moreover have "load64 (mem c') l = Ok raw"
    if e: "(l, raw) \<in> set (im_skipped im)" and u: "region l 8 \<subseteq> Collect (untouched L im)" for l raw
  proof -
    have "load64 ?m l = Ok raw" using c e by (auto simp: loaded_def skipped_raw_def)
    then show ?thesis by (rule c64.dec_unchanged) (use u after in auto)
  qed
  moreover have "mem c' (seg_dest L s + of_nat i) = Some (ly_bytes L ! (unat (fileoff s) + i))"
    if s: "s \<in> set ?ss" and i: "i < unat (filesize s)" and u: "untouched L im (seg_dest L s + of_nat i)" for s i
  proof -
    have len: "length (seg_bytes L s) = unat (filesize s)"
      using ok s by (auto simp: program_ok_def segs_ok_def list_all_iff)
    have "mem c (seg_dest L s + of_nat i) = Some (seg_bytes L s ! i)"
      using c s i u unfolding loaded_def untouched_def by blast
    moreover have "seg_bytes L s ! i = ly_bytes L ! (unat (fileoff s) + i)"
      using i len by (simp add: seg_bytes_def)
    ultimately show ?thesis using same u by (simp add: untouched_def)
  qed
  moreover have "fixups_hold h im (mem c')"
    unfolding fixups_hold_def
  proof (intro ballI, clarify)
    fix l raw n assume e: "(l, raw, n) \<in> set (im_fixups im)"
    then have v: "load64 (mem c) l = Ok (fix_value (host_resolver h) (im_addr im) n raw)"
      using c by (auto simp: loaded_def fixups_hold_def)
    have "mem c' x = mem c x" if x: "x \<in> region l 8" for x
      using imports_untouched [OF clear _ _ e] x same by fastforce
    then show "load64 (mem c') l = Ok (fix_value (host_resolver h) (im_addr im) n raw)"
      by (intro c64.dec_unchanged [OF v]) simp
  qed
  ultimately show ?thesis using c' unfolding program_started_def by blast
qed

lemma program_walk:
  assumes ok: "program_ok h args hdr (ps @ qs) L im"
  shows "\<exists>c. res_fold (walk_lcmd h) (map part_lcmd ps)
      ((opened_context args (ly_file L) (ly_bytes L))\<lparr>ptr := ly_file L + 32\<rparr>) = Ok c \<and>
    loaded h L (concat (map copied ps)) (load_image (ly_img L) (ly_lo L) ps) c"
proof -
  let ?c = "(opened_context args (ly_file L) (ly_bytes L))\<lparr>ptr := ly_file L + 32\<rparr>"
  let ?cs = "map part_lcmd (ps @ qs)" and ?im = "load_image (ly_img L) (ly_lo L) ps"
  have L: "layout_ok h hdr ?cs L" and m0: "map_file Map.empty (ly_file L) (page_filled (ly_bytes L)) = ly_mem L"
    and im: "fold (load_part (ly_img L) (ly_lo L)) qs ?im = im"
    using ok by (simp_all add: program_ok_def load_image_def)
  have f: "memblock ?c = ly_file L" "mem ?c = ly_mem L" "chained_unresolved_bind_count ?c = 0"
    by (simp_all add: opened_context_def zero_context_def m0)
  have "resolver h ?c = host_resolver h"
    unfolding host_resolver_def by (rule resolver_cong) (simp_all add: opened_context_def zero_context_def)
  then have start: "loaded h L [] empty_image ?c"
    using f represents_start
    by (simp add: loaded_def) (simp add: empty_image_def fixups_hold_def unresolved_fixups_def skipped_raw_def)
  have "holds (ly_mem L) (ptr ?c) (concat (map enc_lcmd ?cs))"
    using L file_at_commands [of "ly_mem L" "ly_file L" hdr ?cs] by (simp add: layout_ok_def)
  then have "holds (ly_mem L) (ptr ?c) (concat (map enc_lcmd (map part_lcmd ps)))" by (simp add: holds_append)
  moreover have "length (im_binds ?im) \<le> INT_MAX" "length (im_libs ?im) \<le> INT_MAX"
    using load_parts_grow [of ?im L qs] ok im by (auto simp: program_ok_def)
  moreover have "fixups_laid L [] empty_image ps" "segs_placed L []" "segs_ok L (concat (map copied ps))"
    using ok by (auto simp: program_ok_def segs_placed_def copied_region_def dest: fixups_laid_append segs_ok_append)
  ultimately show ?thesis
    using parts_run [OF start, of hdr ?cs ps] L ok by (auto simp: program_ok_def load_image_def parts_left_def)
qed

text \<open>The commands stay in memory as they were, so the loader is the walk over them.\<close>

lemma program_loaded:
  assumes ok: "program_ok h args hdr ps L im"
  shows "loader_64 h (opened_context args (ly_file L) (ly_bytes L)) =
    res_bind (res_fold (walk_lcmd h) (map part_lcmd ps)
      ((opened_context args (ly_file L) (ly_bytes L))\<lparr>ptr := ly_file L + 32\<rparr>)) (\<lambda>c'. Ok (0, c'))"
proof -
  let ?c = "opened_context args (ly_file L) (ly_bytes L)" and ?cs = "map part_lcmd ps"
  have L: "layout_ok h hdr ?cs L" and m0: "map_file Map.empty (ly_file L) (page_filled (ly_bytes L)) = ly_mem L"
    and exe: "executable_file (ly_bytes L) hdr ?cs"
    using ok by (simp_all add: program_ok_def)
  have f: "memblock ?c = ly_file L" "mem ?c = ly_mem L" by (simp_all add: opened_context_def zero_context_def m0)
  have a: "ly_file L \<noteq> 0" "unat (ly_file L) + length (page_filled (ly_bytes L)) \<le> 2 ^ 64"
    using ok by (auto simp: program_ok_def map_file_ok_def)
  note at = executable_file_at [OF exe a, of args]
  have obj: "file_at (ly_mem L) (ly_file L) hdr ?cs" using L by (simp add: layout_ok_def)
  then have wf: "\<forall>x\<in>set ?cs. wf_lcmd x" by (simp add: file_at_def)
  have "commands_at (mem t) (ly_file L + 32) ?cs"
    if run: "res_fold (walk_lcmd h) (take n ?cs) (?c\<lparr>ptr := ly_file L + 32\<rparr>) = Ok t" for n t
  proof -
    have "program_ok h args hdr (take n ps @ drop n ps) L im" using ok by simp
    then obtain ss im' where "loaded h L ss im' t"
      using program_walk run by (fastforce simp: take_map)
    then show ?thesis using loaded_holds [OF _ file_at_commands [OF obj]] wf by (simp add: listed_def)
  qed
  then show ?thesis
    using loader_64_kept [of ?c hdr ?cs h] at(1,2) exe by (simp add: f executable_file_def)
qed

lemma main_program:
  assumes ok: "program_ok h args hdr ps L im"
  shows "\<exists>c. main h args = Ok (Entered (unresolved_report h im) c) \<and>
    program_started h L (concat (map copied ps)) im c \<and> bit_width c = 64"
proof -
  let ?c = "(opened_context args (ly_file L) (ly_bytes L))\<lparr>ptr := ly_file L + 32\<rparr>"
  let ?cs = "map part_lcmd ps"
  have L: "layout_ok h hdr ?cs L" and im: "load_image (ly_img L) (ly_lo L) ps = im" and im0: "im_addr im \<noteq> 0"
    and entry: "im_entry im \<noteq> 0" and exe: "executable_file (ly_bytes L) hdr ?cs"
    using ok by (simp_all add: program_ok_def)
  obtain c1 where c1: "res_fold (walk_lcmd h) ?cs ?c = Ok c1" "loaded h L (concat (map copied ps)) im c1"
    using program_walk [of h args hdr ps "[]" L im] ok im by auto
  obtain c2 where c2: "do_bind h c1 = Ok (0, c2)" "program_started h L (concat (map copied ps)) im c2"
    using program_bound [OF ok c1(2)] by blast
  have rep: "represents (ly_mem L) im c1" and "im_base im = ly_lo L" "im_addr im = ly_img L"
    and un: "chained_unresolved_bind_count c1 = unresolved_fixups h im"
    using c1(2) im0 by (simp_all add: loaded_def)
  then have "loader_diagnostics 0 c1 = unresolved_report h im"
    using layout_image(1,4) [OF L] entry un
    by (simp add: loader_diagnostics_def represents_def unresolved_report_def)
  then have "main h args = Ok (Entered (unresolved_report h im) c2)"
    using main_run_loaded [OF _ _ _ _ exe program_loaded [OF ok]] ok c1(1) c2 entry
    by (simp add: program_ok_def program_started_def)
  moreover have "loader_64 h (opened_context args (ly_file L) (ly_bytes L)) = Ok (0, c1)"
    using program_loaded [OF ok] c1(1) by simp
  then have "bit_width c2 = 64"
    using loader_64_extends do_bind_frame [OF c2(1)] by (fastforce simp: extends_def opened_context_def)
  ultimately show ?thesis using c2(2) by blast
qed

section \<open>Example\<close>

text \<open>
  A complete executable: two segments, the second with a chain of two fixups (a rebase and a bind
  of \<open>_puts\<close>), binds of \<open>_gone\<close>, which nobody offers, and of \<open>_puts\<close> at offsets 8 and 16 of the
  first, the symbol \<open>_main\<close> and a library that the host does not have.
\<close>

definition hello_data :: segment_command_64 where
  "hello_data =
     \<lparr>cmd = LC_SEGMENT_64, cmdsize = 72, segname = lit ''__DATA'' @ replicate 10 0,
      vmaddr = 0x100004000, vmsize = 0x4000, fileoff = 337, filesize = 16, maxprot = 3,
      initprot = 3, nsects = 0, sc_flags = 0\<rparr>"

definition hello_words :: "byte list" where
  "hello_words = word_bytes 8 LINK @ word_bytes 8 PUTS"

definition hello_fixups :: linkedit_data_command where
  "hello_fixups = \<lparr>cmd = LC_DYLD_CHAINED_FIXUPS, cmdsize = 16, dataoff = 353, datasize = 74\<rparr>"

definition hello_blob :: blob where
  "hello_blob = sample_blob 0x1161 0x4000 0x200004000"

definition hello_binds :: dyld_info_command where
  "hello_binds = \<lparr>cmd = LC_DYLD_INFO_ONLY, cmdsize = 48, rebase_off = 0, rebase_size = 0,
     bind_off = 296, bind_size = 19, weak_bind_off = 0, weak_bind_size = 0,
     lazy_bind_off = 0, lazy_bind_size = 0, export_off = 0, export_size = 0\<rparr>"

definition hello_ops :: "bind_op list" where
  "hello_ops = [Op_Segment_Offset 0 8, Op_Symbol 0 (lit ''_gone''), Op_Do_Bind,
     Op_Symbol 0 (lit ''_puts''), Op_Do_Bind, Op_Done]"

definition hello_symtab :: symtab_command where
  "hello_symtab = \<lparr>cmd = LC_SYMTAB, cmdsize = 24, symoff = 315, nsyms = 1, stroff = 331, strsize = 6\<rparr>"

definition hello_dylib :: dylib_command where
  "hello_dylib = \<lparr>cmd = LC_LOAD_DYLIB, cmdsize = 32, dylib_name_offset = 24, timestamp = 0,
     current_version = 0, compatibility_version = 0\<rparr>"

definition hello_parts :: "part list" where
  "hello_parts =
     [P_Segment example_segment [], P_Segment hello_data [],
      P_Fixups hello_fixups hello_blob sample_imports, P_Binds hello_binds hello_ops [],
      P_Symbols hello_symtab [(example_main, lit ''_main'')],
      P_Library hello_dylib (lit ''libz.so'' @ [0]) (lit ''libz.so'')]"

definition hello_header :: mach_header_64 where
  "hello_header = example_header\<lparr>ncmds := 6, sizeofcmds := 264\<rparr>"

definition hello_commands :: "byte list" where
  "hello_commands = enc_mach_header_64 hello_header @ concat (map enc_lcmd (map part_lcmd hello_parts))"

definition hello_file :: "byte list" where
  "hello_file = hello_commands @ ops_bytes hello_ops @ enc_nlist_64 example_main @
     (lit ''_main'' @ [0]) @ hello_words @ sample_bytes 0x4000 @ replicate 72 0"

definition hello_host :: host where
  "hello_host = example_host\<lparr>host_open := (\<lambda>_. Some hello_file)\<rparr>"

definition hello_layout :: layout where
  "hello_layout =
     \<lparr>ly_file = 0x1000, ly_bytes = hello_file, ly_mem = map_file Map.empty 0x1000 (page_filled hello_file),
      ly_img = 0x200000000, ly_lo = 0x100000000, ly_size = 0x8000\<rparr>"

definition hello_image :: image where
  "hello_image =
     \<lparr>im_addr = 0x200000000, im_base = 0x100000000,
      im_segments = [\<lparr>seg_name = segname example_segment, seg_vmaddr = 0x100000000,
        seg_vmsize = 0x4000, mapped_addr = 0x200000000\<rparr>,
        \<lparr>seg_name = segname hello_data, seg_vmaddr = 0x100004000,
        seg_vmsize = 0x4000, mapped_addr = 0x200004000\<rparr>],
      im_binds = [(Some (lit ''_gone''), 0x200000008), (Some (lit ''_puts''), 0x200000010)],
      im_fixups = [(0x200004000, LINK, None), (0x200004008, PUTS, Some (lit ''_puts''))], im_skipped = [], im_libs = [lit ''libz.so''],
      im_entry = 0x200000F00\<rparr>"

lemma bytes_at_middle: "length xs = off \<Longrightarrow> bytes_at (xs @ ys @ zs) off ys"
  by (simp add: bytes_at_def)

lemma hello_wf: "list_all wf_lcmd (map part_lcmd hello_parts)"
  using example_wf
  by (simp add: hello_parts_def hello_binds_def hello_symtab_def hello_dylib_def hello_fixups_def)
    (simp add: hello_data_def wf_segment_command_64_def lit_def)

lemma hello_lengths:
  "length hello_commands = 296" "length (ops_bytes hello_ops) = 19" "length hello_words = 16"
  "length hello_file = 499"
proof -
  show c: "length hello_commands = 296"
    using hello_wf
    by (simp add: hello_commands_def mh64.width hello_parts_def length_enc_lcmd del: enc_lcmd.simps wf_lcmd.simps)
      (simp add: lit_def)
  show o: "length (ops_bytes hello_ops) = 19"
    by (simp add: ops_bytes_def hello_ops_def op_byte_def macho_consts lit_def uleb_encode.simps)
  show w: "length hello_words = 16" by (simp add: hello_words_def)
  show "length hello_file = 499"
    using c o w by (simp add: hello_file_def nl64.width length_sample) (simp add: lit_def)
qed

lemma hello_page: "length (page_filled hello_file) = 4096"
  by (simp add: page_filled_def hello_lengths)

text \<open>Where the pieces are in the file.\<close>

lemma hello_pieces:
  "bytes_at hello_file 296 (ops_bytes hello_ops)" "bytes_at hello_file 315 (enc_nlist_64 example_main)"
  "bytes_at hello_file 331 (lit ''_main'' @ [0])" "bytes_at hello_file 337 hello_words"
  "bytes_at hello_file 353 (sample_bytes 0x4000)"
proof -
  let ?n = "enc_nlist_64 example_main" and ?s = "lit ''_main'' @ [0]" and ?z = "replicate 72 (0 :: byte)"
  have len: "length ?s = 6" by (simp add: lit_def)
  note at = hello_lengths nl64.width len
  have "bytes_at (hello_commands @ ops_bytes hello_ops @ ?n @ ?s @ hello_words @ sample_bytes 0x4000 @ ?z) 296
      (ops_bytes hello_ops)"
    by (rule bytes_at_middle) (simp add: at)
  moreover have "bytes_at ((hello_commands @ ops_bytes hello_ops) @ ?n @ ?s @ hello_words @ sample_bytes 0x4000 @ ?z) 315 ?n"
    by (rule bytes_at_middle) (simp add: at)
  moreover have "bytes_at ((hello_commands @ ops_bytes hello_ops @ ?n) @ ?s @ hello_words @ sample_bytes 0x4000 @ ?z) 331 ?s"
    by (rule bytes_at_middle) (simp add: at)
  moreover have "bytes_at ((hello_commands @ ops_bytes hello_ops @ ?n @ ?s) @ hello_words @ sample_bytes 0x4000 @ ?z) 337
      hello_words"
    by (rule bytes_at_middle) (simp add: hello_lengths nl64.width, simp add: lit_def)
  moreover have "bytes_at ((hello_commands @ ops_bytes hello_ops @ ?n @ ?s @ hello_words) @ sample_bytes 0x4000 @ ?z) 353
      (sample_bytes 0x4000)"
    by (rule bytes_at_middle) (simp add: hello_lengths nl64.width, simp add: lit_def)
  ultimately show "bytes_at hello_file 296 (ops_bytes hello_ops)" "bytes_at hello_file 315 ?n"
    "bytes_at hello_file 331 ?s" "bytes_at hello_file 337 hello_words" "bytes_at hello_file 353 (sample_bytes 0x4000)"
    unfolding hello_file_def by (simp_all only: append_assoc)
qed

lemma hello_parts_ok: "\<forall>p\<in>set hello_parts. part_ok hello_file p"
proof -
  have "bytes_at (enc_dylib_command hello_dylib @ (lit ''libz.so'' @ [0]) @ []) 24 (lit ''libz.so'' @ [0])"
    by (rule bytes_at_middle) (simp add: dylib.width)
  then have "part_ok hello_file (P_Library hello_dylib (lit ''libz.so'' @ [0]) (lit ''libz.so''))"
    by (simp add: library_in_def hello_dylib_def) (simp add: lit_def)
  moreover have "part_ok hello_file (P_Segment example_segment [])" "part_ok hello_file (P_Segment hello_data [])"
    by (simp_all add: hello_lengths) (simp_all add: example_segment_def hello_data_def)
  moreover have "part_ok hello_file (P_Fixups hello_fixups hello_blob sample_imports)"
    by (simp add: hello_fixups_def hello_lengths)
  moreover have "part_ok hello_file (P_Binds hello_binds hello_ops [])"
    using hello_pieces(1) hello_lengths(2) by (simp add: binds_in_def hello_binds_def)
      (simp add: hello_ops_def lit_def ops_bytes_def bytes_at_def)
  moreover have "part_ok hello_file (P_Symbols hello_symtab [(example_main, lit ''_main'')])"
    using hello_pieces(2,3) by (simp add: symbols_in_def hello_symtab_def example_main_def INT_MAX_def) (simp add: lit_def)
  ultimately show ?thesis by (simp add: hello_parts_def)
qed

lemma hello_values:
  "vmaddr example_segment = 0x100000000" "vmsize example_segment = 0x4000"
  "vmaddr hello_data = 0x100004000" "vmsize hello_data = 0x4000" "n_value example_main = 0x100000F00"
  "filesize example_segment = 16" "filesize hello_data = 16" "fileoff example_segment = 0" "fileoff hello_data = 337"
  by (simp_all add: example_segment_def example_main_def hello_data_def)

lemma hello_names:
  "\<not> name_is (segname example_segment) SEG_PAGEZERO" "name_is (segname example_segment) SEG_TEXT"
  "\<not> name_is (segname hello_data) SEG_PAGEZERO" "\<not> name_is (segname hello_data) SEG_TEXT"
  by (simp_all add: example_segment_def hello_data_def name_is_def SEG_PAGEZERO_def SEG_TEXT_def lit_def)

text \<open>The image after the two segments, after the fixups, and in the end.\<close>

definition hello_mapped :: image where
  "hello_mapped = hello_image\<lparr>im_binds := [], im_fixups := [], im_libs := [], im_entry := 0\<rparr>"

lemma hello_segments_loaded:
  "load_part 0x200000000 0x100000000 (P_Segment hello_data [])
     (load_part 0x200000000 0x100000000 (P_Segment example_segment []) empty_image) = hello_mapped"
  by (simp add: empty_image_def hello_mapped_def hello_image_def add_segment_def placed_at_def hello_names hello_values
      MACH_LOADER_MAX_SEGMENTS_def)

lemma hello_applied:
  "blob_applied (im_segments hello_mapped) hello_blob = [(0x200004000, LINK), (0x200004008, PUTS)]"
  "blob_skipped (im_segments hello_mapped) hello_blob = []"
proof -
  have segs: "length (im_segments hello_mapped) = 2" "mapped_addr (im_segments hello_mapped ! 1) \<noteq> 0"
    by (simp_all add: hello_mapped_def hello_image_def)
  show "blob_applied (im_segments hello_mapped) hello_blob = [(0x200004000, LINK), (0x200004008, PUTS)]"
    "blob_skipped (im_segments hello_mapped) hello_blob = []"
    using sample_entries [OF segs, of "0x1161" "0x4000" "0x200004000"]
    by (simp_all add: hello_blob_def blob_skipped_def sample_chain_def)
qed

lemma hello_fixups_loaded:
  "load_part 0x200000000 0x100000000 (P_Fixups hello_fixups hello_blob sample_imports) hello_mapped =
     hello_mapped\<lparr>im_fixups := im_fixups hello_image\<rparr>"
  by (simp add: hello_applied sample_import)
    (simp add: hello_mapped_def hello_image_def import_for_def LINK_fields)

lemma hello_image: "load_image 0x200000000 0x100000000 hello_parts = hello_image"
  unfolding load_image_def hello_parts_def fold_simps o_apply hello_segments_loaded hello_fixups_loaded
  by (simp add: image_step_defs hello_mapped_def hello_image_def hello_values hello_ops_def init_regs_def emitted_run_def
      segment_place_def MAIN_SYMBOL_def)

lemma hello_mmap_ok: "mmap_ok hello_host (ly_mem hello_layout)"
  by (rule example_host_mmap_ok)
    (simp_all add: hello_host_def map_file_def hello_layout_def hello_page)

lemma hello_segments: "image_segments (map part_lcmd hello_parts) = [example_segment, hello_data]"
  by (simp add: image_segments_def hello_parts_def mappable_def hello_names hello_values)

lemma hello_extent: "extent (map part_lcmd hello_parts) = (0x100000000, 0x100008000)"
  by (simp add: extent_def hello_parts_def mappable_def hello_names hello_values)

lemma hello_executable: "executable_file hello_file hello_header (map part_lcmd hello_parts)"
  unfolding executable_file_def
proof (intro conjI exI)
  show "hello_file = enc_mach_header_64 hello_header @ concat (map enc_lcmd (map part_lcmd hello_parts)) @
      ops_bytes hello_ops @ enc_nlist_64 example_main @ (lit ''_main'' @ [0]) @ hello_words @
      sample_bytes 0x4000 @ replicate 72 0"
    by (simp add: hello_file_def hello_commands_def)
  show "\<forall>x\<in>set (map part_lcmd hello_parts). wf_lcmd x" using hello_wf by (simp only: list_all_iff)
qed (simp_all add: hello_header_def example_header_def hello_parts_def INT_MAX_def)

lemma hello_layout_ok: "layout_ok hello_host hello_header (map part_lcmd hello_parts) hello_layout"
proof -
  let ?cs = "map part_lcmd hello_parts"
  have "holds (ly_mem hello_layout) 0x1000 (page_filled hello_file)"
    unfolding hello_layout_def by simp (rule map_file_holds; simp add: hello_page)
  then have bytes: "holds (ly_mem hello_layout) 0x1000 hello_file" by (simp add: page_filled_def holds_append)
  have "holds (ly_mem hello_layout) 0x1000 hello_commands"
    using bytes by (simp add: hello_file_def holds_append)
  then have "file_at (ly_mem hello_layout) 0x1000 hello_header ?cs"
    using hello_executable by (simp add: file_at_def hello_commands_def executable_file_def)
  moreover have "segments_fit ?cs"
    by (simp only: segments_fit_def hello_extent hello_segments) (simp add: hello_values)
  moreover have "sized_segments ?cs"
    by (auto simp: sized_segments_def hello_parts_def hello_values)
  moreover have size: "image_size (extent ?cs) = 0x8000"
    by (simp add: hello_extent image_size_def alignMemory_def)
  moreover have "host_mmap hello_host (ly_mem hello_layout) 0x100000000 0x8000 = Some 0x200000000"
    by (simp add: hello_host_def example_host_def)
  moreover have "alloc_ok hello_host" by (simp add: alloc_ok_def hello_host_def example_host_def)
  ultimately show ?thesis
    using bytes hello_mmap_ok
    unfolding layout_ok_def size hello_extent
    by (simp add: hello_layout_def hello_lengths extent_ok_def)
qed

lemma hello_copied: "concat (map copied hello_parts) = [example_segment, hello_data]"
  by (simp add: hello_parts_def copied_def loadable_def hello_names hello_values)

lemma hello_layout_fields:
  "ly_file hello_layout = 0x1000" "ly_bytes hello_layout = hello_file"
  "ly_img hello_layout = 0x200000000" "ly_lo hello_layout = 0x100000000"
  by (simp_all add: hello_layout_def)

lemma hello_chains:
  "blob_chains (copied_memory hello_layout [example_segment, hello_data]) 0x200000000
     (im_segments hello_mapped) hello_blob"
proof -
  have bytes: "seg_bytes hello_layout hello_data = hello_words"
    using hello_pieces(4) hello_lengths(3) by (simp add: seg_bytes_def hello_layout_fields hello_values bytes_at_def)
  have dest: "seg_dest hello_layout hello_data = 0x200004000"
    by (simp add: seg_dest_def hello_layout_fields hello_values)
  have "holds (map_file m 0x200004000 hello_words) 0x200004000 hello_words" for m
    by (rule map_file_holds) (simp_all add: hello_lengths)
  then have "holds (copied_memory hello_layout [example_segment, hello_data]) 0x200004000 hello_words"
    by (simp add: copied_memory_def bytes dest)
  then show ?thesis
    unfolding hello_blob_def hello_words_def
    by (rule sample_chains) (simp_all add: hello_mapped_def hello_image_def)
qed

lemma hello_fixups_ok:
  "fixups_ok hello_layout [example_segment, hello_data] hello_mapped (P_Fixups hello_fixups hello_blob sample_imports)"
proof -
  have "holds (ly_mem hello_layout) 0x1000 hello_file" using hello_layout_ok by (simp add: layout_ok_def hello_layout_fields)
  then have "holds (ly_mem hello_layout) 0x1161 (sample_bytes 0x4000)"
    using bytes_at_holds [OF _ hello_pieces(5)] by fastforce
  then have "blob_at (ly_mem hello_layout) hello_blob" "names_at (ly_mem hello_layout) hello_blob sample_imports"
    by (simp_all add: hello_blob_def sample_blob_at sample_names_at)
  moreover have "bl_base hello_blob = 0x1161" "bl_size hello_blob = 74"
    by (simp_all add: hello_blob_def sample_blob_def chain_blob_def)
  moreover have "im_addr hello_mapped = 0x200000000" "im_fixups hello_mapped = []"
    by (simp_all add: hello_mapped_def hello_image_def)
  ultimately show ?thesis using hello_chains by (simp add: hello_layout_fields hello_fixups_def)
qed

lemma hello_fixups_laid: "fixups_laid hello_layout [] empty_image hello_parts"
proof -
  have "copied (P_Segment example_segment []) = [example_segment]" "copied (P_Segment hello_data []) = [hello_data]"
    by (simp_all add: copied_def loadable_def hello_names hello_values)
  then show ?thesis
    unfolding hello_parts_def fixups_laid.simps hello_layout_fields hello_segments_loaded
    using hello_fixups_ok by simp
qed

lemma hello_program_ok:
  "program_ok hello_host [lit ''maloader'', lit ''hello''] hello_header hello_parts hello_layout hello_image"
proof -
  have ne: "hello_file \<noteq> []" using hello_lengths(4) by auto
  have L: "ly_file hello_layout = 0x1000" "ly_bytes hello_layout = hello_file"
    "ly_mem hello_layout = map_file Map.empty 0x1000 (page_filled hello_file)"
    "ly_img hello_layout = 0x200000000" "ly_lo hello_layout = 0x100000000" "ly_size hello_layout = 0x8000"
    by (simp_all add: hello_layout_def)
  have host: "host_open hello_host f = Some hello_file" "host_map_file hello_host hello_file = Some 0x1000" for f
    using ne by (simp_all add: hello_host_def example_host_def)
  have "map_file_ok hello_host hello_file" by (simp add: map_file_ok_def host hello_page)
  moreover have "segs_ok hello_layout (concat (map copied hello_parts))"
    by (simp add: hello_copied segs_ok_def seg_bytes_def L hello_lengths hello_values clear_of_def seg_dest_def apart_def)
  moreover have "imports_ok hello_layout (im_binds hello_image)"
    by (simp add: imports_within_def hello_image_def L apart_def)
  moreover have "imports_clear hello_layout hello_image"
    by (simp add: imports_clear_def hello_image_def L apart_def)
  moreover have "im_addr hello_image \<noteq> 0" "im_entry hello_image \<noteq> 0"
    "length (im_binds hello_image) \<le> INT_MAX" "length (im_libs hello_image) + 2 \<le> INT_MAX"
    by (simp_all add: hello_image_def INT_MAX_def)
  ultimately show ?thesis
    unfolding program_ok_def using hello_parts_ok hello_layout_ok hello_executable hello_image hello_fixups_laid
    by (simp add: host L)
qed

text \<open>What its fixups end as.\<close>

lemma hello_resolved:
  "unresolved_report hello_host hello_image = []"
  "fix_value (host_resolver hello_host) 0x200000000 None LINK = 0x200000123"
  "fix_value (host_resolver hello_host) 0x200000000 (Some (lit ''_puts'')) PUTS = 0x7100"
proof -
  have "host_resolver hello_host (lit ''_puts'') = 0x7100"
    by (simp add: host_resolver_def resolver_def first_nonzero_def providers_def shim_for_def lookup_in_def libc_of_def
        libm_of_def host_name_def strip_underscore_def lit_def hello_host_def example_host_def zero_context_def)
  then show "unresolved_report hello_host hello_image = []"
    "fix_value (host_resolver hello_host) 0x200000000 None LINK = 0x200000123"
    "fix_value (host_resolver hello_host) 0x200000000 (Some (lit ''_puts'')) PUTS = 0x7100"
    by (simp_all add: unresolved_report_def unresolved_fixups_def hello_image_def fix_unresolved_def fix_value_def
        fix_target_def LINK_fields PUTS_fields)
qed

text \<open>What its binds are offered, and what their slots hold before.\<close>

lemma hello_imports:
  "im_binds hello_image ! 0 = (Some (lit ''_gone''), 0x200000008)"
  "im_binds hello_image ! 1 = (Some (lit ''_puts''), 0x200000010)" "length (im_binds hello_image) = 2"
  "import_value hello_host hello_image 0 v = v" "import_value hello_host hello_image 1 v = 0x7100"
  by (simp_all add: import_value_def bound_value_def hello_image_def import_names_def hello_host_def
        example_host_def take_offer_def offer_def replaced_def strip_underscore_def lit_def)

lemma word_bytes_pos: "0 < n \<Longrightarrow> word_bytes n w = ucast w # word_bytes (n - 1) (drop_bit 8 w)"
  by (cases n) simp_all

lemma hello_memory:
  "image_memory hello_layout [example_segment, hello_data] 0x200000000 = Some 0xCF"
  "image_memory hello_layout [example_segment, hello_data] 0x200001000 = Some 0"
  and hello_old: "load64 (image_memory hello_layout [example_segment, hello_data]) 0x200000008 = Ok 0x200000003"
proof -
  let ?m = "map_anon (ly_mem hello_layout) 0x200000000 0x8000"
  let ?h = "word_bytes 4 MH_MAGIC_64 @ word_bytes 4 (cputype hello_header) @ word_bytes 4 (3 :: u32) @ word_bytes 4 (2 :: u32)"
  have header: "magic hello_header = MH_MAGIC_64" "cpusubtype hello_header = 3" "filetype hello_header = 2"
    by (simp_all add: hello_header_def example_header_def macho_consts)
  have "\<exists>r. hello_file = ?h @ r"
    by (rule exI) (simp only: hello_file_def hello_commands_def enc_mach_header_64_def header append_assoc)
  then obtain r where file_is: "hello_file = ?h @ r" by blast
  have "seg_bytes hello_layout example_segment = take 16 hello_file"
    by (simp add: seg_bytes_def hello_layout_fields hello_values)
  then have one: "seg_bytes hello_layout example_segment = ?h"
    unfolding file_is by (simp add: take_append del: word_bytes.simps)
  have len: "length (seg_bytes hello_layout hello_data) = 16"
    by (simp add: seg_bytes_def hello_layout_fields hello_values hello_lengths)
  have dest: "seg_dest hello_layout example_segment = 0x200000000" "seg_dest hello_layout hello_data = 0x200004000"
    by (simp_all add: seg_dest_def hello_layout_fields hello_values)
  have size: "ly_size hello_layout = 0x8000" by (simp add: hello_layout_def)
  have m: "image_memory hello_layout [example_segment, hello_data] =
      map_file (map_file ?m 0x200000000 ?h) 0x200004000 (seg_bytes hello_layout hello_data)"
    by (simp only: image_memory_def fold_simps o_apply id_apply one dest size hello_layout_fields)
  have "holds (map_file ?m 0x200000000 ?h) 0x200000000 ?h" by (rule map_file_holds) simp_all
  then have h: "holds (image_memory hello_layout [example_segment, hello_data]) 0x200000000 ?h"
    unfolding m by (rule holds_cong) (auto simp: map_file_def region_def len)
  have "word_bytes 4 (3 :: u32) @ word_bytes 4 (2 :: u32) = word_bytes 8 (0x200000003 :: u64)"
    by (simp add: word_bytes_pos)
  then show "load64 (image_memory hello_layout [example_segment, hello_data]) 0x200000008 = Ok 0x200000003"
    using h by (simp add: holds_append load64_iff)
  have "word_bytes 4 MH_MAGIC_64 = 0xCF # word_bytes 3 (drop_bit 8 MH_MAGIC_64)"
    by (simp add: word_bytes_pos [of 4] MH_MAGIC_64_def)
  then show "image_memory hello_layout [example_segment, hello_data] 0x200000000 = Some 0xCF"
    using h by simp
  show "image_memory hello_layout [example_segment, hello_data] 0x200001000 = Some 0"
    unfolding m by (simp add: map_file_def map_anon_def len)
qed

lemma hello_untouched:
  "untouched hello_layout hello_image 0x200000000" "untouched hello_layout hello_image 0x200001000"
  by (simp_all add: untouched_def unfixed_def hello_image_def region_def)

lemma main_outcomes_witness:
  "\<exists>ds c. main hello_host [lit ''maloader'', lit ''hello''] = Ok (Entered ds c) \<and>
    entry_point c \<noteq> 0 \<and> ctx_ok c \<and> argv c = [lit ''hello''] \<and> argc c = 1"
proof -
  obtain ds c where run: "main hello_host [lit ''maloader'', lit ''hello''] = Ok (Entered ds c)"
    using main_program [OF hello_program_ok] by blast
  from main_outcomes [OF this] run show ?thesis by auto
qed

end
