(* ===== verification/Mal_Wellformed.thy ===== *)
theory Mal_Wellformed
  imports Mal_Program
begin

unbundle bit_operations_syntax

text \<open>
  The typing invariant of the 64-bit loader: what every entry of the segment table may be,
  whatever the file holds.

  \<^item> \<open>wf_context\<close>: the tables are within their bounds, and every recorded segment is null or at
    the relocated address of its name and \<open>vmaddr\<close> in the one image of the process.
  \<^item> \<open>table_walk\<close>: a loader whose steps are segment commands or leave the segment table alone
    keeps what its segment loader keeps; interpreted here for \<open>loader_64\<close>.
  \<^item> The invariant holds at the start, every step of \<open>loader_64\<close> keeps it, and so does \<open>do_bind\<close>.
\<close>

section \<open>The invariant\<close>

definition wf_entry :: "mach_context \<Rightarrow> segment_info \<Rightarrow> bool" where
  "wf_entry c s \<longleftrightarrow> mapped_addr s = 0 \<or> mapped_addr s = segment_mapped_addr c (seg_name s) (seg_vmaddr s)"

definition wf_context :: "mach_context \<Rightarrow> bool" where
  "wf_context c \<longleftrightarrow> ctx_ok c \<and> list_all (wf_entry c) (take (n_segment_info c) (segments c))"

lemma wf_start: "n_segment_info c = 0 \<Longrightarrow> ctx_ok c \<Longrightarrow> wf_context c"
  by (simp add: wf_context_def)

section \<open>Operations that leave the table alone\<close>

definition same_table :: "mach_context \<Rightarrow> mach_context \<Rightarrow> bool" where
  "same_table c c' \<longleftrightarrow> img_addr c' = img_addr c \<and> v_addr c' = v_addr c \<and>
     n_segment_info c' = n_segment_info c \<and> segments c' = segments c"

named_theorems same_tables \<open>operations that leave the segment table alone\<close>

lemma same_table_refl [simp]: "same_table c c"
  by (simp add: same_table_def)

lemma same_table_trans: "same_table c d \<Longrightarrow> same_table d e \<Longrightarrow> same_table c e"
  by (simp add: same_table_def)

lemma same_table_ptr [simp]: "same_table c (d\<lparr>ptr := p\<rparr>) = same_table c d" "same_table (c\<lparr>ptr := p\<rparr>) d = same_table c d"
  by (simp_all add: same_table_def)

lemma wf_same_table: "same_table c c' \<Longrightarrow> extends c c' \<Longrightarrow> wf_context c \<Longrightarrow> wf_context c'"
proof -
  assume same: "same_table c c'" and "extends c c'" and wf: "wf_context c"
  then have "ctx_ok c'" by (simp add: wf_context_def extends_def)
  moreover have "wf_entry c' = wf_entry c"
    using same by (intro ext) (simp add: wf_entry_def same_table_def segment_mapped_addr_def)
  ultimately show "wf_context c'" using wf same by (simp add: wf_context_def same_table_def)
qed

lemma binds_same_table [same_tables]: "bind_list_retriever h c p e = Ok c' \<Longrightarrow> same_table c c'"
  using bind_list_retriever_binds [of h c p e c'] by (auto simp: only_binds_def same_table_def)

lemma dyld_info_same_table [same_tables]: "load_dyld_info h c = Ok c' \<Longrightarrow> same_table c c'"
  by (auto simp: load_dyld_info_def Let_def res_bind_eq_Ok intro: same_table_trans dest!: same_tables)

lemma symtab_same_table [same_tables]: "load_symtab_64 c = Ok c' \<Longrightarrow> same_table c c'"
  by (auto simp: load_symtab_64_def res_bind_eq_Ok same_table_def only_entry_def dest!: run_symtab_entry)

lemma dylib_same_table [same_tables]: "load_dylib h c = Ok c' \<Longrightarrow> same_table c c'"
  by (auto simp: load_dylib_def Let_def res_bind_eq_Ok dylib_list_retriever_Ok same_table_def)

lemma linkedit_same_table [same_tables]:
  "load_chained_fixups h c = Ok c' \<Longrightarrow> same_table c c'" "load_exports_trie c = Ok c' \<Longrightarrow> same_table c c'"
  by (auto simp: load_chained_fixups_def load_exports_trie_def res_bind_eq_Ok same_table_def only_fixups_def
      dest!: dump_chained_fixups_frame)

lemma other_command_same_table [same_tables]: "other_command_64 h k c = Ok c' \<Longrightarrow> same_table c c'"
  by (auto simp: other_command_64_def res_bind_eq_Ok split: if_splits dest: same_tables)

interpretation sections_same: framed_op same_table "\<lambda>_ :: nat. section_step_64"
  by unfold_locales (auto simp: section_step_64_def res_bind_eq_Ok intro: same_table_trans)

lemma do_bind_same_table [same_tables]: "do_bind h c = Ok (r, c') \<Longrightarrow> same_table c c'"
  using do_bind_frame [of h c r c'] by (auto simp: only_stores_def same_table_def)

section \<open>Loading a segment\<close>

text \<open>As long as there is no image, only null addresses are recorded.\<close>

lemma wf_ensure:
  assumes wf: "wf_context c" and run: "ensure_image_mapping_64 h c = Ok (r, c')"
  shows "wf_context c'"
proof (cases "same_table c c'")
  case True
  then show ?thesis using wf_same_table ensure_image_mapping_64_extends [OF run] wf by blast
next
  case False
  then have "img_addr c = 0" and same: "n_segment_info c' = n_segment_info c" "segments c' = segments c"
    using run by (auto simp: ensure_image_mapping_64_def Let_def res_bind_eq_Ok split: if_splits option.splits)
  then have "mapped_addr s = 0" if "s \<in> set (take (n_segment_info c) (segments c))" for s
    using wf that by (auto simp: wf_context_def wf_entry_def list_all_iff segment_mapped_addr_def)
  then show ?thesis
    using wf extends_ok [OF ensure_image_mapping_64_extends [OF run]] same
    by (auto simp: wf_context_def wf_entry_def list_all_iff)
qed

lemma wf_record:
  assumes wf: "wf_context c" and len: "length name = 16"
  shows "wf_context (record_segment c name va sz)"
proof (cases "n_segment_info c < MACH_LOADER_MAX_SEGMENTS")
  case True
  let ?c = "record_segment c name va sz"
  let ?s = "\<lparr>seg_name = name, seg_vmaddr = va, seg_vmsize = sz, mapped_addr = segment_mapped_addr c name va\<rparr>"
  have "take (n_segment_info ?c) (segments ?c) = take (n_segment_info c) (segments c) @ [?s]"
    using True wf by (simp add: record_segment_def wf_context_def ctx_ok_def take_Suc_conv_app_nth)
  moreover have "wf_entry ?c = wf_entry c"
    by (intro ext) (simp add: wf_entry_def segment_mapped_addr_def record_segment_def)
  moreover have "ctx_ok ?c" using wf extends_ok [OF record_segment_extends [OF len]] by (simp add: wf_context_def)
  ultimately show ?thesis using wf by (simp add: wf_context_def wf_entry_def)
next
  case False
  then show ?thesis using wf by (simp add: record_segment_def)
qed

lemma wf_segment: "load_segment_64 h c = Ok (n, c') \<Longrightarrow> wf_context c \<Longrightarrow> wf_context c'"
proof -
  assume run: "load_segment_64 h c = Ok (n, c')" and wf: "wf_context c"
  obtain s r c1 c2 where len: "length (segname s) = 16" and c1: "ensure_image_mapping_64 h c = Ok (r, c1)"
    and c2: "copy_segment_64 s c1 = Ok c2" and c': "c' = record_segment c2 (segname s) (vmaddr s) (vmsize s)"
    using run by (auto simp: load_segment_64_def res_bind_eq_Ok sc64.dec_iff wf_segment_command_64_def)
  have "same_table c1 c2"
    using c2 by (auto simp: copy_segment_64_def Let_def res_bind_eq_Ok same_table_def split: if_splits)
  then have "wf_context c2"
    using wf_same_table copy_segment_64_extends [OF c2] wf_ensure [OF wf c1] by blast
  then show "wf_context c'" unfolding c' using len by (rule wf_record)
qed

section \<open>The whole walk\<close>

text \<open>
  A loader whose step is either a segment command, perhaps with sections, or a command that
  leaves the table alone: what such commands and its segment loader keep, the walk keeps.
\<close>

locale table_walk =
  fixes seg :: "mach_context \<Rightarrow> (int \<times> mach_context) res" and step :: "mach_context \<Rightarrow> mach_context res"
    and inv :: "mach_context \<Rightarrow> bool"
  assumes inv_same: "same_table c c' \<Longrightarrow> extends c c' \<Longrightarrow> inv c \<Longrightarrow> inv c'"
    and inv_segment: "seg c = Ok (n, c') \<Longrightarrow> inv c \<Longrightarrow> inv c'"
    and step_cases: "step c = Ok c' \<Longrightarrow>
      (\<exists>n d. seg c = Ok (n, d) \<and> same_table d c' \<and> extends d c') \<or> same_table c c' \<and> extends c c'"
begin

lemma inv_step: "step c = Ok c' \<Longrightarrow> inv c \<Longrightarrow> inv c'"
  using step_cases inv_same inv_segment by blast

lemma inv_ptr: "inv (c\<lparr>ptr := p\<rparr>) = inv c"
proof
  have "extends (c\<lparr>ptr := p\<rparr>) c" using extends_pointers(1) [of "c\<lparr>ptr := p\<rparr>" "ptr c"] by simp
  then show "inv (c\<lparr>ptr := p\<rparr>) \<Longrightarrow> inv c" using inv_same [of "c\<lparr>ptr := p\<rparr>" c] by simp
  show "inv c \<Longrightarrow> inv (c\<lparr>ptr := p\<rparr>)" using inv_same [of c "c\<lparr>ptr := p\<rparr>"] by simp
qed

end

sublocale table_walk \<subseteq> walk: invariant_op inv "\<lambda>i c. res_bind (step c) (int_increment i)"
  by unfold_locales (auto simp: res_bind_eq_Ok intro: inv_step)

lemma load_step_64_cases:
  assumes run: "load_step_64 h c = Ok c'"
  shows "(\<exists>n d. load_segment_64 h c = Ok (n, d) \<and> same_table d c' \<and> extends d c') \<or> same_table c c' \<and> extends c c'"
proof -
  have sections: "same_table d e \<and> extends d e"
    if "for_upto 0 n (\<lambda>_. section_step_64) (d\<lparr>ptr := q\<rparr>) = Ok e" for n d q e
    using sections_same.loop_R [OF that] sections64.loop_R [OF that] extends_ptr_before by simp
  obtain command where cmd: "read_segment_command_64 (mem c) (ptr c) = Ok command"
    using run by (auto simp: load_step_64_def res_bind_eq_Ok)
  show ?thesis
  proof (cases "cmd command = LC_SEGMENT_64")
    case True
    then obtain n d where d: "load_segment_64 h c = Ok (n, d)"
      and rest: "(if n \<noteq> 0 then for_upto 0 (nat n) (\<lambda>_. section_step_64) (d\<lparr>ptr := ptr d + 0x48\<rparr>)
        else Ok (d\<lparr>ptr := ptr d + ucast (cmdsize command)\<rparr>)) = Ok c'"
      using run cmd by (auto simp: load_step_64_def res_bind_eq_Ok)
    then have "same_table d c' \<and> extends d c'" using sections by (cases "n = 0") auto
    then show ?thesis using d by blast
  next
    case False
    then obtain d where d: "other_command_64 h (cmd command) c = Ok d"
      and c': "c' = d\<lparr>ptr := ptr d + ucast (cmdsize command)\<rparr>"
      using run cmd by (auto simp: load_step_64_def res_bind_eq_Ok)
    show ?thesis
      using other_command_same_table [OF d] extends_ptr_after [OF other_command_64_extends [OF d]]
      by (simp add: c')
  qed
qed

interpretation wf64: table_walk "load_segment_64 h" "load_step_64 h" wf_context
  by unfold_locales (blast intro: wf_same_table wf_segment dest: load_step_64_cases)+

lemma wf_loader_64: "loader_64 h c = Ok (r, c') \<Longrightarrow> wf_context c \<Longrightarrow> wf_context c'"
  by (auto simp: loader_64_def Let_def res_bind_eq_Ok wf64.inv_ptr split: if_splits
      dest!: wf64.walk.kept.loop_R [where g = "\<lambda>i. i"])

text \<open>C7: type. Whenever \<open>main\<close> enters a 64-bit program, whatever the file holds, the context
  is well-typed: the tables are within their bounds, and every recorded segment is either null
  or at the address that its name and \<open>vmaddr\<close> relocate to in the one image that was mapped.\<close>

theorem main_context_typed:
  assumes run: "main h args = Ok (Entered ds c)" and "bit_width c = 64"
  shows "ctx_ok c \<and> (\<forall>i < n_segment_info c. let s = segments c ! i in
    mapped_addr s = 0 \<or> mapped_addr s = segment_mapped_addr c (seg_name s) (seg_vmaddr s))"
proof -
  let ?c0 = "(zero_context Map.empty)\<lparr>argc := int (length args) - 1, argv := tl args\<rparr>"
  obtain c1 c2 b r c3 r' where op: "openExec h (args ! 1) ?c0 = Ok c1"
    and bit: "determineBit (mem c1) (memblock c1) = Ok b" and c2: "c2 = c1\<lparr>bit_width := b\<rparr>"
    and ld: "(if drop_bit 6 b = 0 then loader h c2 else loader_64 h c2) = Ok (r, c3)"
    and bnd: "do_bind h c3 = Ok (r', c)"
    using run by (rule main_entered)
  have "extends c2 c"
    using ld loader_extends [of h c2 r c3] loader_64_extends [of h c2 r c3] do_bind_frame [OF bnd]
      extends_trans [of c2 c3 c] by (auto split: if_splits)
  then have "b = 64" using assms(2) by (simp add: extends_def c2)
  then have "loader_64 h c2 = Ok (r, c3)" using ld by simp
  moreover have "wf_context c2"
    using op zero_context_ok [of Map.empty]
    by (intro wf_start) (auto simp: openExec_Ok c2 ctx_ok_def zero_context_def)
  ultimately have "wf_context c3" by (rule wf_loader_64)
  then have "wf_context c" using wf_same_table do_bind_same_table [OF bnd] do_bind_frame [OF bnd] by blast
  then have ok: "ctx_ok c" and entries: "list_all (wf_entry c) (take (n_segment_info c) (segments c))"
    by (simp_all add: wf_context_def)
  from entries have "wf_entry c (segments c ! i)" if "i < n_segment_info c" for i
    using that ok by (auto simp: list_all_length ctx_ok_def)
  then show ?thesis using ok by (simp add: wf_entry_def Let_def)
qed

lemma main_context_typed_witness:
  "\<exists>ds c. main hello_host [lit ''maloader'', lit ''hello''] = Ok (Entered ds c) \<and> ctx_ok c \<and>
    (\<forall>i < n_segment_info c. let s = segments c ! i in
      mapped_addr s = 0 \<or> mapped_addr s = segment_mapped_addr c (seg_name s) (seg_vmaddr s))"
proof -
  obtain ds c where run: "main hello_host [lit ''maloader'', lit ''hello''] = Ok (Entered ds c)"
    and "bit_width c = 64"
    using main_program [OF hello_program_ok] by blast
  from main_context_typed [OF this] run show ?thesis by blast
qed

end
