(* ===== verification/Mal_Loader32.thy ===== *)
theory Mal_Loader32
  imports Mal_Loader
begin

text \<open>
  The 32-bit walk: \<open>loader\<close> of \<^verbatim>\<open>main.c\<close> over the commands of a 32-bit executable, the second
  instance of the locale \<open>command_walk\<close>. A 32-bit file has its own segment commands
  (\<open>Seg_32\<close>); the other commands have the bytes of the 64-bit ones (\<open>Cmd_32\<close>), but the
  loader ignores chained fixups and export tries. Nothing overwrites the file during the walk,
  so the loader carries out exactly the list. It returns \<open>-1\<close> on every run.
\<close>

section \<open>Commands\<close>

datatype lcmd_32 = Seg_32 segment_command "section_32 list" | Cmd_32 lcmd

fun enc_lcmd_32 :: "lcmd_32 \<Rightarrow> byte list" where
  "enc_lcmd_32 (Seg_32 s ss) = enc_segment_command s @ concat (map enc_section_32 ss)"
| "enc_lcmd_32 (Cmd_32 x) = enc_lcmd x"

fun wf_lcmd_32 :: "lcmd_32 \<Rightarrow> bool" where
  "wf_lcmd_32 (Seg_32 s ss) \<longleftrightarrow>
     wf_segment_command s \<and> list_all wf_section_32 ss \<and> cmd s = LC_SEGMENT \<and>
     length ss < 2 ^ 24 \<and> nsects32 s = of_nat (length ss) \<and>
     cmdsize s = of_nat (56 + 68 * length ss)"
| "wf_lcmd_32 (Cmd_32 x) \<longleftrightarrow> wf_lcmd x \<and> lc_code x \<noteq> LC_SEGMENT"

definition file_at_32 :: "memory \<Rightarrow> addr \<Rightarrow> mach_header \<Rightarrow> lcmd_32 list \<Rightarrow> bool" where
  "file_at_32 m p hdr cs \<longleftrightarrow>
     holds m p (enc_mach_header hdr @ concat (map enc_lcmd_32 cs)) \<and>
     (\<forall>x\<in>set cs. wf_lcmd_32 x) \<and> unat (ncmds hdr) = length cs"

text \<open>The effect of a command as a value.\<close>

fun run_other_32 :: "host \<Rightarrow> lcmd \<Rightarrow> mach_context \<Rightarrow> mach_context res" where
  "run_other_32 h (LC_Dyldinfo d) c = run_lcmd h (LC_Dyldinfo d) c"
| "run_other_32 h (LC_Sym t) c = for_upto 0 (unat (nsyms t)) (symbol_step_32 t) c"
| "run_other_32 h (LC_Dylib d tail) c = run_lcmd h (LC_Dylib d tail) c"
| "run_other_32 h _ c = Ok c"

fun run_lcmd_32 :: "host \<Rightarrow> lcmd_32 \<Rightarrow> mach_context \<Rightarrow> mach_context res" where
  "run_lcmd_32 h (Seg_32 s ss) c =
     res_bind (map_text_32 h s c) (\<lambda>c1.
     Ok (record_segment c1 (segname32 s) (ucast (vmaddr32 s)) (ucast (vmsize32 s))))"
| "run_lcmd_32 h (Cmd_32 x) c = run_other_32 h x c"

definition walk_lcmd_32 :: "host \<Rightarrow> lcmd_32 \<Rightarrow> mach_context \<Rightarrow> mach_context res" where
  "walk_lcmd_32 h x c =
     res_bind (run_lcmd_32 h x c) (\<lambda>c'. Ok (c'\<lparr>ptr := ptr c' + of_nat (length (enc_lcmd_32 x))\<rparr>))"

lemma symbol_step_32_entry: "symbol_step_32 t i c = Ok c' \<Longrightarrow> only_entry c c'"
  by (auto simp: symbol_step_32_def Let_def res_bind_eq_Ok)

interpretation entry32: framed_op only_entry "symbol_step_32 t"
  by unfold_locales (auto intro: only_entry_trans symbol_step_32_entry)

lemma run_symtab_32_entry: "for_upto 0 n (symbol_step_32 t) c = Ok c' \<Longrightarrow> only_entry c c'"
  using entry32.loop_R [where g = "\<lambda>i. i"] by simp

lemma map_text_32_ptr: "map_text_32 h s c = Ok d \<Longrightarrow> ptr d = ptr c"
  by (auto simp: map_text_32_def Let_def res_bind_eq_Ok split: if_splits option.splits)

lemma run_other_32_same:
  assumes "run_other_32 h x c = Ok d"
  shows "ptr d = ptr c \<and> memblock d = memblock c \<and> mem d = mem c"
proof (cases x)
  case (LC_Sym t)
  then have "only_entry c d" using assms by (auto intro: run_symtab_32_entry)
  then show ?thesis by (auto simp: only_entry_def)
qed (use assms in \<open>auto simp: Let_def res_bind_eq_Ok dylib_list_retriever_Ok dest!: bind_list_retriever_pointers\<close>)

lemma run_lcmd_32_ptr: "run_lcmd_32 h x c = Ok d \<Longrightarrow> ptr d = ptr c"
  using map_text_32_ptr run_other_32_same by (cases x) (auto simp: res_bind_eq_Ok)

section \<open>One iteration\<close>

lemma section_steps_32:
  assumes "mapped (mem c) (ptr c) (68 * n)"
  shows "for_upto 0 n (\<lambda>_. section_step_32) c = Ok (c\<lparr>ptr := ptr c + of_nat (68 * n)\<rparr>)"
  using assms
proof (induction n arbitrary: c)
  case 0
  then show ?case by simp
next
  case (Suc n)
  have "is_ok (read_section_32 (mem c) (ptr c))"
    using Suc.prems by (intro sect32.dec_total) (rule mapped_le, auto)
  then have step: "section_step_32 c = Ok (c\<lparr>ptr := ptr c + 68\<rparr>)"
    by (auto simp: section_step_32_def load_section_def is_ok_iff)
  have "mapped (mem c) (ptr c + 68) (68 * n)"
    using mapped_numeral [OF Suc.prems] by simp
  then show ?case using Suc.IH [of "c\<lparr>ptr := ptr c + 68\<rparr>"] step
    by (simp add: for_upto_const add.assoc)
qed

lemma load_step_segment_32:
  assumes wf: "wf_lcmd_32 (Seg_32 s ss)" and h: "holds (mem c) (ptr c) (enc_lcmd_32 (Seg_32 s ss))"
  shows "load_step_32 h c = walk_lcmd_32 h (Seg_32 s ss) c"
proof -
  have len: "length (enc_lcmd_32 (Seg_32 s ss)) = 56 + 68 * length ss"
    using wf sect32.length_concat_enc [of ss] by (simp add: sc32.width list_all_iff)
  have s: "read_segment_command (mem c) (ptr c) = Ok s"
    using wf h by (simp add: sc32.dec_iff holds_append)
  have sint: "sint (nsects32 s) = int (length ss)"
    using wf by (simp add: signed_of_nat signed_take_bit_int_eq_self)
  have k: "cmd s = LC_SEGMENT" and size: "cmdsize s = of_nat (56 + 68 * length ss)"
    using wf by simp_all
  have small: "56 + 68 * length ss < 2 ^ 32" using wf by simp
  have map: "mapped (mem c) (ptr c + 56) (68 * length ss)"
    using mapped_offset [OF holds_mapped [OF h], of 56] len by simp
  show ?thesis
  proof (cases "run_lcmd_32 h (Seg_32 s ss) c")
    case (Inl e)
    then have "load_segment h c = Fault e"
      using s by (auto simp: load_segment_def res_bind_eq_Fault)
    then show ?thesis using Inl s k by (simp add: load_step_32_def walk_lcmd_32_def)
  next
    case (Inr c')
    then have ld: "load_segment h c = Ok (int (length ss), c')"
      using s sint by (auto simp: load_segment_def res_bind_eq_Ok)
    have ptr: "ptr c' = ptr c" using Inr by (rule run_lcmd_32_ptr)
    have "mapped (mem c') (ptr c + 56) (68 * length ss)"
      using load_segment_extends [OF ld] map by (rule extends_mapped)
    then have "for_upto 0 (length ss) (\<lambda>_. section_step_32) (c'\<lparr>ptr := ptr c' + 56\<rparr>) =
        Ok (c'\<lparr>ptr := ptr c + 56 + of_nat (68 * length ss)\<rparr>)"
      using section_steps_32 [of "c'\<lparr>ptr := ptr c' + 56\<rparr>" "length ss"] ptr by simp
    then show ?thesis using s k ld Inr len size ptr small
      by (cases "ss = []") (simp_all add: load_step_32_def walk_lcmd_32_def add.assoc)
  qed
qed

lemma other_command_32_run:
  assumes wf: "wf_lcmd x" and h: "holds (mem c) (ptr c) (enc_lcmd x)"
  shows "other_command_32 h (lc_code x) c = run_other_32 h x c"
proof (cases x)
  case (LC_Dyldinfo d)
  then have d: "read_dyld_info_command (mem c) (ptr c) = Ok d" using h by (simp add: dyinfo.dec_iff)
  have "load_dyld_info h c = run_lcmd h x c"
    using d LC_Dyldinfo bind_list_retriever_pointers
    by (auto simp: load_dyld_info_def Let_def cong: res_bind_cong)
  then show ?thesis using LC_Dyldinfo wf by (auto simp: other_command_32_def macho_consts)
next
  case (LC_Sym t)
  then have "read_symtab_command (mem c) (ptr c) = Ok t" using h by (simp add: symtab.dec_iff)
  then show ?thesis using LC_Sym wf
    by (auto simp: other_command_32_def load_symtab_32_def macho_consts)
next
  case (LC_Dysym d)
  then have "read_dysymtab_command (mem c) (ptr c) = Ok d" using h by (simp add: dysymtab.dec_iff)
  then show ?thesis using LC_Dysym wf by (auto simp: other_command_32_def macho_consts)
next
  case (LC_Dylib d tail)
  then have "load32 (mem c) (ptr c + 8) = Ok (dylib_name_offset d)"
    using h by (auto simp: enc_dylib_command_def reader_simps)
  then show ?thesis using LC_Dylib wf
    by (auto simp: other_command_32_def load_dylib_def macho_consts)
qed (use wf in \<open>auto simp: other_command_32_def macho_consts known_codes_def\<close>)

lemma load_step_lcmd_32:
  assumes wf: "wf_lcmd_32 x" and h: "holds (mem c) (ptr c) (enc_lcmd_32 x)"
    and room: "mapped (mem c) (ptr c) 56"
  shows "load_step_32 h c = walk_lcmd_32 h x c"
proof (cases x)
  case (Seg_32 s ss)
  then show ?thesis using load_step_segment_32 wf h by simp
next
  case (Cmd_32 y)
  then have y: "wf_lcmd y" "lc_code y \<noteq> LC_SEGMENT" and hy: "holds (mem c) (ptr c) (enc_lcmd y)"
    using wf h by simp_all
  obtain s where s: "read_segment_command (mem c) (ptr c) = Ok s"
    using sc32.dec_total [OF room] by (auto simp: is_ok_iff)
  then have "load32 (mem c) (ptr c) = Ok (cmd s)" "load32 (mem c) (ptr c + 4) = Ok (cmdsize s)"
    by (auto simp: sc32.dec_iff enc_segment_command_def reader_simps)
  then have k: "cmd s = lc_code y" "cmdsize s = lc_size y"
    using lcmd_header_loads [OF hy] by auto
  show ?thesis
    using s k y(2) other_command_32_run [OF y(1) hy] ucast_lc_size [OF y(1)] Cmd_32
    by (simp add: load_step_32_def walk_lcmd_32_def)
qed

interpretation cmds32: command_walk enc_lcmd_32 wf_lcmd_32 56 "load_step_32 h" "walk_lcmd_32 h"
  by unfold_locales (erule load_step_32_extends, erule (2) load_step_lcmd_32,
      auto simp: walk_lcmd_32_def res_bind_eq_Ok dest: run_lcmd_32_ptr)

section \<open>The file is never overwritten\<close>

definition is_text_32 :: "lcmd_32 \<Rightarrow> bool" where
  "is_text_32 x \<longleftrightarrow> (\<exists>s ss. x = Seg_32 s ss \<and> name_is (segname32 s) SEG_TEXT)"

text \<open>
  One \<open>__TEXT\<close> segment, as every executable has, small enough for \<open>filesize + 0x3000\<close> not to
  wrap.
\<close>

definition one_text_32 :: "lcmd_32 list \<Rightarrow> bool" where
  "one_text_32 cs \<longleftrightarrow> length (filter is_text_32 cs) \<le> 1 \<and>
     (\<forall>s ss. Seg_32 s ss \<in> set cs \<longrightarrow> name_is (segname32 s) SEG_TEXT \<longrightarrow> unat (filesize32 s) + 0x3000 < 2 ^ 32)"

definition file_kept_32 :: "lcmd_32 list \<Rightarrow> mach_context \<Rightarrow> nat \<Rightarrow> mach_context \<Rightarrow> bool" where
  "file_kept_32 cs c n t \<longleftrightarrow> memblock t = memblock c \<and> (\<forall>a. mem c a \<noteq> None \<longrightarrow> mem t a = mem c a) \<and>
     (filter is_text_32 (take n cs) = [] \<longrightarrow> mem t = mem c)"

text \<open>A failed \<open>mmap\<close> leaves the address \<open>-1\<close>; copying there would write to address 0 too.\<close>

lemma memcpy_failed:
  assumes "memcpy m (-1) p 0x3000 = Ok m'"
  shows "m 0 \<noteq> None"
proof -
  have "mapped m (-1) 0x3000" using assms memcpy_total [of m "-1" p "0x3000"] by (simp add: is_ok_iff)
  then have "mapped m (-1 + of_nat 1) 1" by (rule mapped_offset) simp
  then show ?thesis by simp
qed

lemma map_text_32_kept:
  assumes "map_text_32 h s c = Ok d" and "mmap_ok h (mem c)" and "mem c 0 = None"
    and "name_is (segname32 s) SEG_TEXT \<longrightarrow> unat (filesize32 s) + 0x3000 < 2 ^ 32"
  shows "memblock d = memblock c \<and> (\<forall>a. mem c a \<noteq> None \<longrightarrow> mem d a = mem c a)"
proof (cases "name_is (segname32 s) SEG_TEXT")
  case False
  then show ?thesis using assms(1) by (simp add: map_text_32_def)
next
  case True
  define size :: u64 where "size = alignMemory (ucast (filesize32 s + 0x3000)) 0x1000"
  have big: "0x3000 \<le> unat size" using text_size_32 assms(4) True by (simp add: size_def)
  show ?thesis
  proof (cases "host_mmap h (mem c) (ucast (vmaddr32 s)) size")
    case None
    then obtain m where "memcpy (mem c) (-1) (memblock c) 0x3000 = Ok m"
      using assms(1) True by (auto simp: map_text_32_def Let_def res_bind_eq_Ok size_def)
    then show ?thesis using assms(3) memcpy_failed by blast
  next
    case (Some a)
    then obtain m where m: "memcpy (map_anon (mem c) a (unat size)) a (memblock c) 0x3000 = Ok m"
      and d: "mem d = m" "memblock d = memblock c"
      using assms(1) True by (auto simp: map_text_32_def Let_def res_bind_eq_Ok size_def)
    have "m x = mem c x" if "mem c x \<noteq> None" for x
    proof -
      have x: "x \<notin> region a (unat size)" using assms(2) Some that by (auto simp: mmap_ok_def)
      then have "x \<notin> region a 0x3000" using big by (auto simp: region_def)
      then show ?thesis using memcpy_other [OF m] map_anon_other [OF x] by simp
    qed
    then show ?thesis using d by simp
  qed
qed

lemma one_text_first:
  assumes "one_text_32 cs" and "n < length cs" and "is_text_32 (cs ! n)"
  shows "filter is_text_32 (take n cs) = []"
proof -
  have "cs = take n cs @ cs ! n # drop (Suc n) cs" using assms(2) by (rule id_take_nth_drop)
  then have "filter is_text_32 cs = filter is_text_32 (take n cs) @ filter is_text_32 (cs ! n # drop (Suc n) cs)"
    by (metis filter_append)
  then show ?thesis using assms(1,3) by (simp add: one_text_32_def)
qed

lemma kept_step_32:
  assumes mmap: "mmap_ok h (mem c)" and null: "mem c 0 = None" and one: "one_text_32 cs"
    and n: "n < length cs" and kept: "file_kept_32 cs c n t" and run: "walk_lcmd_32 h (cs ! n) t = Ok u"
  shows "file_kept_32 cs c (Suc n) u"
proof -
  obtain v where v: "run_lcmd_32 h (cs ! n) t = Ok v" and u: "mem u = mem v" "memblock u = memblock v"
    using run by (auto simp: walk_lcmd_32_def res_bind_eq_Ok)
  have snoc: "take (Suc n) cs = take n cs @ [cs ! n]" using n by (rule take_Suc_conv_app_nth)
  show ?thesis
  proof (cases "cs ! n")
    case (Cmd_32 x)
    then have "mem v = mem t" "memblock v = memblock t" using v run_other_32_same by auto
    then show ?thesis using kept u snoc by (auto simp: file_kept_32_def)
  next
    case (Seg_32 s ss)
    then obtain d where d: "map_text_32 h s t = Ok d" and w: "mem v = mem d" "memblock v = memblock d"
      using v by (auto simp: res_bind_eq_Ok)
    show ?thesis
    proof (cases "name_is (segname32 s) SEG_TEXT")
      case False
      then have "d = t" using d by (simp add: map_text_32_def)
      then show ?thesis using kept u w snoc by (auto simp: file_kept_32_def)
    next
      case True
      then have first: "is_text_32 (cs ! n)" using Seg_32 by (simp add: is_text_32_def)
      then have same: "mem t = mem c" "memblock t = memblock c"
        using kept one_text_first [OF one n] by (simp_all add: file_kept_32_def)
      have "Seg_32 s ss \<in> set cs" using n Seg_32 by (metis nth_mem)
      then have "unat (filesize32 s) + 0x3000 < 2 ^ 32" using one True by (auto simp: one_text_32_def)
      then have "memblock d = memblock c \<and> (\<forall>a. mem c a \<noteq> None \<longrightarrow> mem d a = mem c a)"
        using map_text_32_kept [OF d] mmap null by (simp add: same)
      then show ?thesis using u w snoc first by (simp add: file_kept_32_def)
    qed
  qed
qed

lemma file_at_32_listed:
  "file_at_32 m p hdr cs \<Longrightarrow> listed enc_lcmd_32 wf_lcmd_32 m (p + 28) cs"
  by (auto simp: file_at_32_def listed_def holds_append mh32.width)

lemma loader_loop:
  assumes obj: "file_at_32 (mem c) (memblock c) hdr cs" and exe: "filetype hdr = MH_EXECUTE"
    and room: "list_room enc_lcmd_32 56 (mem c) (memblock c + 28) cs"
  shows "loader h c = res_bind (for_upto 0 (length cs) (counted (load_step_32 h)) (c\<lparr>ptr := memblock c + 28\<rparr>))
    (\<lambda>c'. Ok (-1, c'))"
proof -
  have hdr: "read_mach_header (mem c) (memblock c) = Ok hdr" and n: "unat (ncmds hdr) = length cs"
    using obj by (simp_all add: file_at_32_def holds_append mh32.dec_iff)
  have "mapped (mem c) (memblock c + 28) 56" using list_room_at [OF room, of 0] by simp
  then have "is_ok (read_segment_command (mem c) (memblock c + 28))" by (rule sc32.dec_total)
  then obtain s where "read_segment_command (mem c) (memblock c + 28) = Ok s"
    by (auto simp: is_ok_iff)
  then show ?thesis using hdr exe n by (simp add: loader_def Let_def)
qed

lemma loader_file_32:
  assumes obj: "file_at_32 (mem c) (memblock c) hdr cs" and exe: "filetype hdr = MH_EXECUTE"
    and count: "length cs \<le> INT_MAX" and room: "list_room enc_lcmd_32 56 (mem c) (memblock c + 28) cs"
    and mmap: "mmap_ok h (mem c)" and null: "mem c 0 = None" and one: "one_text_32 cs"
  shows "loader h c =
      res_bind (res_fold (walk_lcmd_32 h) cs (c\<lparr>ptr := memblock c + 28\<rparr>)) (\<lambda>c'. Ok (-1, c')) \<and>
    (\<forall>r c' a. loader h c = Ok (r, c') \<and> mem c a \<noteq> None \<longrightarrow> mem c' a = mem c a)"
proof -
  let ?c = "c\<lparr>ptr := memblock c + 28\<rparr>" and ?P = "file_kept_32 cs c"
  have start: "?P 0 ?c" by (simp add: file_kept_32_def)
  have at: "listed enc_lcmd_32 wf_lcmd_32 (mem t) (ptr ?c) cs" if "n < length cs" "?P n t" for n t
    using file_at_32_listed [OF obj] that by (auto simp: file_kept_32_def intro: listed_kept)
  have step: "?P (Suc n) u" if "n < length cs" "?P n t" "walk_lcmd_32 h (cs ! n) t = Ok u" for n t u
    using kept_step_32 [OF mmap null one that] .
  have room': "list_room enc_lcmd_32 56 (mem ?c) (ptr ?c) cs" using room by simp
  have walk: "for_upto 0 (length cs) (counted (load_step_32 h)) ?c = res_fold (walk_lcmd_32 h) cs ?c"
    by (rule cmds32.run_fold_inv [where P = ?P, OF room' count start at step])
  have kept: "?P (length cs) c'" if "for_upto 0 (length cs) (counted (load_step_32 h)) ?c = Ok c'" for c'
    using cmds32.loads_inv [where P = ?P, OF room' start at step loads_loop [OF that]] by simp
  show ?thesis
  proof (intro conjI allI impI)
    show "loader h c = res_bind (res_fold (walk_lcmd_32 h) cs ?c) (\<lambda>c'. Ok (-1, c'))"
      unfolding loader_loop [OF obj exe room] walk ..
    fix r c' a assume run: "loader h c = Ok (r, c') \<and> mem c a \<noteq> None"
    then have "?P (length cs) c'"
      unfolding loader_loop [OF obj exe room] by (intro kept) (auto simp: res_bind_eq_Ok)
    then show "mem c' a = mem c a" using run by (simp add: file_kept_32_def)
  qed
qed

text \<open>C16: refinement. For a well-formed 32-bit executable with one \<open>__TEXT\<close> segment, on a host
  that maps memory only where nothing is mapped and never at address 0, \<open>loader\<close> carries out
  exactly the commands of the file, in order, each once; it returns \<open>-1\<close> (also on success)
  with every byte that was mapped before unchanged, or faults exactly when a command does.\<close>

theorem loader_walks_file_32:
  assumes obj: "file_at_32 (mem c) (memblock c) hdr cs" and exe: "filetype hdr = MH_EXECUTE"
    and count: "length cs \<le> INT_MAX" and room: "list_room enc_lcmd_32 56 (mem c) (memblock c + 28) cs"
    and mmap: "mmap_ok h (mem c)" and null: "mem c 0 = None" and one: "one_text_32 cs"
  shows "loader h c =
      res_bind (res_fold (walk_lcmd_32 h) cs (c\<lparr>ptr := memblock c + 28\<rparr>)) (\<lambda>c'. Ok (-1, c')) \<and>
    (\<forall>r c' a. loader h c = Ok (r, c') \<and> mem c a \<noteq> None \<longrightarrow> mem c' a = mem c a)"
  using assms by (rule loader_file_32)

section \<open>Examples\<close>

definition example_header_32 :: mach_header where
  "example_header_32 = \<lparr>magic = 0xFEEDFACE, cputype = 7, cpusubtype = 3, filetype = MH_EXECUTE, ncmds = 1,
     sizeofcmds = 56, hdr_flags = 0\<rparr>"

definition example_commands_32 :: "lcmd_32 list" where
  "example_commands_32 = [Seg_32 example_text_32 []]"

definition example_file_32 :: "byte list" where
  "example_file_32 = enc_mach_header example_header_32 @ enc_segment_command example_text_32 @ replicate 12204 0"

definition example_start_32 :: mach_context where
  "example_start_32 = (zero_context (map_file Map.empty 0x1000 example_file_32))\<lparr>memblock := 0x1000\<rparr>"

lemma example_file_32_length: "length example_file_32 = 12288"
  by (simp add: example_file_32_def mh32.width sc32.width example_pages_32)

lemma example_start_32:
  "memblock example_start_32 = 0x1000" "holds (mem example_start_32) 0x1000 example_file_32"
  "mem example_start_32 0 = None" "mmap_ok example_host (mem example_start_32)"
proof -
  show "memblock example_start_32 = 0x1000" by (simp add: example_start_32_def)
  show "holds (mem example_start_32) 0x1000 example_file_32"
    by (simp add: example_start_32_def zero_context_def map_file_holds example_file_32_length)
  show "mem example_start_32 0 = None"
    by (simp add: example_start_32_def zero_context_def map_file_def example_file_32_length)
  show "mmap_ok example_host (mem example_start_32)"
    by (rule example_host_mmap_ok)
      (simp_all add: example_start_32_def zero_context_def map_file_def example_file_32_length)
qed

lemma example_file_at_32: "file_at_32 (mem example_start_32) (memblock example_start_32) example_header_32 example_commands_32"
proof -
  have "holds (mem example_start_32) 0x1000 (enc_mach_header example_header_32 @ enc_segment_command example_text_32)"
    using example_start_32(2) unfolding example_file_32_def by (simp add: holds_append)
  then show ?thesis using example_pages_32(2)
    by (simp add: file_at_32_def example_start_32(1) example_commands_32_def)
      (simp add: example_header_32_def example_text_32_def)
qed

lemma example_room_32:
  "list_room enc_lcmd_32 56 (mem example_start_32) (memblock example_start_32 + 28) example_commands_32"
proof -
  have "mapped (mem example_start_32) 0x1000 12288"
    using holds_mapped [OF example_start_32(2)] by (simp add: example_file_32_length)
  from mapped_offset [OF this, of 28 112] show ?thesis
    by (simp add: list_room_def example_start_32(1) example_commands_32_def sc32.width example_pages_32)
qed

lemma example_one_text_32: "one_text_32 example_commands_32"
  by (simp add: one_text_32_def example_commands_32_def) (simp add: example_text_32_def)

lemma loader_walks_file_32_witness:
  "\<exists>c'. loader example_host example_start_32 = Ok (-1, c') \<and> img_addr c' = 0x200000000 \<and>
    holds (mem c') 0x200000000 example_file_32 \<and> holds (mem c') 0x1000 example_file_32"
proof -
  let ?s = example_start_32
  have size: "alignMemory (ucast (filesize32 example_text_32 + 0x3000)) 0x1000 = (0x4000 :: u64)"
    by (simp add: example_text_32_def alignMemory_def)
  have host: "host_mmap example_host (mem ?s) (ucast (vmaddr32 example_text_32)) 0x4000 = Some 0x200000000"
    by (simp add: example_text_32_def example_host_def)
  obtain m where m: "memcpy (map_anon (mem ?s) 0x200000000 0x4000) 0x200000000 0x1000 0x3000 = Ok m"
    "holds m 0x200000000 example_file_32"
    using memcpy_fresh [OF example_start_32(4) host example_start_32(2)]
    by (auto simp: example_file_32_length)
  have name: "name_is (segname32 example_text_32) SEG_TEXT"
    by (simp add: example_text_32_def name_is_def SEG_TEXT_def lit_def)
  have exe: "filetype example_header_32 = MH_EXECUTE" by (simp add: example_header_32_def)
  have count: "length example_commands_32 \<le> INT_MAX" by (simp add: example_commands_32_def INT_MAX_def)
  note walk = loader_walks_file_32 [OF example_file_at_32 exe count example_room_32 example_start_32(4,3)
      example_one_text_32]
  have "map_text_32 example_host example_text_32 (?s\<lparr>ptr := 0x101C\<rparr>) =
      Ok (?s\<lparr>ptr := 0x101C, mem := m, img_addr := 0x200000000, v_addr := 0x1000\<rparr>)"
    using m(1) name host by (simp add: map_text_32_def Let_def size example_start_32(1))
      (simp add: example_text_32_def)
  then obtain c' where run: "loader example_host ?s = Ok (-1, c')" and c': "img_addr c' = 0x200000000" "mem c' = m"
    using walk [THEN conjunct1]
    by (auto simp: example_commands_32_def walk_lcmd_32_def example_start_32(1))
  have "holds (mem c') 0x1000 example_file_32"
    using example_start_32(2)
  proof (rule holds_cong)
    fix a assume "a \<in> region 0x1000 (length example_file_32)"
    then have "mem ?s a \<noteq> None" using mapped_in_region [OF holds_mapped [OF example_start_32(2)]] by blast
    then show "mem c' a = mem ?s a" using walk [THEN conjunct2] run by blast
  qed
  then show ?thesis using run c' m(2) by auto
qed

end
