(* ===== verification/Mal_Program32.thy ===== *)
theory Mal_Program32
  imports Mal_Loader32 Mal_Program
begin

unbundle bit_operations_syntax

text \<open>
  From a 32-bit file to the running program. The parts are those of a 32-bit file (\<open>part_32\<close>),
  the image they amount to is that of \<open>Mal_Image\<close>, and the steps the two loaders share are
  proved there.

  \<^item> \<open>loaded_32\<close>: the context stands for the image, and memory is \<open>image_memory_32\<close>: the file, the
    zeroed mapping of the image and the first three pages of the file copied into it.
  \<^item> \<open>parts32\<close>: the locale \<open>part_walk\<close> for this loader: the walk over the parts computes the image.
  \<^item> \<open>main_program_32\<close>: \<open>main\<close> starts the program, although it reports that the loader failed; imports
    hold their last offer or their old value, all other bytes are those of \<open>image_memory_32\<close>.
\<close>

section \<open>Parts of a 32-bit file\<close>

datatype part_32 =
    Q_Segment segment_command "section_32 list"
  | Q_Binds dyld_info_command "bind_op list" "bind_op list"
  | Q_Symbols symtab_command "(nlist \<times> cstr) list"
  | Q_Library dylib_command "byte list" cstr
  | Q_Other lcmd

fun part_lcmd_32 :: "part_32 \<Rightarrow> lcmd_32" where
  "part_lcmd_32 (Q_Segment s ss) = Seg_32 s ss"
| "part_lcmd_32 (Q_Binds d _ _) = Cmd_32 (LC_Dyldinfo d)"
| "part_lcmd_32 (Q_Symbols t _) = Cmd_32 (LC_Sym t)"
| "part_lcmd_32 (Q_Library d tail _) = Cmd_32 (LC_Dylib d tail)"
| "part_lcmd_32 (Q_Other x) = Cmd_32 x"

fun part_ok_32 :: "byte list \<Rightarrow> part_32 \<Rightarrow> bool" where
  "part_ok_32 bs (Q_Segment s ss) \<longleftrightarrow> True"
| "part_ok_32 bs (Q_Binds d ops lazy) \<longleftrightarrow> binds_in bs d ops lazy"
| "part_ok_32 bs (Q_Symbols t es) \<longleftrightarrow> symbols_in enc_nlist n_strx32 bs t es"
| "part_ok_32 bs (Q_Library d tail name) \<longleftrightarrow> library_in d tail name"
| "part_ok_32 bs (Q_Other x) \<longleftrightarrow>
     (case x of LC_Dyldinfo _ \<Rightarrow> False | LC_Sym _ \<Rightarrow> False | LC_Dylib _ _ \<Rightarrow> False | _ \<Rightarrow> True)"

text \<open>One part, for a \<open>__TEXT\<close> segment that will be mapped at \<open>img\<close>.\<close>

fun load_part_32 :: "addr \<Rightarrow> part_32 \<Rightarrow> image \<Rightarrow> image" where
  "load_part_32 img (Q_Segment s ss) im =
     (let im1 = (if name_is (segname32 s) SEG_TEXT
                 then im\<lparr>im_addr := img, im_base := ucast (vmaddr32 s)\<rparr> else im)
      in add_segment (segname32 s) (ucast (vmaddr32 s)) (ucast (vmsize32 s)) im1)"
| "load_part_32 img (Q_Binds d ops lazy) im = add_binds ops lazy im"
| "load_part_32 img (Q_Symbols t es) im = set_entry (\<lambda>n. ucast (n_value32 n)) es im"
| "load_part_32 img (Q_Library d tail name) im = add_library name im"
| "load_part_32 img (Q_Other x) im = im"

definition load_image_32 :: "addr \<Rightarrow> part_32 list \<Rightarrow> image" where
  "load_image_32 img ps = fold (load_part_32 img) ps empty_image"

lemma load_part_32_grows:
  "length (im_binds im) \<le> length (im_binds (load_part_32 img p im)) \<and>
   length (im_libs im) \<le> length (im_libs (load_part_32 img p im))"
  by (cases p) (simp_all add: Let_def image_step_defs)

section \<open>Where everything is\<close>

definition text_size :: "segment_command \<Rightarrow> u64" where
  "text_size s = alignMemory (ucast (filesize32 s + 0x3000)) 0x1000"

text \<open>The three pages that are copied: the file must have them, filled up to a page.\<close>

definition text_pages :: "layout \<Rightarrow> byte list" where
  "text_pages L = take 0x3000 (page_filled (ly_bytes L))"

definition layout_ok_32 :: "host \<Rightarrow> lcmd_32 list \<Rightarrow> layout \<Rightarrow> bool" where
  "layout_ok_32 h cs L \<longleftrightarrow>
     holds (ly_mem L) (ly_file L) (page_filled (ly_bytes L)) \<and>
     0x3000 \<le> length (page_filled (ly_bytes L)) \<and>
     unat (ly_file L) + length (ly_bytes L) < 2 ^ 64 \<and>
     mmap_ok h (ly_mem L) \<and> alloc_ok h \<and> one_text_32 cs \<and>
     (\<forall>s ss. Seg_32 s ss \<in> set cs \<longrightarrow> name_is (segname32 s) SEG_TEXT \<longrightarrow>
        ucast (vmaddr32 s) = ly_lo L \<and> unat (text_size s) = ly_size L \<and>
        host_mmap h (ly_mem L) (ly_lo L) (text_size s) = Some (ly_img L))"

text \<open>Memory before anything is bound.\<close>

definition image_memory_32 :: "layout \<Rightarrow> memory" where
  "image_memory_32 L = map_file (map_anon (ly_mem L) (ly_img L) (ly_size L)) (ly_img L) (text_pages L)"

definition loaded_32 :: "layout \<Rightarrow> image \<Rightarrow> mach_context \<Rightarrow> bool" where
  "loaded_32 L im c \<longleftrightarrow>
     memblock c = ly_file L \<and> represents (ly_mem L) im c \<and>
     (\<forall>x. ly_mem L x \<noteq> None \<longrightarrow> mem c x = ly_mem L x) \<and>
     chained_unresolved_bind_count c = 0 \<and>
     (if im_addr im = 0 then mem c = ly_mem L
      else im_addr im = ly_img L \<and> im_base im = ly_lo L \<and> mapped (mem c) (ly_img L) (ly_size L) \<and>
        (\<forall>x\<in>region (ly_img L) (ly_size L). ly_mem L x = None) \<and>
        holds (mem c) (ly_img L) (text_pages L) \<and> image_memory_32 L = mem c)"

lemma loaded_32_cong:
  assumes "loaded_32 L im c" and "represents (ly_mem L) im' c'"
    and "im_addr im' = im_addr im" "im_base im' = im_base im"
    and "mem c' = mem c" "memblock c' = memblock c"
      "chained_unresolved_bind_count c' = chained_unresolved_bind_count c"
  shows "loaded_32 L im' c'"
  using assms unfolding loaded_32_def by (simp split: if_splits)

lemma loaded_32_ptr [simp]: "loaded_32 L im (c\<lparr>ptr := q\<rparr>) = loaded_32 L im c"
  by (simp add: loaded_32_def represents_def ctx_ok_def)

lemma loaded_32_resident:
  assumes "layout_ok_32 h cs L" and "loaded_32 L im c"
  shows "resident (ly_mem L) (ly_file L) (ly_bytes L) c"
proof -
  have "holds (ly_mem L) (ly_file L) (ly_bytes L)"
    using assms(1) by (simp add: layout_ok_32_def page_filled_def holds_append)
  then show ?thesis using assms by (simp add: resident_def layout_ok_32_def loaded_32_def)
qed

section \<open>One part at a time\<close>

lemma text_loaded:
  assumes L: "layout_ok_32 h cs L" and c: "loaded_32 L im c" and seg: "Seg_32 s ss \<in> set cs"
    and name: "name_is (segname32 s) SEG_TEXT" and im: "im_addr im = 0"
  shows "\<exists>c1. map_text_32 h s c = Ok c1 \<and>
    loaded_32 L (im\<lparr>im_addr := ly_img L, im_base := ucast (vmaddr32 s)\<rparr>) c1"
proof -
  have st: "mem c = ly_mem L" "memblock c = ly_file L" using c im by (simp_all add: loaded_32_def)
  have at: "ucast (vmaddr32 s) = ly_lo L" "unat (text_size s) = ly_size L"
    and map: "host_mmap h (ly_mem L) (ly_lo L) (text_size s) = Some (ly_img L)" and mmap: "mmap_ok h (ly_mem L)"
    using L seg name unfolding layout_ok_32_def by blast+
  have "unat (filesize32 s) + 0x3000 < 2 ^ 32"
    using L seg name unfolding layout_ok_32_def one_text_32_def by blast
  then have big: "0x3000 \<le> unat (text_size s)" using text_size_32 by (simp add: text_size_def)
  have len: "length (text_pages L) = 0x3000" using L by (simp add: text_pages_def layout_ok_32_def)
  have "page_filled (ly_bytes L) = text_pages L @ drop 0x3000 (page_filled (ly_bytes L))"
    by (simp add: text_pages_def)
  moreover have "holds (ly_mem L) (ly_file L) (page_filled (ly_bytes L))" using L by (simp add: layout_ok_32_def)
  ultimately have pages: "holds (ly_mem L) (ly_file L) (text_pages L)" by (metis holds_append)
  have img: "ly_img L \<noteq> 0" "unat (ly_img L) + ly_size L \<le> 2 ^ 64"
    and free: "\<forall>x\<in>region (ly_img L) (ly_size L). ly_mem L x = None"
    using mmap [unfolded mmap_ok_def, rule_format, OF map] at by simp_all
  obtain m where m: "memcpy (map_anon (ly_mem L) (ly_img L) (unat (text_size s))) (ly_img L) (ly_file L) 0x3000 = Ok m"
    "holds m (ly_img L) (text_pages L)" "\<forall>x. ly_mem L x \<noteq> None \<longrightarrow> m x = ly_mem L x"
    using memcpy_fresh [OF mmap map pages] len big by auto
  have copy: "image_memory_32 L = m"
    using at(2) m(2) memcpy_map_file [OF m(1) _ len] unfolding image_memory_32_def by simp
  let ?c = "c\<lparr>mem := m, img_addr := ly_img L, v_addr := ly_lo L\<rparr>"
  have run: "map_text_32 h s c = Ok ?c"
    using name map m(1) st at(1) by (simp add: map_text_32_def Let_def text_size_def)
  have "mapped m (ly_img L) (ly_size L)"
  proof (rule mapped_dom_cong [THEN iffD2])
    show "mapped (map_anon (ly_mem L) (ly_img L) (unat (text_size s))) (ly_img L) (ly_size L)"
      using img at(2) map_anon_mapped by simp
  qed (use memcpy_dom [OF m(1)] in \<open>metis domIff\<close>)
  moreover have "represents (ly_mem L) (im\<lparr>im_addr := ly_img L, im_base := ly_lo L\<rparr>) ?c"
    using c by (simp add: loaded_32_def represents_def ctx_ok_def)
  ultimately have "loaded_32 L (im\<lparr>im_addr := ly_img L, im_base := ly_lo L\<rparr>) ?c"
    using c m img free copy by (simp add: loaded_32_def)
  then show ?thesis using run at(1) by simp
qed

lemma loaded_32_record:
  assumes "loaded_32 L im c" and "length name = 16"
  shows "loaded_32 L (add_segment name va sz im) (record_segment c name va sz)"
  using assms(1)
proof (rule loaded_32_cong)
  show "represents (ly_mem L) (add_segment name va sz im) (record_segment c name va sz)"
    using assms represents_record by (simp add: loaded_32_def)
qed (simp_all add: record_segment_def add_segment_def)

lemma run_part_32:
  assumes L: "layout_ok_32 h cs L" and c: "loaded_32 L im c" and x: "part_lcmd_32 p \<in> set cs"
    and wf: "wf_lcmd_32 (part_lcmd_32 p)" and ok: "part_ok_32 (ly_bytes L) p"
    and first: "is_text_32 (part_lcmd_32 p) \<longrightarrow> im_addr im = 0"
    and here: "holds (ly_mem L) (ptr c) (enc_lcmd_32 (part_lcmd_32 p))"
    and room: "length (im_binds (load_part_32 (ly_img L) p im)) \<le> INT_MAX"
      "length (im_libs (load_part_32 (ly_img L) p im)) \<le> INT_MAX"
  shows "\<exists>c'. run_lcmd_32 h (part_lcmd_32 p) c = Ok c' \<and> loaded_32 L (load_part_32 (ly_img L) p im) c'"
proof -
  have rep: "represents (ly_mem L) im c" and alloc: "alloc_ok h" using c L by (simp_all add: loaded_32_def layout_ok_32_def)
  note res = loaded_32_resident [OF L c]
  show ?thesis
  proof (cases p)
    case (Q_Segment s ss)
    let ?im = "if name_is (segname32 s) SEG_TEXT then im\<lparr>im_addr := ly_img L, im_base := ucast (vmaddr32 s)\<rparr> else im"
    have "\<exists>c1. map_text_32 h s c = Ok c1 \<and> loaded_32 L ?im c1"
    proof (cases "name_is (segname32 s) SEG_TEXT")
      case True
      then show ?thesis using text_loaded [OF L c _ True] x first Q_Segment by (simp add: is_text_32_def)
    next
      case False
      then show ?thesis using c by (simp add: map_text_32_def)
    qed
    then obtain c1 where "map_text_32 h s c = Ok c1" and c1: "loaded_32 L ?im c1" by blast
    moreover have "length (segname32 s) = 16" using wf Q_Segment by (simp add: wf_segment_command_def)
    ultimately show ?thesis using loaded_32_record [OF c1] Q_Segment by (simp add: Let_def)
  next
    case (Q_Binds d ops lazy)
    then obtain xs where "run_lcmd h (LC_Dyldinfo d) c = Ok (c\<lparr>b_list := xs\<rparr>)"
      and xs: "represents (ly_mem L) (add_binds ops lazy im) (c\<lparr>b_list := xs\<rparr>)"
      using binds_represent [OF res rep alloc, of d ops lazy] ok room by auto
    moreover have "loaded_32 L (add_binds ops lazy im) (c\<lparr>b_list := xs\<rparr>)"
      by (rule loaded_32_cong [OF c xs]) (simp_all add: add_binds_def)
    ultimately show ?thesis using Q_Binds by simp
  next
    case (Q_Symbols t es)
    then have "symbols_at_32 c t es" using symbols_resident [OF res] ok by simp
    then have "for_upto 0 (unat (nsyms t)) (symbol_step_32 t) c = Ok (c\<lparr>entry_point := entry_of_32 c es\<rparr>)"
      using symbols_run_32 ok Q_Symbols by (simp add: symbols_in_def)
    moreover have "loaded_32 L (set_entry (\<lambda>n. ucast (n_value32 n)) es im) (c\<lparr>entry_point := entry_of_32 c es\<rparr>)"
      by (rule loaded_32_cong [OF c entry_represents [OF rep]]) (simp_all add: set_entry_def)
    ultimately show ?thesis using Q_Symbols by simp
  next
    case (Q_Library d tail name)
    then have "holds (ly_mem L) (ptr c) (enc_lcmd (LC_Dylib d tail))" "length (im_libs im) < INT_MAX"
      using here room by (simp_all add: add_library_def)
    then obtain ds where "run_lcmd h (LC_Dylib d tail) c = Ok (c\<lparr>d_list := ds\<rparr>)"
      and ds: "represents (ly_mem L) (add_library name im) (c\<lparr>d_list := ds\<rparr>)"
      using library_represents [OF res rep alloc] ok Q_Library by (metis part_ok_32.simps(4))
    moreover have "loaded_32 L (add_library name im) (c\<lparr>d_list := ds\<rparr>)"
      by (rule loaded_32_cong [OF c ds]) (simp_all add: add_library_def)
    ultimately show ?thesis using Q_Library by simp
  next
    case (Q_Other y)
    then show ?thesis using c ok by (cases y) auto
  qed
qed

section \<open>All parts\<close>

lemma addr_kept_32:
  "im_addr (load_part_32 img p im) = (if is_text_32 (part_lcmd_32 p) then img else im_addr im)"
  by (cases p) (auto simp: is_text_32_def image_step_defs Let_def)

definition parts_left_32 :: "host \<Rightarrow> lcmd_32 list \<Rightarrow> layout \<Rightarrow> image \<Rightarrow> part_32 list \<Rightarrow> bool" where
  "parts_left_32 h cs L im ps \<longleftrightarrow>
     layout_ok_32 h cs L \<and> set (map part_lcmd_32 ps) \<subseteq> set cs \<and> (\<forall>x\<in>set cs. wf_lcmd_32 x) \<and>
     (\<forall>p\<in>set ps. part_ok_32 (ly_bytes L) p) \<and>
     length (filter is_text_32 (map part_lcmd_32 ps)) \<le> (if im_addr im = 0 then 1 else 0)"

interpretation parts32: part_walk enc_lcmd_32 "walk_lcmd_32 h" part_lcmd_32 "load_part_32 (ly_img L)" "\<lambda>im. im" "ly_mem L"
  "loaded_32 L" "parts_left_32 h cs L"
proof unfold_locales
  show "length (im_binds im) \<le> length (im_binds (load_part_32 (ly_img L) p im)) \<and>
      length (im_libs im) \<le> length (im_libs (load_part_32 (ly_img L) p im))" for im L p
    by (rule load_part_32_grows)
  show "parts_left_32 h cs L (load_part_32 (ly_img L) p im) ps" if "parts_left_32 h cs L im (p # ps)" for h cs L im p ps
    using that by (auto simp: parts_left_32_def addr_kept_32 filter_map split: if_splits)
  show "\<exists>c'. walk_lcmd_32 h (part_lcmd_32 p) c = Ok c' \<and> loaded_32 L (load_part_32 (ly_img L) p im) c'"
    if c: "loaded_32 L im c" and left: "parts_left_32 h cs L im (p # ps)"
      and here: "holds (ly_mem L) (ptr c) (enc_lcmd_32 (part_lcmd_32 p))"
      and room: "length (im_binds (load_part_32 (ly_img L) p im)) \<le> INT_MAX"
        "length (im_libs (load_part_32 (ly_img L) p im)) \<le> INT_MAX"
    for h cs L im c p ps
  proof -
    have L: "layout_ok_32 h cs L" and "is_text_32 (part_lcmd_32 p) \<longrightarrow> im_addr im = 0"
      using left by (auto simp: parts_left_32_def split: if_splits)
    then show ?thesis
      using run_part_32 [OF L c _ _ _ _ here room] left by (auto simp: parts_left_32_def walk_lcmd_32_def)
  qed
  show "ptr c' = ptr c + of_nat (length (enc_lcmd_32 x))" if "walk_lcmd_32 h x c = Ok c'" for h x c c'
    using that run_lcmd_32_ptr by (auto simp: walk_lcmd_32_def res_bind_eq_Ok)
qed

section \<open>The whole program\<close>

definition executable_file_32 :: "byte list \<Rightarrow> mach_header \<Rightarrow> lcmd_32 list \<Rightarrow> bool" where
  "executable_file_32 bs hdr cs \<longleftrightarrow>
     (\<exists>rest. bs = enc_mach_header hdr @ concat (map enc_lcmd_32 cs) @ rest \<and> 56 \<le> length rest) \<and>
     magic hdr = MH_MAGIC \<and> filetype hdr = MH_EXECUTE \<and>
     (\<forall>x\<in>set cs. wf_lcmd_32 x) \<and> unat (ncmds hdr) = length cs \<and> length cs \<le> INT_MAX"

lemma executable_file_32_at:
  assumes exe: "executable_file_32 bs hdr cs" and m: "holds m a bs"
  shows "file_at_32 m a hdr cs" and "list_room enc_lcmd_32 56 m (a + 28) cs" and "load32 m a = Ok MH_MAGIC"
proof -
  obtain rest where bs: "bs = enc_mach_header hdr @ concat (map enc_lcmd_32 cs) @ rest"
    and rest: "56 \<le> length rest" using exe by (auto simp: executable_file_32_def)
  have h: "holds m a (enc_mach_header hdr)" "holds m (a + 28) (concat (map enc_lcmd_32 cs) @ rest)"
    using m unfolding bs by (simp_all only: holds_append mh32.width of_nat_numeral)
  then show "file_at_32 m a hdr cs"
    using exe by (simp add: file_at_32_def holds_append mh32.width executable_file_32_def)
  have "mapped m (a + 28) (length (concat (map enc_lcmd_32 cs) @ rest))"
    using h(2) by (rule holds_mapped)
  then show "list_room enc_lcmd_32 56 m (a + 28) cs"
    unfolding list_room_def by (rule mapped_le) (use rest in simp)
  show "load32 m a = Ok MH_MAGIC"
    using h(1) exe by (simp add: enc_mach_header_def reader_simps executable_file_32_def)
qed

definition program_ok_32 ::
  "host \<Rightarrow> cstr list \<Rightarrow> mach_header \<Rightarrow> part_32 list \<Rightarrow> layout \<Rightarrow> image \<Rightarrow> bool" where
  "program_ok_32 h args hdr ps L im \<longleftrightarrow>
     2 \<le> length args \<and> host_open h (args ! 1) = Some (ly_bytes L) \<and>
     host_map_file h (ly_bytes L) = Some (ly_file L) \<and> map_file_ok h (ly_bytes L) \<and>
     map_file Map.empty (ly_file L) (page_filled (ly_bytes L)) = ly_mem L \<and>
     executable_file_32 (ly_bytes L) hdr (map part_lcmd_32 ps) \<and>
     layout_ok_32 h (map part_lcmd_32 ps) L \<and> ly_lo L \<noteq> 0 \<and>
     (\<forall>p\<in>set ps. part_ok_32 (ly_bytes L) p) \<and>
     load_image_32 (ly_img L) ps = im \<and> im_addr im \<noteq> 0 \<and> im_entry im \<noteq> 0 \<and>
     length (im_binds im) \<le> INT_MAX \<and> length (im_libs im) + 2 \<le> INT_MAX \<and>
     imports_ok L (im_binds im)"

lemma program_loaded_32:
  assumes ok: "program_ok_32 h args hdr ps L im"
  shows "\<exists>c. loader h ((opened_context args (ly_file L) (ly_bytes L))\<lparr>bit_width := 32\<rparr>) = Ok (-1, c) \<and> loaded_32 L im c"
proof -
  let ?c = "(opened_context args (ly_file L) (ly_bytes L))\<lparr>bit_width := 32\<rparr>"
  let ?cs = "map part_lcmd_32 ps" and ?d = "?c\<lparr>ptr := ly_file L + 28\<rparr>"
  have L: "layout_ok_32 h ?cs L" and m0: "map_file Map.empty (ly_file L) (page_filled (ly_bytes L)) = ly_mem L"
    and exe: "executable_file_32 (ly_bytes L) hdr ?cs"
    using ok by (simp_all add: program_ok_32_def)
  have f: "memblock ?c = ly_file L" "mem ?c = ly_mem L" by (simp_all add: opened_context_def zero_context_def m0)
  have a: "ly_file L \<noteq> 0" "unat (ly_file L) + length (page_filled (ly_bytes L)) \<le> 2 ^ 64"
    using ok by (auto simp: program_ok_32_def map_file_ok_def)
  have "0 \<notin> region (ly_file L) (length (page_filled (ly_bytes L)))"
    using a(1) by (simp add: region_def unat_eq_0)
  then have null: "ly_mem L 0 = None" by (simp flip: m0 add: map_file_other)
  have "holds (ly_mem L) (ly_file L) (ly_bytes L)"
    using L by (simp add: layout_ok_32_def page_filled_def holds_append)
  note at = executable_file_32_at [OF exe this]
  have "represents (ly_mem L) empty_image ?d"
    using represents_start [of L "ly_file L + 28" args "ly_file L" "ly_bytes L"] by (simp add: represents_def ctx_ok_def)
  then have "loaded_32 L empty_image ?d"
    using f by (simp add: loaded_32_def) (simp add: empty_image_def opened_context_def zero_context_def)
  moreover have "holds (ly_mem L) (ptr ?d) (concat (map enc_lcmd_32 ?cs))"
    using at(1) by (simp add: file_at_32_def holds_append mh32.width)
  moreover have "length (filter is_text_32 ?cs) \<le> 1" using L by (simp add: layout_ok_32_def one_text_32_def)
  ultimately obtain c where c: "res_fold (walk_lcmd_32 h) ?cs ?d = Ok c" "loaded_32 L im c"
    using parts32.walk_parts [of L empty_image ?d h ?cs ps] L ok exe
    by (auto simp: program_ok_32_def load_image_32_def executable_file_32_def empty_image_def parts_left_32_def)
  have "loader h ?c = res_bind (res_fold (walk_lcmd_32 h) ?cs ?d) (\<lambda>c'. Ok (-1, c'))"
    using loader_file_32 [of ?c hdr ?cs h] at null exe L
    by (simp add: f executable_file_32_def layout_ok_32_def)
  then show ?thesis using c by simp
qed

text \<open>The bytes that no bind replaces.\<close>

definition unbound :: "layout \<Rightarrow> image \<Rightarrow> addr \<Rightarrow> bool" where
  "unbound L im a \<longleftrightarrow> (\<forall>e\<in>set (im_binds im). ly_img L < snd e \<longrightarrow> a \<notin> region (snd e) 8)"

lemma main_program_32:
  assumes ok: "program_ok_32 h args hdr ps L im"
  shows "\<exists>c. main h args = Ok (Entered [Loader_Failed (-1)] c) \<and>
    entry_point c = im_entry im \<and> img_addr c = ly_img L \<and>
    (\<forall>k < length (im_binds im). ly_img L < snd (im_binds im ! k) \<longrightarrow>
       (\<exists>v. load64 (image_memory_32 L) (snd (im_binds im ! k)) = Ok v \<and>
            load64 (mem c) (snd (im_binds im ! k)) = Ok (import_value h im k v))) \<and>
    (\<forall>a. unbound L im a \<longrightarrow> mem c a = image_memory_32 L a) \<and>
    (\<forall>i < 0x3000. unbound L im (ly_img L + of_nat i) \<longrightarrow>
       mem c (ly_img L + of_nat i) = Some (page_filled (ly_bytes L) ! i)) \<and> bit_width c = 32"
proof -
  let ?c = "opened_context args (ly_file L) (ly_bytes L)"
  have L: "layout_ok_32 h (map part_lcmd_32 ps) L" and im: "im_addr im \<noteq> 0" and lo: "ly_lo L \<noteq> 0"
    and m0: "map_file Map.empty (ly_file L) (page_filled (ly_bytes L)) = ly_mem L"
    and exe: "executable_file_32 (ly_bytes L) hdr (map part_lcmd_32 ps)"
    and imp: "imports_ok L (im_binds im)" and room: "length (im_libs im) + 2 \<le> INT_MAX" and entry: "im_entry im \<noteq> 0"
    using ok by (simp_all add: program_ok_32_def)
  have alloc: "alloc_ok h" and len: "length (text_pages L) = 0x3000"
    using L by (simp_all add: layout_ok_32_def text_pages_def)
  have "holds (ly_mem L) (ly_file L) (ly_bytes L)"
    using L by (simp add: layout_ok_32_def page_filled_def holds_append)
  then have "determineBit (mem ?c) (ly_file L) = Ok 32"
    using executable_file_32_at(3) [OF exe]
    by (simp add: determineBit_def macho_consts opened_context_def zero_context_def m0)
  note run = main_opened [OF _ _ _ this, of h]
  obtain c1 where c1: "loader h (?c\<lparr>bit_width := 32\<rparr>) = Ok (-1, c1)" "loaded_32 L im c1"
    using program_loaded_32 [OF ok] by blast
  have st: "stands (ly_mem L) (ly_img L) (ly_size L) im c1"
    using c1(2) im by (simp add: loaded_32_def stands_def)
  have before: "mem c1 = image_memory_32 L" and pages: "holds (mem c1) (ly_img L) (text_pages L)"
    using c1(2) im by (simp_all add: loaded_32_def)
  obtain c2 where c2: "do_bind h c1 = Ok (0, c2)" "entry_point c2 = im_entry im" "img_addr c2 = ly_img L"
      "\<forall>k < length (im_binds im). ly_img L < snd (im_binds im ! k) \<longrightarrow>
         (\<exists>v. load64 (mem c1) (snd (im_binds im ! k)) = Ok v \<and>
              load64 (mem c2) (snd (im_binds im ! k)) = Ok (import_value h im k v))"
    and same: "\<forall>x. (\<forall>e\<in>set (im_binds im). ly_img L < snd e \<longrightarrow> x \<notin> region (snd e) 8) \<longrightarrow> mem c2 x = mem c1 x"
    using image_bound [OF st imp alloc room] by blast
  have "loader_diagnostics (-1) c1 = [Loader_Failed (-1)]"
    using c1(2) im lo entry by (auto simp: loader_diagnostics_def loaded_32_def represents_def)
  then have "main h args = Ok (Entered [Loader_Failed (-1)] c2)"
    using run ok c1(1) c2(1,2) entry by (simp add: program_ok_32_def)
  moreover have after: "mem c2 a = image_memory_32 L a" if "unbound L im a" for a
    using same that before by (simp add: unbound_def)
  moreover have "mem c2 (ly_img L + of_nat i) = Some (page_filled (ly_bytes L) ! i)"
    if i: "i < 0x3000" and out: "unbound L im (ly_img L + of_nat i)" for i
  proof -
    have "mem c1 (ly_img L + of_nat i) = Some (text_pages L ! i)" using pages i len by (intro holds_at) simp_all
    then show ?thesis using after [OF out] before i by (simp add: text_pages_def)
  qed
  moreover have "bit_width c2 = 32"
    using loader_extends [of h "?c\<lparr>bit_width := 32\<rparr>"] c1(1) do_bind_frame [OF c2(1)] by (fastforce simp: extends_def)
  ultimately show ?thesis using c2(2-4) before by auto
qed

section \<open>Example\<close>

text \<open>
  A 32-bit executable of three pages: the \<open>__TEXT\<close> segment, binds of \<open>_gone\<close>, which nobody
  offers, and of \<open>_puts\<close> at its offsets 8 and 16, the symbol \<open>_main\<close> and a library that the host does not have.
\<close>

definition small_binds :: dyld_info_command where
  "small_binds = hello_binds\<lparr>bind_off := 188\<rparr>"

definition small_symtab :: symtab_command where
  "small_symtab = hello_symtab\<lparr>symoff := 207, stroff := 219\<rparr>"

definition small_parts :: "part_32 list" where
  "small_parts =
     [Q_Segment example_text_32 [], Q_Binds small_binds hello_ops [],
      Q_Symbols small_symtab [(example_main_32, lit ''_main'')],
      Q_Library hello_dylib (lit ''libz.so'' @ [0]) (lit ''libz.so'')]"

definition small_header :: mach_header where
  "small_header = example_header_32\<lparr>ncmds := 4, sizeofcmds := 160\<rparr>"

definition small_commands :: "byte list" where
  "small_commands = enc_mach_header small_header @ concat (map enc_lcmd_32 (map part_lcmd_32 small_parts))"

definition small_file :: "byte list" where
  "small_file = small_commands @ ops_bytes hello_ops @ enc_nlist example_main_32 @
     (lit ''_main'' @ [0]) @ replicate 12063 0"

definition small_host :: host where
  "small_host = example_host\<lparr>host_open := (\<lambda>_. Some small_file)\<rparr>"

definition small_layout :: layout where
  "small_layout =
     \<lparr>ly_file = 0x1000, ly_bytes = small_file, ly_mem = map_file Map.empty 0x1000 (page_filled small_file),
      ly_img = 0x200000000, ly_lo = 0x1000, ly_size = 0x4000\<rparr>"

definition small_image :: image where
  "small_image =
     \<lparr>im_addr = 0x200000000, im_base = 0x1000,
      im_segments = [\<lparr>seg_name = segname32 example_text_32, seg_vmaddr = 0x1000,
        seg_vmsize = 0x4000, mapped_addr = 0x200000000\<rparr>],
      im_binds = [(Some (lit ''_gone''), 0x200000008), (Some (lit ''_puts''), 0x200000010)],
      im_fixups = [], im_skipped = [], im_libs = [lit ''libz.so''],
      im_entry = 0x200000F00\<rparr>"

lemma small_fields:
  "ly_file small_layout = 0x1000" "ly_bytes small_layout = small_file"
  "ly_mem small_layout = map_file Map.empty 0x1000 (page_filled small_file)"
  "ly_img small_layout = 0x200000000" "ly_lo small_layout = 0x1000" "ly_size small_layout = 0x4000"
  by (simp_all add: small_layout_def)

lemma small_wf: "list_all wf_lcmd_32 (map part_lcmd_32 small_parts)"
  using example_pages_32(2)
  by (simp add: small_parts_def small_binds_def small_symtab_def hello_binds_def hello_symtab_def hello_dylib_def)
    (simp add: example_text_32_def lit_def macho_consts)

lemma small_lengths:
  "length small_commands = 188" "length small_file = 12288" "length (page_filled small_file) = 12288"
proof -
  show c: "length small_commands = 188"
    using small_wf
    by (simp add: small_commands_def mh32.width small_parts_def length_enc_lcmd sc32.width
        del: enc_lcmd.simps wf_lcmd.simps)
      (simp add: lit_def)
  show f: "length small_file = 12288"
    using c hello_lengths(2) by (simp add: small_file_def nl32.width) (simp add: lit_def)
  show "length (page_filled small_file) = 12288" by (simp add: page_filled_def f)
qed

lemma small_pieces:
  "bytes_at small_file 188 (ops_bytes hello_ops)" "bytes_at small_file 207 (enc_nlist example_main_32)"
  "bytes_at small_file 219 (lit ''_main'' @ [0])"
proof -
  let ?n = "enc_nlist example_main_32" and ?s = "lit ''_main'' @ [0]" and ?z = "replicate 12063 (0 :: byte)"
  note at = small_lengths hello_lengths(2) nl32.width
  have "bytes_at (small_commands @ ops_bytes hello_ops @ ?n @ ?s @ ?z) 188 (ops_bytes hello_ops)"
    by (rule bytes_at_middle) (simp add: at)
  moreover have "bytes_at ((small_commands @ ops_bytes hello_ops) @ ?n @ ?s @ ?z) 207 ?n"
    by (rule bytes_at_middle) (simp add: at)
  moreover have "bytes_at ((small_commands @ ops_bytes hello_ops @ ?n) @ ?s @ ?z) 219 ?s"
    by (rule bytes_at_middle) (simp add: at)
  ultimately show "bytes_at small_file 188 (ops_bytes hello_ops)" "bytes_at small_file 207 ?n"
    "bytes_at small_file 219 ?s"
    unfolding small_file_def by (simp_all only: append_assoc)
qed

lemma small_parts_ok: "\<forall>p\<in>set small_parts. part_ok_32 small_file p"
proof -
  have "bytes_at (enc_dylib_command hello_dylib @ (lit ''libz.so'' @ [0]) @ []) 24 (lit ''libz.so'' @ [0])"
    by (rule bytes_at_middle) (simp add: dylib.width)
  then have "part_ok_32 small_file (Q_Library hello_dylib (lit ''libz.so'' @ [0]) (lit ''libz.so''))"
    by (simp add: library_in_def hello_dylib_def) (simp add: lit_def)
  moreover have "part_ok_32 small_file (Q_Binds small_binds hello_ops [])"
    using small_pieces(1) hello_lengths(2) by (simp add: binds_in_def small_binds_def hello_binds_def)
      (simp add: hello_ops_def lit_def ops_bytes_def bytes_at_def)
  moreover have "part_ok_32 small_file (Q_Symbols small_symtab [(example_main_32, lit ''_main'')])"
    using small_pieces(2,3)
    by (simp add: symbols_in_def small_symtab_def hello_symtab_def example_main_32_def INT_MAX_def) (simp add: lit_def)
  ultimately show ?thesis by (simp add: small_parts_def)
qed

lemma small_text: "name_is (segname32 example_text_32) SEG_TEXT" "\<not> name_is (segname32 example_text_32) SEG_PAGEZERO"
  by (simp_all add: example_text_32_def name_is_def SEG_TEXT_def SEG_PAGEZERO_def lit_def)

lemma small_image: "load_image_32 0x200000000 small_parts = small_image"
proof -
  have "vmaddr32 example_text_32 = 0x1000" "vmsize32 example_text_32 = 0x4000" "n_value32 example_main_32 = 0x1F00"
    by (simp_all add: example_text_32_def example_main_32_def)
  then show ?thesis
    by (simp add: load_image_32_def small_parts_def small_text image_step_defs placed_at_def empty_image_def
        small_image_def hello_ops_def init_regs_def emitted_run_def segment_place_def MAIN_SYMBOL_def
        MACH_LOADER_MAX_SEGMENTS_def)
qed

lemma small_layout_ok: "layout_ok_32 small_host (map part_lcmd_32 small_parts) small_layout"
proof -
  have "holds (ly_mem small_layout) 0x1000 (page_filled small_file)"
    unfolding small_fields by (rule map_file_holds) (use small_lengths(3) in simp_all)
  moreover have "mmap_ok small_host (ly_mem small_layout)"
    by (rule example_host_mmap_ok) (simp_all add: small_host_def map_file_def small_fields small_lengths)
  moreover have "alloc_ok small_host" by (simp add: alloc_ok_def small_host_def example_host_def)
  moreover have "one_text_32 (map part_lcmd_32 small_parts)"
    by (auto simp: one_text_32_def small_parts_def is_text_32_def small_text) (simp add: example_text_32_def)
  moreover have "text_size example_text_32 = 0x4000"
    by (simp add: text_size_def example_text_32_def alignMemory_def)
  moreover have "host_mmap small_host m 0x1000 0x4000 = Some 0x200000000" for m
    by (simp add: small_host_def example_host_def)
  moreover have "vmaddr32 example_text_32 = 0x1000" by (simp add: example_text_32_def)
  ultimately show ?thesis
    by (auto simp: layout_ok_32_def small_fields small_lengths small_parts_def)
qed

lemma small_executable: "executable_file_32 small_file small_header (map part_lcmd_32 small_parts)"
  unfolding executable_file_32_def
proof (intro conjI exI)
  show "small_file = enc_mach_header small_header @ concat (map enc_lcmd_32 (map part_lcmd_32 small_parts)) @
      ops_bytes hello_ops @ enc_nlist example_main_32 @ (lit ''_main'' @ [0]) @ replicate 12063 0"
    by (simp add: small_file_def small_commands_def)
  show "\<forall>x\<in>set (map part_lcmd_32 small_parts). wf_lcmd_32 x" using small_wf by (simp only: list_all_iff)
qed (simp_all add: small_header_def example_header_32_def small_parts_def INT_MAX_def macho_consts)

lemma small_program_ok:
  "program_ok_32 small_host [lit ''maloader'', lit ''small''] small_header small_parts small_layout small_image"
proof -
  have ne: "small_file \<noteq> []" using small_lengths(2) by auto
  have host: "host_open small_host f = Some small_file" "host_map_file small_host small_file = Some 0x1000" for f
    using ne by (simp_all add: small_host_def example_host_def)
  have "map_file_ok small_host small_file" by (simp add: map_file_ok_def host small_lengths)
  moreover have "imports_ok small_layout (im_binds small_image)"
    by (simp add: imports_within_def small_image_def small_fields apart_def)
  moreover have "im_addr small_image \<noteq> 0" "im_entry small_image \<noteq> 0"
    "length (im_binds small_image) \<le> INT_MAX" "length (im_libs small_image) + 2 \<le> INT_MAX"
    by (simp_all add: small_image_def INT_MAX_def)
  ultimately show ?thesis
    unfolding program_ok_32_def using small_parts_ok small_layout_ok small_executable small_image
    by (simp add: host small_fields)
qed

text \<open>What its binds are offered, and what their slots hold before.\<close>

lemma small_imports:
  "im_binds small_image ! 0 = (Some (lit ''_gone''), 0x200000008)"
  "im_binds small_image ! 1 = (Some (lit ''_puts''), 0x200000010)" "length (im_binds small_image) = 2"
  "import_value small_host small_image 0 v = v" "import_value small_host small_image 1 v = 0x7100"
  by (simp_all add: import_value_def bound_value_def small_image_def import_names_def small_host_def
        example_host_def take_offer_def offer_def replaced_def strip_underscore_def lit_def)

lemma small_memory:
  "image_memory_32 small_layout 0x200000000 = Some 0xCE" "image_memory_32 small_layout 0x200003000 = Some 0"
  and small_old: "load64 (image_memory_32 small_layout) 0x200000008 = Ok 0x200000003"
proof -
  let ?m = "map_anon (ly_mem small_layout) 0x200000000 0x4000"
  let ?h = "word_bytes 4 MH_MAGIC @ word_bytes 4 (cputype small_header) @ word_bytes 4 (3 :: u32) @ word_bytes 4 (2 :: u32)"
  have header: "magic small_header = MH_MAGIC" "cpusubtype small_header = 3" "filetype small_header = 2"
    by (simp_all add: small_header_def example_header_32_def macho_consts)
  have "\<exists>r. small_file = ?h @ r"
    by (rule exI) (simp only: small_file_def small_commands_def enc_mach_header_def header append_assoc)
  then obtain r where "small_file = ?h @ r" by blast
  then have "text_pages small_layout = take 0x3000 (?h @ r)"
    by (simp add: text_pages_def small_fields page_filled_def small_lengths)
  then have pages: "text_pages small_layout = ?h @ take 0x2FF0 r" by (simp add: take_append)
  have len: "length (text_pages small_layout) = 0x3000"
    by (simp add: text_pages_def small_fields small_lengths)
  have m: "image_memory_32 small_layout = map_file ?m 0x200000000 (text_pages small_layout)"
    by (simp add: image_memory_32_def small_fields)
  have "holds (image_memory_32 small_layout) 0x200000000 (text_pages small_layout)"
    unfolding m by (rule map_file_holds) (simp_all add: len)
  then have h: "holds (image_memory_32 small_layout) 0x200000000 ?h"
    unfolding pages by (simp only: holds_append)
  have "word_bytes 4 (3 :: u32) @ word_bytes 4 (2 :: u32) = word_bytes 8 (0x200000003 :: u64)"
    by (simp add: word_bytes_pos)
  then show "load64 (image_memory_32 small_layout) 0x200000008 = Ok 0x200000003"
    using h by (simp add: holds_append load64_iff)
  have "word_bytes 4 MH_MAGIC = 0xCE # word_bytes 3 (drop_bit 8 MH_MAGIC)"
    by (simp add: word_bytes_pos [of 4] MH_MAGIC_def)
  then show "image_memory_32 small_layout 0x200000000 = Some 0xCE" using h by simp
  show "image_memory_32 small_layout 0x200003000 = Some 0"
    unfolding m by (simp add: map_file_def map_anon_def len)
qed

lemma small_unbound:
  "unbound small_layout small_image 0x200000000" "unbound small_layout small_image 0x200003000"
  by (simp_all add: unbound_def small_image_def small_fields region_def)

text \<open>C2: liveness. A 32-bit file described by its parts, opened on a host that can map it, is
  always started, although \<open>loader\<close> returns \<open>-1\<close> and \<open>main\<close> reports it: that message is the only
  one, nothing faults, and the program is entered at the relocated \<open>_main\<close>. At that moment every
  byte of the address space is accounted for, relative to \<open>image_memory_32\<close>, which is the file, the
  zeroed mapping of the image and the first three pages of the file copied into it: every imported
  pointer above the image start holds, as 8 bytes, what the libraries of the file, then libc and
  libm, offer for its symbol, or the value \<open>v\<close> it has in \<open>image_memory_32\<close> if none of them has the
  symbol; every other byte is that of \<open>image_memory_32\<close>, so in the first three pages of the image
  that of the file, filled up with zeros.\<close>

theorem main_starts_program_32:
  assumes "program_ok_32 h args hdr ps L im"
  shows "\<exists>c. main h args = Ok (Entered [Loader_Failed (-1)] c) \<and>
    entry_point c = im_entry im \<and> img_addr c = ly_img L \<and>
    (\<forall>k < length (im_binds im). ly_img L < snd (im_binds im ! k) \<longrightarrow>
       (\<exists>v. load64 (image_memory_32 L) (snd (im_binds im ! k)) = Ok v \<and>
            load64 (mem c) (snd (im_binds im ! k)) = Ok (import_value h im k v))) \<and>
    (\<forall>a. unbound L im a \<longrightarrow> mem c a = image_memory_32 L a) \<and>
    (\<forall>i < 0x3000. unbound L im (ly_img L + of_nat i) \<longrightarrow>
       mem c (ly_img L + of_nat i) = Some (page_filled (ly_bytes L) ! i))"
  using main_program_32 [OF assms] by blast

lemma main_starts_program_32_witness:
  "\<exists>c. main small_host [lit ''maloader'', lit ''small''] = Ok (Entered [Loader_Failed (-1)] c) \<and>
    entry_point c = 0x200000F00 \<and> load64 (mem c) 0x200000008 = Ok 0x200000003 \<and>
    load64 (mem c) 0x200000010 = Ok 0x7100 \<and>
    mem c 0x200000000 = Some 0xCE \<and> mem c 0x200003000 = Some 0"
proof -
  let ?im = small_image
  obtain c where c: "main small_host [lit ''maloader'', lit ''small''] = Ok (Entered [Loader_Failed (-1)] c)"
    "entry_point c = im_entry ?im"
    and bound: "\<forall>k < length (im_binds ?im). ly_img small_layout < snd (im_binds ?im ! k) \<longrightarrow>
       (\<exists>v. load64 (image_memory_32 small_layout) (snd (im_binds ?im ! k)) = Ok v \<and>
            load64 (mem c) (snd (im_binds ?im ! k)) = Ok (import_value small_host ?im k v))"
    and bytes: "\<forall>a. unbound small_layout ?im a \<longrightarrow> mem c a = image_memory_32 small_layout a"
    using main_starts_program_32 [OF small_program_ok] by blast
  have "load64 (mem c) 0x200000008 = Ok 0x200000003"
    using bound [rule_format, of 0] small_old small_imports by (simp add: small_fields)
  moreover have "load64 (mem c) 0x200000010 = Ok 0x7100"
    using bound [rule_format, of 1] small_imports by (simp add: small_fields)
  moreover have "mem c 0x200000000 = Some 0xCE" "mem c 0x200003000 = Some 0"
    using bytes small_unbound small_memory by simp_all
  ultimately show ?thesis using c by (simp add: small_image_def)
qed

end
