(* ===== verification/Mal_Wellformed32.thy ===== *)
theory Mal_Wellformed32
  imports Mal_Wellformed Mal_Program32
begin

unbundle bit_operations_syntax

text \<open>
  The typing invariant of the 32-bit loader. \<open>load_segment\<close> maps every \<open>__TEXT\<close> segment it
  meets, so a file may have several images; an address in the segment table is relative to the
  last \<open>__TEXT\<close> entry before it.

  \<^item> \<open>placed_entry\<close>: an entry is null, or at the distance its \<open>vmaddr\<close> has from that of the
    last \<open>__TEXT\<close> entry, whose first three pages are mapped.
  \<^item> It holds from the start of \<open>main\<close> to the jump, for any file: the locale \<open>table_walk\<close> for
    this loader.
\<close>

section \<open>The invariant\<close>

abbreviation text_entry :: "segment_info \<Rightarrow> bool" where
  "text_entry s \<equiv> name_is (seg_name s) SEG_TEXT"

text \<open>The last \<open>__TEXT\<close> entry of a table.\<close>

definition last_text :: "segment_info list \<Rightarrow> segment_info option" where
  "last_text ss = List.find text_entry (rev ss)"

definition placed_entry :: "mach_context \<Rightarrow> nat \<Rightarrow> bool" where
  "placed_entry c i \<longleftrightarrow> mapped_addr (segments c ! i) = 0 \<or>
     (\<exists>t. last_text (take (Suc i) (segments c)) = Some t \<and> mapped (mem c) (mapped_addr t) 0x3000 \<and>
       mapped_addr (segments c ! i) = mapped_addr t + (seg_vmaddr (segments c ! i) - seg_vmaddr t))"

text \<open>While there is room in the table, the current image is that of its last \<open>__TEXT\<close> entry.\<close>

definition current_image :: "mach_context \<Rightarrow> bool" where
  "current_image c \<longleftrightarrow> n_segment_info c < MACH_LOADER_MAX_SEGMENTS \<longrightarrow> img_addr c = 0 \<or>
     (\<exists>t. last_text (take (n_segment_info c) (segments c)) = Some t \<and> mapped (mem c) (img_addr c) 0x3000 \<and>
       mapped_addr t = img_addr c \<and> seg_vmaddr t = v_addr c)"

definition placed_context :: "mach_context \<Rightarrow> bool" where
  "placed_context c \<longleftrightarrow> ctx_ok c \<and> current_image c \<and> (\<forall>i < n_segment_info c. placed_entry c i)"

lemma last_text_snoc: "last_text (ss @ [s]) = (if text_entry s then Some s else last_text ss)"
  by (simp add: last_text_def)

lemma text_not_pagezero: "name_is name SEG_TEXT \<Longrightarrow> \<not> name_is name SEG_PAGEZERO"
proof
  assume t: "name_is name SEG_TEXT" and z: "name_is name SEG_PAGEZERO"
  have "name ! 2 = 84" "name ! 2 = 80"
    using t [unfolded name_is_def, THEN arg_cong, of "\<lambda>xs. xs ! 2"] z [unfolded name_is_def, THEN arg_cong, of "\<lambda>xs. xs ! 2"]
    by (simp_all add: SEG_TEXT_def SEG_PAGEZERO_def lit_def)
  then show False by simp
qed

lemma placed_start:
  "n_segment_info c = 0 \<Longrightarrow> ctx_ok c \<Longrightarrow> img_addr c = 0 \<Longrightarrow> placed_context c"
  by (simp add: placed_context_def current_image_def)

lemma placed_same_table:
  assumes same: "same_table c c'" and ext: "extends c c'" and c: "placed_context c"
  shows "placed_context c'"
proof -
  have ok: "ctx_ok c'" using ext c by (simp add: placed_context_def extends_def)
  have mem: "mapped (mem c) p n \<Longrightarrow> mapped (mem c') p n" for p n using ext by (rule extends_mapped)
  have t: "img_addr c' = img_addr c" "v_addr c' = v_addr c" "n_segment_info c' = n_segment_info c"
    "segments c' = segments c" using same by (simp_all add: same_table_def)
  have "current_image c'" using c mem unfolding placed_context_def current_image_def t by blast
  moreover have "placed_entry c' i" if "i < n_segment_info c'" for i
    using c mem that unfolding placed_context_def placed_entry_def t by blast
  ultimately show ?thesis using ok by (simp add: placed_context_def)
qed

section \<open>Recording a segment\<close>

lemma placed_record:
  assumes ok: "ctx_ok c" and len: "length name = 16" and old: "\<forall>i < n_segment_info c. placed_entry c i"
    and image: "name_is name SEG_TEXT \<Longrightarrow> mapped (mem c) (img_addr c) 0x3000 \<and> v_addr c = va"
    and other: "\<not> name_is name SEG_TEXT \<Longrightarrow> current_image c"
  shows "placed_context (record_segment c name va sz)"
proof (cases "n_segment_info c < MACH_LOADER_MAX_SEGMENTS")
  case False
  then show ?thesis using ok old by (simp add: record_segment_def placed_context_def current_image_def)
next
  case True
  let ?c = "record_segment c name va sz" and ?n = "n_segment_info c"
  let ?s = "\<lparr>seg_name = name, seg_vmaddr = va, seg_vmsize = sz, mapped_addr = segment_mapped_addr c name va\<rparr>"
  have n: "?n < length (segments c)" using True ok by (simp add: ctx_ok_def)
  have segs: "segments ?c = (segments c)[?n := ?s]" and count: "n_segment_info ?c = Suc ?n"
    using True by (simp_all add: record_segment_def)
  have same: "mem ?c = mem c" "img_addr ?c = img_addr c" "v_addr ?c = v_addr c" by simp_all
  have take: "take (Suc ?n) (segments ?c) = take ?n (segments c) @ [?s]"
    using n by (simp add: segs take_Suc_conv_app_nth)
  then have last: "last_text (take (Suc ?n) (segments ?c)) =
      (if name_is name SEG_TEXT then Some ?s else last_text (take ?n (segments c)))"
    by (simp add: last_text_snoc)
  have placed: "placed_entry ?c i" if "i < ?n" for i
  proof -
    have "segments ?c ! i = segments c ! i" "take (Suc i) (segments ?c) = take (Suc i) (segments c)"
      using that by (simp_all add: segs)
    then show ?thesis using old that by (simp add: placed_entry_def same)
  qed
  have new: "segments ?c ! ?n = ?s" using n by (simp add: segs)
  have now: "current_image ?c \<and> placed_entry ?c ?n"
  proof (cases "name_is name SEG_TEXT")
    case True
    then have "mapped_addr ?s = img_addr c" using text_not_pagezero by (simp add: segment_mapped_addr_def)
    then show ?thesis using True image last by (simp add: current_image_def placed_entry_def count same new)
  next
    case False
    have "placed_entry ?c ?n"
    proof (cases "mapped_addr ?s = 0")
      case True
      then show ?thesis by (simp add: placed_entry_def new)
    next
      case img: False
      then have "img_addr c \<noteq> 0" "mapped_addr ?s = img_addr c + (va - v_addr c)"
        using False by (simp_all add: segment_mapped_addr_def split: if_splits)
      then show ?thesis using other [OF False] False last True by (auto simp: placed_entry_def new same current_image_def)
    qed
    then show ?thesis using other [OF False] False last True by (simp add: current_image_def count same)
  qed
  have "ctx_ok ?c" using ok extends_ok [OF record_segment_extends [OF len]] by blast
  then show ?thesis using placed now by (simp add: placed_context_def count less_Suc_eq)
qed

text \<open>Mapping a \<open>__TEXT\<close> segment: the old entries stay placed, and the new image has its pages.\<close>

lemma map_text_32_image:
  assumes "map_text_32 h s c = Ok c1" and "name_is (segname32 s) SEG_TEXT"
  shows "mapped (mem c1) (img_addr c1) 0x3000 \<and> v_addr c1 = ucast (vmaddr32 s) \<and>
    n_segment_info c1 = n_segment_info c \<and> segments c1 = segments c"
proof -
  obtain m a m' where m': "memcpy m a (memblock c) 0x3000 = Ok m'"
    and c1: "c1 = c\<lparr>mem := m', img_addr := a, v_addr := ucast (vmaddr32 s)\<rparr>"
    using assms by (auto simp: map_text_32_def Let_def res_bind_eq_Ok split: option.splits)
  have "mapped m a 0x3000" using m' memcpy_total [of m a "memblock c" "0x3000"] by (auto simp: is_ok_iff)
  then have "mapped m' a 0x3000"
    by (rule mapped_dom_cong [THEN iffD1, rotated]) (use memcpy_dom [OF m'] in \<open>metis domIff\<close>)
  then show ?thesis by (simp add: c1)
qed

lemma placed_segment: "load_segment h c = Ok (n, c') \<Longrightarrow> placed_context c \<Longrightarrow> placed_context c'"
proof -
  assume run: "load_segment h c = Ok (n, c')" and c: "placed_context c"
  obtain s c1 where len: "length (segname32 s) = 16" and c1: "map_text_32 h s c = Ok c1"
    and c': "c' = record_segment c1 (segname32 s) (ucast (vmaddr32 s)) (ucast (vmsize32 s))"
    using run by (auto simp: load_segment_def res_bind_eq_Ok sc32.dec_iff wf_segment_command_def)
  note ext = map_text_32_extends [OF c1]
  have table: "n_segment_info c1 = n_segment_info c" "segments c1 = segments c"
    using c1 map_text_32_image [OF c1] by (auto simp: map_text_32_def split: if_splits)
  have "placed_entry c1 i" if "i < n_segment_info c1" for i
    using c that extends_mapped [OF ext] unfolding placed_context_def placed_entry_def table by blast
  moreover have "ctx_ok c1" using c extends_ok [OF ext] by (simp add: placed_context_def)
  moreover have "current_image c1" if "\<not> name_is (segname32 s) SEG_TEXT"
    using c c1 that by (simp add: map_text_32_def placed_context_def)
  ultimately show "placed_context c'"
    unfolding c' using len map_text_32_image [OF c1] by (intro placed_record) auto
qed

section \<open>The whole walk\<close>

lemma symtab_32_same_table [same_tables]: "load_symtab_32 c = Ok c' \<Longrightarrow> same_table c c'"
  by (auto simp: load_symtab_32_def res_bind_eq_Ok same_table_def only_entry_def dest!: run_symtab_32_entry)

lemma other_command_32_same_table [same_tables]: "other_command_32 h k c = Ok c' \<Longrightarrow> same_table c c'"
  by (auto simp: other_command_32_def res_bind_eq_Ok split: if_splits dest: same_tables)

interpretation sections_same_32: framed_op same_table "\<lambda>_ :: nat. section_step_32"
  by unfold_locales (auto simp: section_step_32_def res_bind_eq_Ok intro: same_table_trans)

lemma load_step_32_cases:
  assumes run: "load_step_32 h c = Ok c'"
  shows "(\<exists>n d. load_segment h c = Ok (n, d) \<and> same_table d c' \<and> extends d c') \<or> same_table c c' \<and> extends c c'"
proof -
  have sections: "same_table d e \<and> extends d e"
    if "for_upto 0 n (\<lambda>_. section_step_32) (d\<lparr>ptr := q\<rparr>) = Ok e" for n d q e
    using sections_same_32.loop_R [OF that] sections32.loop_R [OF that] extends_ptr_before by simp
  obtain command where cmd: "read_segment_command (mem c) (ptr c) = Ok command"
    using run by (auto simp: load_step_32_def res_bind_eq_Ok)
  show ?thesis
  proof (cases "cmd command = LC_SEGMENT")
    case True
    then obtain n d where d: "load_segment h c = Ok (n, d)"
      and rest: "(if n \<noteq> 0 then for_upto 0 (nat n) (\<lambda>_. section_step_32) (d\<lparr>ptr := ptr d + 56\<rparr>)
        else Ok (d\<lparr>ptr := ptr d + ucast (cmdsize command)\<rparr>)) = Ok c'"
      using run cmd by (auto simp: load_step_32_def res_bind_eq_Ok)
    then have "same_table d c' \<and> extends d c'" using sections by (cases "n = 0") auto
    then show ?thesis using d by blast
  next
    case False
    then obtain d where d: "other_command_32 h (cmd command) c = Ok d"
      and c': "c' = d\<lparr>ptr := ptr d + ucast (cmdsize command)\<rparr>"
      using run cmd by (auto simp: load_step_32_def res_bind_eq_Ok)
    show ?thesis
      using other_command_32_same_table [OF d] extends_ptr_after [OF other_command_32_extends [OF d]]
      by (simp add: c')
  qed
qed

interpretation wf32: table_walk "load_segment h" "load_step_32 h" placed_context
  by unfold_locales (blast intro: placed_same_table placed_segment dest: load_step_32_cases)+

lemma placed_loader: "loader h c = Ok (r, c') \<Longrightarrow> placed_context c \<Longrightarrow> placed_context c'"
  by (auto simp: loader_def Let_def res_bind_eq_Ok wf32.inv_ptr split: if_splits
      dest!: wf32.walk.kept.loop_R [where g = "\<lambda>i. i"])

text \<open>C8: type. Whenever \<open>main\<close> enters a 32-bit program, whatever the file holds, its context is
  well-typed: the tables are within their bounds, and every recorded segment is null or lies, as
  far as its \<open>vmaddr\<close> says, from the last \<open>__TEXT\<close> segment recorded before it (itself included),
  of whose image at least three pages are mapped.\<close>

theorem main_context_typed_32:
  assumes run: "main h args = Ok (Entered ds c)" and "bit_width c = 32"
  shows "ctx_ok c \<and> (\<forall>i < n_segment_info c. let s = segments c ! i in
    mapped_addr s = 0 \<or> (\<exists>t. last_text (take (Suc i) (segments c)) = Some t \<and>
      mapped (mem c) (mapped_addr t) 0x3000 \<and> mapped_addr s = mapped_addr t + (seg_vmaddr s - seg_vmaddr t)))"
proof -
  let ?c0 = "(zero_context Map.empty)\<lparr>argc := int (length args) - 1, argv := tl args\<rparr>"
  obtain c1 c2 b r c3 r' where op: "openExec h (args ! 1) ?c0 = Ok c1"
    and bit: "determineBit (mem c1) (memblock c1) = Ok b" and c2: "c2 = c1\<lparr>bit_width := b\<rparr>"
    and ld: "(if drop_bit 6 b = 0 then loader h c2 else loader_64 h c2) = Ok (r, c3)"
    and bnd: "do_bind h c3 = Ok (r', c)"
    using run by (rule main_entered)
  have "extends c2 c"
    using ld loader_extends [of h c2 r c3] loader_64_extends [of h c2 r c3] do_bind_frame [OF bnd]
      extends_trans [of c2 c3 c] by (auto split: if_splits)
  then have "b = 32" using assms(2) by (simp add: extends_def c2)
  then have "loader h c2 = Ok (r, c3)" using ld by simp
  moreover have "placed_context c2"
    using op zero_context_ok [of Map.empty]
    by (intro placed_start) (auto simp: openExec_Ok c2 ctx_ok_def zero_context_def)
  ultimately have "placed_context c3" by (rule placed_loader)
  then have "placed_context c" using placed_same_table do_bind_same_table [OF bnd] do_bind_frame [OF bnd] by blast
  then show ?thesis by (simp add: placed_context_def placed_entry_def Let_def)
qed

lemma main_context_typed_32_witness:
  "\<exists>c. main small_host [lit ''maloader'', lit ''small''] = Ok (Entered [Loader_Failed (-1)] c) \<and> ctx_ok c \<and>
    (\<forall>i < n_segment_info c. let s = segments c ! i in
    mapped_addr s = 0 \<or> (\<exists>t. last_text (take (Suc i) (segments c)) = Some t \<and>
      mapped (mem c) (mapped_addr t) 0x3000 \<and> mapped_addr s = mapped_addr t + (seg_vmaddr s - seg_vmaddr t)))"
proof -
  obtain c where run: "main small_host [lit ''maloader'', lit ''small''] = Ok (Entered [Loader_Failed (-1)] c)"
    and "bit_width c = 32"
    using main_program_32 [OF small_program_ok] by blast
  from main_context_typed_32 [OF this] run show ?thesis by blast
qed

end
