(* ===== verification/Mal_Shims.thy ===== *)
theory Mal_Shims
  imports Mal_Resolver
begin

unbundle bit_operations_syntax

text \<open>
  The bodies of the functions of \<^verbatim>\<open>bind.c\<close> that a loaded program may call through its imports.
  What they use of libc is the record \<open>libc_env\<close>: the addresses of \<open>errno\<close> and \<open>environ\<close>, and
  libc's own \<open>atexit\<close>, a function from the handler and libc's state (of any type \<open>'l\<close>) to its
  result and the next state. The runtime is the memory and libc's state.

  \<^item> \<open>call_shim\<close>: one call, with its value; \<open>run_calls\<close>: a program's calls in order.
  \<^item> \<open>run_calls_total\<close>: the calls never fault when their destinations are mapped, each returns its
    own value whatever the others do, and only \<open>memset_pattern16\<close> and \<open>guard\<close> write to memory.
\<close>

section \<open>The functions\<close>

record 'l libc_env =
  errno_location :: addr
  environ_location :: addr
  guard_location :: addr
  libc_atexit :: "addr \<Rightarrow> 'l \<Rightarrow> int \<times> 'l"

record 'l runtime =
  rt_mem :: memory
  rt_libc :: 'l

definition mal_atexit :: "'l libc_env \<Rightarrow> addr \<Rightarrow> 'l runtime \<Rightarrow> int \<times> 'l runtime" where
  "mal_atexit e func s = (let (r, l) = libc_atexit e func (rt_libc s) in (r, s\<lparr>rt_libc := l\<rparr>))"

definition mal_darwin_error :: "'l libc_env \<Rightarrow> addr" where
  "mal_darwin_error e = errno_location e"

definition mal_NSGetEnviron :: "'l libc_env \<Rightarrow> addr" where
  "mal_NSGetEnviron e = environ_location e"

definition mal_chkstk_darwin :: "'l runtime \<Rightarrow> 'l runtime" where
  "mal_chkstk_darwin s = s"

definition mal_darwin_check_fd_set_overflow :: "int \<Rightarrow> addr \<Rightarrow> int \<Rightarrow> int" where
  "mal_darwin_check_fd_set_overflow fd fds wr = 0"

text \<open>\<open>__stack_chk_guard\<close> is an array of eight \<open>long\<close>.\<close>

definition guard :: "'l libc_env \<Rightarrow> 'l runtime \<Rightarrow> 'l runtime res" where
  "guard e s = res_bind (store64 (rt_mem s) (guard_location e) 1) (\<lambda>m. Ok (s\<lparr>rt_mem := m\<rparr>))"

section \<open>Calls\<close>

datatype shim_call =
    Call_Atexit addr
  | Call_Error
  | Call_NSGetEnviron
  | Call_Chkstk
  | Call_Check_Fd_Set int addr int
  | Call_Memset_Pattern16 addr addr nat
  | Call_Guard

datatype shim_value = Int_Value int | Address addr | No_Value

fun call_shim :: "'l libc_env \<Rightarrow> shim_call \<Rightarrow> 'l runtime \<Rightarrow> (shim_value \<times> 'l runtime) res" where
  "call_shim e (Call_Atexit func) s = (let (r, s') = mal_atexit e func s in Ok (Int_Value r, s'))"
| "call_shim e Call_Error s = Ok (Address (mal_darwin_error e), s)"
| "call_shim e Call_NSGetEnviron s = Ok (Address (mal_NSGetEnviron e), s)"
| "call_shim e Call_Chkstk s = Ok (No_Value, mal_chkstk_darwin s)"
| "call_shim e (Call_Check_Fd_Set fd fds wr) s = Ok (Int_Value (mal_darwin_check_fd_set_overflow fd fds wr), s)"
| "call_shim e (Call_Memset_Pattern16 dst pat len) s =
     res_bind (mal_memset_pattern16 dst pat len (rt_mem s)) (\<lambda>m. Ok (No_Value, s\<lparr>rt_mem := m\<rparr>))"
| "call_shim e Call_Guard s = res_bind (guard e s) (\<lambda>s'. Ok (No_Value, s'))"

fun run_calls :: "'l libc_env \<Rightarrow> shim_call list \<Rightarrow> 'l runtime \<Rightarrow> (shim_value list \<times> 'l runtime) res" where
  "run_calls e [] s = Ok ([], s)"
| "run_calls e (c # cs) s =
     res_bind (call_shim e c s) (\<lambda>(v, s1). res_bind (run_calls e cs s1) (\<lambda>(vs, s2). Ok (v # vs, s2)))"

section \<open>What calls may change\<close>

definition dest :: "addr \<Rightarrow> nat \<Rightarrow> addr set" where
  "dest p n = {p + of_nat i | i. i < n}"

fun written :: "'l libc_env \<Rightarrow> shim_call \<Rightarrow> addr set" where
  "written e (Call_Memset_Pattern16 dst pat len) = dest dst len"
| "written e Call_Guard = region (guard_location e) 8"
| "written e c = {}"

text \<open>The value of a call and libc's next state, without the memory.\<close>

fun call_value :: "'l libc_env \<Rightarrow> shim_call \<Rightarrow> 'l \<Rightarrow> shim_value \<times> 'l" where
  "call_value e (Call_Atexit func) l = (let (r, l') = libc_atexit e func l in (Int_Value r, l'))"
| "call_value e Call_Error l = (Address (errno_location e), l)"
| "call_value e Call_NSGetEnviron l = (Address (environ_location e), l)"
| "call_value e (Call_Check_Fd_Set fd fds wr) l = (Int_Value 0, l)"
| "call_value e c l = (No_Value, l)"

fun call_values :: "'l libc_env \<Rightarrow> shim_call list \<Rightarrow> 'l \<Rightarrow> shim_value list \<times> 'l" where
  "call_values e [] l = ([], l)"
| "call_values e (c # cs) l = (case call_value e c l of (v, l1) \<Rightarrow>
     case call_values e cs l1 of (vs, l2) \<Rightarrow> (v # vs, l2))"

fun call_ready :: "'l libc_env \<Rightarrow> memory \<Rightarrow> shim_call \<Rightarrow> bool" where
  "call_ready e m (Call_Memset_Pattern16 dst pat len) \<longleftrightarrow> mapped m dst len \<and> mapped m pat 16"
| "call_ready e m Call_Guard \<longleftrightarrow> mapped m (guard_location e) 8"
| "call_ready e m c \<longleftrightarrow> True"

lemma mapped_same_dom: "dom m' = dom m \<Longrightarrow> mapped m' p n = mapped m p n"
  by (rule mapped_dom_cong) (metis domIff)

lemma mal_memset_pattern16_total:
  assumes dst: "mapped m dst len" and pat: "mapped m pat 16"
  shows "\<exists>m'. mal_memset_pattern16 dst pat len m = Ok m' \<and> dom m' = dom m \<and> (\<forall>a. a \<notin> dest dst len \<longrightarrow> m' a = m a)"
  unfolding mal_memset_pattern16_def
proof (rule for_upto_total [where P = "\<lambda>_ t. dom t = dom m \<and> (\<forall>a. a \<notin> dest dst len \<longrightarrow> t a = m a)"])
  fix i t assume i: "i < len" and t: "dom t = dom m \<and> (\<forall>a. a \<notin> dest dst len \<longrightarrow> t a = m a)"
  have t_dst: "mapped t dst len" and t_pat: "mapped t pat 16" using t dst pat mapped_same_dom by blast+
  have "(of_nat i AND 15 :: addr) = of_nat (i mod 16)" by (rule and_15)
  then have "mapped t (pat + (of_nat i AND 15)) 1"
    using mapped_offset [OF t_pat, of "i mod 16" 1] by simp
  then obtain b where b: "load8 t (pat + (of_nat i AND 15)) = Ok b" by (auto simp: load8_def)
  have "mapped t (dst + of_nat i) 1" using mapped_offset [OF t_dst, of i 1] i by simp
  then obtain t' where t': "store_bytes t (dst + of_nat i) [b] = Ok t'" by auto
  moreover have "t' a = m a" if "a \<notin> dest dst len" for a
  proof -
    have "a \<noteq> dst + of_nat i" using that i by (auto simp: dest_def)
    then show ?thesis using t' t that by (auto split: if_splits)
  qed
  moreover have "dom t' = dom m" using store_bytes_dom [OF t'] t by simp
  ultimately show "\<exists>t'. res_bind (load8 t (pat + (of_nat i AND 15))) (\<lambda>b. store_bytes t (dst + of_nat i) [b]) = Ok t' \<and>
      dom t' = dom m \<and> (\<forall>a. a \<notin> dest dst len \<longrightarrow> t' a = m a)"
    using b by auto
qed simp_all

lemma call_shim_total:
  assumes "call_ready e (rt_mem s) c"
  shows "\<exists>m. call_shim e c s = Ok (fst (call_value e c (rt_libc s)), \<lparr>rt_mem = m, rt_libc = snd (call_value e c (rt_libc s))\<rparr>) \<and>
    dom m = dom (rt_mem s) \<and> (\<forall>a. a \<notin> written e c \<longrightarrow> m a = rt_mem s a)"
proof (cases c)
  case (Call_Memset_Pattern16 dst pat len)
  then obtain m where "mal_memset_pattern16 dst pat len (rt_mem s) = Ok m" "dom m = dom (rt_mem s)"
    "\<forall>a. a \<notin> dest dst len \<longrightarrow> m a = rt_mem s a"
    using assms mal_memset_pattern16_total [of "rt_mem s" dst len pat] by auto
  then show ?thesis using Call_Memset_Pattern16 by (cases s) simp
next
  case Call_Guard
  then obtain m where m: "store64 (rt_mem s) (guard_location e) 1 = Ok m"
    using assms store64_total [of "rt_mem s" "guard_location e" 1] by (auto simp: is_ok_iff)
  then show ?thesis using Call_Guard store64_dom [OF m] store64_other [OF m] by (cases s) (simp add: guard_def)
qed (cases s; simp add: mal_atexit_def mal_chkstk_darwin_def mal_darwin_error_def mal_NSGetEnviron_def
    mal_darwin_check_fd_set_overflow_def split: prod.split)+

lemma call_ready_dom: "dom m' = dom m \<Longrightarrow> call_ready e m' c = call_ready e m c"
  using mapped_same_dom [of m' m] by (cases c) simp_all

text \<open>A loaded program that calls these functions in any order, with its destinations mapped, gets
  the values of the calls, libc sees its handlers in the order of the calls, and no byte outside
  the destinations changes.\<close>

lemma run_calls_total:
  assumes "\<forall>c\<in>set cs. call_ready e (rt_mem s) c"
  shows "\<exists>m. run_calls e cs s = Ok (fst (call_values e cs (rt_libc s)), \<lparr>rt_mem = m, rt_libc = snd (call_values e cs (rt_libc s))\<rparr>) \<and>
    dom m = dom (rt_mem s) \<and> (\<forall>a. (\<forall>c\<in>set cs. a \<notin> written e c) \<longrightarrow> m a = rt_mem s a)"
  using assms
proof (induction cs arbitrary: s)
  case Nil
  then show ?case by (cases s) simp
next
  case (Cons c cs)
  let ?l = "snd (call_value e c (rt_libc s))"
  obtain m where m: "call_shim e c s = Ok (fst (call_value e c (rt_libc s)), \<lparr>rt_mem = m, rt_libc = ?l\<rparr>)"
    "dom m = dom (rt_mem s)" "\<forall>a. a \<notin> written e c \<longrightarrow> m a = rt_mem s a"
    using call_shim_total [of e s c] Cons.prems by auto
  have "\<forall>c\<in>set cs. call_ready e m c" using Cons.prems call_ready_dom [OF m(2)] by auto
  then obtain m' where "run_calls e cs \<lparr>rt_mem = m, rt_libc = ?l\<rparr> =
      Ok (fst (call_values e cs ?l), \<lparr>rt_mem = m', rt_libc = snd (call_values e cs ?l)\<rparr>)"
    "dom m' = dom m" "\<forall>a. (\<forall>c\<in>set cs. a \<notin> written e c) \<longrightarrow> m' a = m a"
    using Cons.IH [of "\<lparr>rt_mem = m, rt_libc = ?l\<rparr>"] by auto
  then show ?case using m by (simp add: split_beta)
qed

end
