(* ===== verification/Mal_Print.thy ===== *)
theory Mal_Print
  imports Mal_Segments
begin

unbundle bit_operations_syntax

text \<open>
  What the loader prints about segments and binds: \<open>printf\<close> for the conversions that
  \<^verbatim>\<open>src/main.c\<close> and \<^verbatim>\<open>src/bind.c\<close> use, on top of it \<open>print_segment_64\<close>, \<open>print_segment\<close> and
  \<open>print_bind_list\<close>. Output that C leaves undefined (a string that is not terminated inside its
  object, a conversion without its argument) is \<open>None\<close>.

  \<^item> \<open>digits_inject\<close>: a number is determined by its digits.
  \<^item> \<open>line_eq\<close>: text without newlines is determined by the line it is on; so the printed text
    determines the fields of a segment and the entries of a bind list.
\<close>

section \<open>Numbers\<close>

fun digits :: "nat \<Rightarrow> nat \<Rightarrow> nat list" where
  "digits b n = (if b < 2 \<or> n < b then [n] else digits b (n div b) @ [n mod b])"

declare digits.simps [simp del]

text \<open>\<open>0\<close> to \<open>9\<close>, then \<open>a\<close> to \<open>f\<close>.\<close>

definition digit_char :: "nat \<Rightarrow> byte" where
  "digit_char d = (if d < 10 then 48 + of_nat d else 87 + of_nat d)"

definition digit_text :: "nat \<Rightarrow> nat \<Rightarrow> cstr" where
  "digit_text b n = map digit_char (digits b n)"

definition show_hex :: "nat \<Rightarrow> cstr" where
  "show_hex n = digit_text 16 n"

definition show_dec :: "int \<Rightarrow> cstr" where
  "show_dec i = (if i < 0 then 45 # digit_text 10 (nat (- i)) else digit_text 10 (nat i))"

lemma digits_value: "2 \<le> b \<Longrightarrow> foldl (\<lambda>a d. a * b + d) 0 (digits b n) = n"
  by (induction b n rule: digits.induct) (subst digits.simps, simp)

lemma digits_inject: "2 \<le> b \<Longrightarrow> digits b n = digits b k \<longleftrightarrow> n = k"
  using digits_value by metis

lemma digits_below: "2 \<le> b \<Longrightarrow> d \<in> set (digits b n) \<Longrightarrow> d < b"
  by (induction b n rule: digits.induct) (subst (asm) (2) digits.simps, auto split: if_splits)

lemma unat_digit_char: "d < 16 \<Longrightarrow> unat (digit_char d) = (if d < 10 then 48 + d else 87 + d)"
  by (simp add: digit_char_def unat_word_ariths unat_of_nat)

lemma digit_char_inj: "inj_on digit_char {..<16}"
proof (rule inj_onI)
  fix d e assume d: "d \<in> {..<16}" "e \<in> {..<16}" and "digit_char d = digit_char e"
  then have "unat (digit_char d) = unat (digit_char e)" by simp
  then have "(if d < 10 then 48 + d else 87 + d) = (if e < 10 then 48 + e else 87 + e)"
    using d unat_digit_char by (metis lessThan_iff)
  then show "d = e" by (simp split: if_splits)
qed

lemma digit_text_inject:
  assumes "2 \<le> b" "b \<le> 16"
  shows "digit_text b n = digit_text b k \<longleftrightarrow> n = k"
proof -
  have "set (digits b n) \<union> set (digits b k) \<subseteq> {..<16}"
    using digits_below [OF assms(1)] assms(2) by fastforce
  then show ?thesis
    unfolding digit_text_def
    using inj_on_map_eq_map [OF inj_on_subset [OF digit_char_inj]] digits_inject [OF assms(1)] by blast
qed

lemma digit_text_chars:
  assumes "2 \<le> b" "b \<le> 16" and "x \<in> set (digit_text b n)"
  shows "46 < unat x"
proof -
  obtain d where d: "d \<in> set (digits b n)" "x = digit_char d" using assms(3) by (auto simp: digit_text_def)
  then have "d < 16" using digits_below [OF assms(1)] assms(2) by fastforce
  then show ?thesis using d(2) by (simp add: unat_digit_char)
qed

lemma show_hex_chars [simp]: "10 \<notin> set (show_hex n)" "44 \<notin> set (show_hex n)"
  using digit_text_chars [of 16 10 n] digit_text_chars [of 16 44 n] by (auto simp: show_hex_def)

lemma digit_text_minus: "digit_text 10 n \<noteq> 45 # xs"
  using digit_text_chars [of 10 45 n] by auto

lemma show_dec_chars [simp]: "10 \<notin> set (show_dec i)"
  using digit_text_chars [of 10 10] by (auto simp: show_dec_def)

lemma show_hex_inject [simp]: "show_hex n = show_hex k \<longleftrightarrow> n = k"
  by (simp add: show_hex_def digit_text_inject)

lemma show_dec_inject [simp]: "show_dec i = show_dec j \<longleftrightarrow> i = j"
  by (auto simp: show_dec_def digit_text_inject digit_text_minus digit_text_minus [symmetric])

section \<open>printf\<close>

text \<open>
  The arguments of a call: an integer of 32 or of 64 bits (or a pointer), or the characters a
  pointer leads to.
  \<open>conversion\<close> reads the conversion after a percent sign: the text printed, the length of the
  conversion, the arguments left. On the LP64 targets an \<open>unsigned int\<close> is passed in a slot of 64
  bits, filled with zeros, so \<open>%lx\<close> prints it as \<open>%x\<close> does.
\<close>

definition show_pointer :: "addr \<Rightarrow> cstr" where
  "show_pointer p = (if p = 0 then lit ''(nil)'' else lit ''0x'' @ show_hex (unat p))"

datatype arg = A_Int u32 | A_Long u64 | A_String cstr

definition conversion :: "string \<Rightarrow> arg list \<Rightarrow> (cstr \<times> nat \<times> arg list) option" where
  "conversion cs as =
     (case as of
        [] \<Rightarrow> None
      | A_Int w # as' \<Rightarrow>
          if take 1 cs = ''x'' then Some (show_hex (unat w), 1, as')
          else if take 2 cs = ''lx'' then Some (show_hex (unat w), 2, as')
          else if take 1 cs = ''d'' then Some (show_dec (sint w), 1, as')
          else if take 1 cs = ''u'' then Some (show_dec (uint w), 1, as')
          else None
      | A_Long w # as' \<Rightarrow>
          if take 3 cs = ''llx'' then Some (show_hex (unat w), 3, as')
          else if take 1 cs = ''p'' then Some (show_pointer w, 1, as')
          else None
      | A_String s # as' \<Rightarrow> if take 1 cs = ''s'' then Some (s, 1, as') else None)"

function printf :: "string \<Rightarrow> arg list \<Rightarrow> cstr option" where
  "printf [] as = Some []"
| "printf (c # cs) as =
     (if c = CHR ''%'' then
        (case conversion cs as of
           None \<Rightarrow> None
         | Some (out, n, as') \<Rightarrow> map_option ((@) out) (printf (drop n cs) as'))
      else map_option ((#) (of_char c)) (printf cs as))"
  by pat_completeness auto
termination by (relation "measure (length \<circ> fst)") (auto simp: less_Suc_eq_le)

section \<open>Segments\<close>

text \<open>The characters from an offset of an object on; undefined when the object has no zero byte there.\<close>

definition chars_from :: "byte list \<Rightarrow> nat \<Rightarrow> cstr option" where
  "chars_from bs i = (if 0 \<in> set (drop i bs) then Some (takeWhile (\<lambda>b. b \<noteq> 0) (drop i bs)) else None)"

definition segment_format_64 :: string where
  "segment_format_64 = ''cmd:0x%x\<newline>cmdsize:0x%x\<newline>segname:%s\<newline>vmaddr:0x%llx\<newline>vmsize:0x%llx\<newline>fileoff:0x%llx\<newline>filesize:0x%llx\<newline>maxprot:%d\<newline>initprot:%d\<newline>nsects:%d\<newline>flags:0x%x\<newline>''"

definition segment_format :: string where
  "segment_format = ''cmd:0x%x\<newline>cmdsize:0x%x\<newline>segname:%s\<newline>vmaddr:0x%lx\<newline>vmsize:0x%lx\<newline>fileoff:0x%lx\<newline>filesize:0x%lx\<newline>maxprot:%d\<newline>initprot:%d\<newline>nsects:%d\<newline>flags:0x%x\<newline>''"

definition print_segment_64 :: "segment_command_64 \<Rightarrow> cstr option" where
  "print_segment_64 s =
     (case chars_from (enc_segment_command_64 s) 8 of
        None \<Rightarrow> None
      | Some name \<Rightarrow> printf segment_format_64
          [A_Int (cmd s), A_Int (cmdsize s), A_String name, A_Long (vmaddr s), A_Long (vmsize s),
           A_Long (fileoff s), A_Long (filesize s), A_Int (maxprot s), A_Int (initprot s),
           A_Int (nsects s), A_Int (sc_flags s)])"

definition print_segment :: "segment_command \<Rightarrow> cstr option" where
  "print_segment s =
     (case chars_from (enc_segment_command s) 8 of
        None \<Rightarrow> None
      | Some name \<Rightarrow> printf segment_format
          [A_Int (cmd s), A_Int (cmdsize s), A_String name, A_Int (vmaddr32 s), A_Int (vmsize32 s),
           A_Int (fileoff32 s), A_Int (filesize32 s), A_Int (maxprot32 s), A_Int (initprot32 s),
           A_Int (nsects32 s), A_Int (sc_flags32 s)])"

text \<open>The text of both is the same function of the fields.\<close>

definition segment_text :: "cstr \<Rightarrow> nat list \<Rightarrow> int list \<Rightarrow> cstr" where
  "segment_text name ns is =
     lit ''cmd:0x'' @ show_hex (ns ! 0) @ 10 # lit ''cmdsize:0x'' @ show_hex (ns ! 1) @ 10 #
     lit ''segname:'' @ name @ 10 # lit ''vmaddr:0x'' @ show_hex (ns ! 2) @ 10 #
     lit ''vmsize:0x'' @ show_hex (ns ! 3) @ 10 # lit ''fileoff:0x'' @ show_hex (ns ! 4) @ 10 #
     lit ''filesize:0x'' @ show_hex (ns ! 5) @ 10 # lit ''maxprot:'' @ show_dec (is ! 0) @ 10 #
     lit ''initprot:'' @ show_dec (is ! 1) @ 10 # lit ''nsects:'' @ show_dec (is ! 2) @ 10 #
     lit ''flags:0x'' @ show_hex (ns ! 6) @ [10]"

definition printed_64 :: "segment_command_64 \<Rightarrow> nat list \<times> int list" where
  "printed_64 s =
     ([unat (cmd s), unat (cmdsize s), unat (vmaddr s), unat (vmsize s), unat (fileoff s), unat (filesize s),
       unat (sc_flags s)], [sint (maxprot s), sint (initprot s), sint (nsects s)])"

definition printed_32 :: "segment_command \<Rightarrow> nat list \<times> int list" where
  "printed_32 s =
     ([unat (cmd s), unat (cmdsize s), unat (vmaddr32 s), unat (vmsize32 s), unat (fileoff32 s), unat (filesize32 s),
       unat (sc_flags32 s)], [sint (maxprot32 s), sint (initprot32 s), sint (nsects32 s)])"

lemma print_segment_64_text:
  "print_segment_64 s = map_option (\<lambda>name. segment_text name (fst (printed_64 s)) (snd (printed_64 s)))
     (chars_from (enc_segment_command_64 s) 8)"
  by (simp add: print_segment_64_def segment_format_64_def segment_text_def printed_64_def conversion_def lit_def
      split: option.split)

lemma print_segment_text:
  "print_segment s = map_option (\<lambda>name. segment_text name (fst (printed_32 s)) (snd (printed_32 s)))
     (chars_from (enc_segment_command s) 8)"
  by (simp add: print_segment_def segment_format_def segment_text_def printed_32_def conversion_def lit_def
      split: option.split)

lemma line_eq:
  "x \<notin> set a \<Longrightarrow> x \<notin> set b \<Longrightarrow> a @ x # as = b @ x # bs \<longleftrightarrow> a = b \<and> as = bs"
  by (induction a arbitrary: b) (case_tac b; auto)+

lemma segment_text_inject:
  assumes "segment_text name ns is = segment_text name' ns' is'" and "10 \<notin> set name" "10 \<notin> set name'"
    and "length ns = 7" "length ns' = 7" "length is = 3" "length is' = 3"
  shows "name = name' \<and> ns = ns' \<and> is = is'"
proof -
  have nth: "xs = ys \<longleftrightarrow> (\<forall>i<n. xs ! i = ys ! i)" if "length xs = n" "length ys = n" for xs ys :: "'a list" and n
    using that by (auto simp: list_eq_iff_nth_eq)
  have "{..<7 :: nat} = {0, 1, 2, 3, 4, 5, 6}" "{..<3 :: nat} = {0, 1, 2}" by auto
  then have less: "(\<forall>i<7. P i) \<longleftrightarrow> P 0 \<and> P 1 \<and> P 2 \<and> P 3 \<and> P 4 \<and> P 5 \<and> P 6"
    "(\<forall>i<3. P i) \<longleftrightarrow> P 0 \<and> P 1 \<and> P 2" for P :: "nat \<Rightarrow> bool"
    by (metis insertE insertI1 insertI2 lessThan_iff singletonD)+
  show ?thesis
    using assms(1-3)
    by (simp add: nth [OF assms(4,5)] nth [OF assms(6,7)] less) (simp add: segment_text_def lit_def line_eq)
qed

text \<open>The string that is printed is the name, when it ends inside its 16 bytes.\<close>

lemma segment_name_chars:
  "0 \<in> set (segname s) \<Longrightarrow>
     chars_from (enc_segment_command_64 s) 8 = Some (takeWhile (\<lambda>b. b \<noteq> 0) (segname s))"
  "0 \<in> set (segname32 s') \<Longrightarrow>
     chars_from (enc_segment_command s') 8 = Some (takeWhile (\<lambda>b. b \<noteq> 0) (segname32 s'))"
  by (auto simp: chars_from_def enc_segment_command_64_def enc_segment_command_def takeWhile_append1)

lemma word_values_same:
  "unat v = unat w \<longleftrightarrow> v = w" "uint v = uint w \<longleftrightarrow> v = w" "sint v = sint w \<longleftrightarrow> v = w" for v w :: "'a::len word"
  by (simp_all flip: word_unat_eq_iff word_uint_eq_iff) (metis signed_word_eqI)

lemma printed_inject:
  "printed_64 s = printed_64 s' \<Longrightarrow> s\<lparr>segname := segname s'\<rparr> = s'"
  "printed_32 r = printed_32 r' \<Longrightarrow> r\<lparr>segname32 := segname32 r'\<rparr> = r'"
proof -
  show "printed_64 s = printed_64 s' \<Longrightarrow> s\<lparr>segname := segname s'\<rparr> = s'"
    by (cases s, cases s') (simp add: printed_64_def word_values_same)
  show "printed_32 r = printed_32 r' \<Longrightarrow> r\<lparr>segname32 := segname32 r'\<rparr> = r'"
    by (cases r, cases r') (simp add: printed_32_def word_values_same)
qed

lemma printed_lengths [simp]:
  "length (fst (printed_64 s)) = 7" "length (snd (printed_64 s)) = 3"
  "length (fst (printed_32 r)) = 7" "length (snd (printed_32 r)) = 3"
  by (simp_all add: printed_64_def printed_32_def)

text \<open>C36: roundtrip. The output of \<open>print_segment_64\<close> says everything about the command it was
  given: two commands with the same output, whose names have no newline, have the same name up to
  its end and the same type, size, addresses, file extent, protections, section count and flags.\<close>

theorem print_segment_64_faithful:
  assumes "print_segment_64 s = Some t" and "print_segment_64 s' = Some t"
    and "\<forall>name. chars_from (enc_segment_command_64 s) 8 = Some name \<longrightarrow> 10 \<notin> set name"
    and "\<forall>name. chars_from (enc_segment_command_64 s') 8 = Some name \<longrightarrow> 10 \<notin> set name"
  shows "chars_from (enc_segment_command_64 s) 8 = chars_from (enc_segment_command_64 s') 8 \<and>
    s\<lparr>segname := segname s'\<rparr> = s'"
proof -
  obtain name name' where name: "chars_from (enc_segment_command_64 s) 8 = Some name"
      "chars_from (enc_segment_command_64 s') 8 = Some name'"
    using assms(1,2) by (auto simp: print_segment_64_text)
  have "name = name' \<and> fst (printed_64 s) = fst (printed_64 s') \<and> snd (printed_64 s) = snd (printed_64 s')"
    by (rule segment_text_inject) (use assms name in \<open>simp_all add: print_segment_64_text\<close>)
  then show ?thesis using printed_inject(1) [of s s'] by (simp add: name prod_eq_iff)
qed

lemma print_segment_64_faithful_witness:
  "example_segment\<lparr>segname := lit ''__TEXT'' @ replicate 10 0\<rparr> = example_segment \<and>
   print_segment_64 (example_segment\<lparr>segname := lit ''__TEXT'' @ 0 # replicate 9 1\<rparr>) =
     print_segment_64 example_segment"
proof -
  let ?s = "example_segment\<lparr>segname := lit ''__TEXT'' @ 0 # replicate 9 1\<rparr>"
  have "0 \<in> set (segname ?s)" "0 \<in> set (segname example_segment)" by (simp_all add: example_segment_def)
  then have name: "chars_from (enc_segment_command_64 ?s) 8 = Some (lit ''__TEXT'')"
    "chars_from (enc_segment_command_64 example_segment) 8 = Some (lit ''__TEXT'')"
    by (simp_all add: segment_name_chars) (simp_all add: example_segment_def lit_def)
  moreover have "printed_64 ?s = printed_64 example_segment" by (simp add: printed_64_def)
  ultimately obtain t where t: "print_segment_64 ?s = Some t" "print_segment_64 example_segment = Some t"
    by (simp add: print_segment_64_text)
  have "10 \<notin> set (lit ''__TEXT'')" by (simp add: lit_def)
  then have "?s\<lparr>segname := segname example_segment\<rparr> = example_segment"
    using print_segment_64_faithful [OF t] name by simp
  then show ?thesis using t by (simp add: example_segment_def)
qed

lemma print_segment_faithful:
  assumes "print_segment s = Some t" and "print_segment s' = Some t"
    and "\<forall>name. chars_from (enc_segment_command s) 8 = Some name \<longrightarrow> 10 \<notin> set name"
    and "\<forall>name. chars_from (enc_segment_command s') 8 = Some name \<longrightarrow> 10 \<notin> set name"
  shows "chars_from (enc_segment_command s) 8 = chars_from (enc_segment_command s') 8 \<and>
    s\<lparr>segname32 := segname32 s'\<rparr> = s'"
proof -
  obtain name name' where name: "chars_from (enc_segment_command s) 8 = Some name"
      "chars_from (enc_segment_command s') 8 = Some name'"
    using assms(1,2) by (auto simp: print_segment_text)
  have "name = name' \<and> fst (printed_32 s) = fst (printed_32 s') \<and> snd (printed_32 s) = snd (printed_32 s')"
    by (rule segment_text_inject) (use assms name in \<open>simp_all add: print_segment_text\<close>)
  then show ?thesis using printed_inject(2) [of s s'] by (simp add: name prod_eq_iff)
qed

section \<open>The bind list\<close>

text \<open>A null name is printed as the C library prints it.\<close>

definition shown_name :: "memory \<Rightarrow> bind_info \<Rightarrow> cstr option" where
  "shown_name m b =
     (if func_name b = 0 then Some (lit ''(null)'')
      else case c_string m (func_name b) of Inl _ \<Rightarrow> None | Inr s \<Rightarrow> Some s)"

primrec print_binds :: "memory \<Rightarrow> bind_info list \<Rightarrow> cstr option" where
  "print_binds m [] = Some []"
| "print_binds m (b # bs) =
     (case shown_name m b of
        None \<Rightarrow> None
      | Some name \<Rightarrow>
          (case printf ''%s, 0x%llx\<newline>'' [A_String name, A_Long (bind_address b)] of
             None \<Rightarrow> None
           | Some out \<Rightarrow> map_option ((@) out) (print_binds m bs)))"

definition print_bind_list :: "memory \<Rightarrow> bind_info list \<Rightarrow> cstr option" where
  "print_bind_list m bs =
     map_option (\<lambda>out. lit ''--- bind list ---\<newline>'' @ out @ lit ''---           ---\<newline>'') (print_binds m bs)"

lemma print_binds_Cons:
  "print_binds m (b # bs) = Some out \<longleftrightarrow>
     (\<exists>name rest. shown_name m b = Some name \<and> print_binds m bs = Some rest \<and>
        out = (name @ 44 # 32 # 48 # 120 # show_hex (unat (bind_address b))) @ 10 # rest)"
  by (auto simp: conversion_def split: option.split)

lemma last_comma_eq:
  assumes "44 \<notin> set h" "44 \<notin> set h'"
  shows "(a :: cstr) @ 44 # h = b @ 44 # h' \<longleftrightarrow> a = b \<and> h = h'"
proof -
  have "a @ 44 # h = b @ 44 # h' \<longleftrightarrow> rev h @ 44 # rev a = rev h' @ 44 # rev b"
    by (metis rev_append rev.simps(2) append_assoc append_Cons append_Nil rev_rev_ident)
  also have "\<dots> \<longleftrightarrow> rev h = rev h' \<and> rev a = rev b" by (rule line_eq) (use assms in simp_all)
  finally show ?thesis by auto
qed

text \<open>It prints unless a name cannot be read.\<close>

lemma print_bind_list_defined:
  "print_bind_list m bs \<noteq> None \<longleftrightarrow> (\<forall>b\<in>set bs. shown_name m b \<noteq> None)"
  unfolding print_bind_list_def option.map_disc_iff
  by (induction bs) (auto simp: conversion_def split: option.split)

definition one_line :: "memory \<Rightarrow> bind_info \<Rightarrow> bool" where
  "one_line m b \<longleftrightarrow> (case shown_name m b of None \<Rightarrow> True | Some name \<Rightarrow> 10 \<notin> set name)"

lemma print_binds_inject:
  assumes "print_binds m bs = Some out" and "print_binds m' bs' = Some out"
    and "\<forall>b\<in>set bs. one_line m b" and "\<forall>b\<in>set bs'. one_line m' b"
  shows "map (\<lambda>b. (shown_name m b, bind_address b)) bs = map (\<lambda>b. (shown_name m' b, bind_address b)) bs'"
  using assms
proof (induction bs arbitrary: bs' out)
  case Nil
  then show ?case by (cases bs') (auto simp: print_binds_Cons simp del: print_binds.simps(2))
next
  case (Cons b bs)
  let ?line = "\<lambda>name b. name @ 44 # 32 # 48 # 120 # show_hex (unat (bind_address b))"
  obtain name rest where b: "shown_name m b = Some name" "print_binds m bs = Some rest"
    "out = ?line name b @ 10 # rest"
    using Cons.prems(1) unfolding print_binds_Cons by blast
  then obtain b' bs'' where bs': "bs' = b' # bs''" using Cons.prems(2) by (cases bs') auto
  then obtain name' rest' where b': "shown_name m' b' = Some name'" "print_binds m' bs'' = Some rest'"
    "out = ?line name' b' @ 10 # rest'"
    using Cons.prems(2) unfolding bs' print_binds_Cons by blast
  have "10 \<notin> set (?line name b)" "10 \<notin> set (?line name' b')"
    using Cons.prems(3,4) b(1) b'(1) bs' by (simp_all add: one_line_def)
  then have same: "?line name b = ?line name' b'" "rest = rest'"
    using b(3) b'(3) line_eq [of 10 "?line name b" "?line name' b'"] by blast+
  have "name = name' \<and> bind_address b = bind_address b'"
    using same(1) last_comma_eq [of "32 # 48 # 120 # show_hex (unat (bind_address b))"
        "32 # 48 # 120 # show_hex (unat (bind_address b'))" name name']
    by (simp add: word_unat_eq_iff)
  moreover have "map (\<lambda>b. (shown_name m b, bind_address b)) bs = map (\<lambda>b. (shown_name m' b, bind_address b)) bs''"
    using Cons.IH [OF b(2)] b'(2) same(2) Cons.prems(3,4) bs' by simp
  ultimately show ?case using b(1) b'(1) bs' by simp
qed

text \<open>C37: roundtrip. \<open>print_bind_list\<close> prints the whole bind list: two lists with the same output,
  whose names have no newline, have the same names and addresses in the same order.\<close>

theorem print_bind_list_faithful:
  assumes "print_bind_list m bs = Some t" and "print_bind_list m' bs' = Some t"
    and "\<forall>b\<in>set bs. one_line m b" and "\<forall>b\<in>set bs'. one_line m' b"
  shows "map (\<lambda>b. (shown_name m b, bind_address b)) bs = map (\<lambda>b. (shown_name m' b, bind_address b)) bs'"
  using assms print_binds_inject [of m bs _ m' bs'] by (auto simp: print_bind_list_def)

text \<open>The same name in two places.\<close>

definition example_names :: memory where
  "example_names = map_file (map_file Map.empty 0x1000 (lit ''_puts'' @ [0])) 0x2000 (lit ''_puts'' @ [0])"

lemma example_names_at: "c_string example_names 0x1000 = Ok (lit ''_puts'')" "c_string example_names 0x2000 = Ok (lit ''_puts'')"
  by (simp_all add: c_string_iff example_names_def map_file_def lit_def)

lemma print_bind_list_faithful_witness:
  "map (\<lambda>b. (shown_name example_names b, bind_address b)) [\<lparr>func_name = 0x1000, bind_address = 0x200000010\<rparr>] =
   map (\<lambda>b. (shown_name example_names b, bind_address b)) [\<lparr>func_name = 0x2000, bind_address = 0x200000010\<rparr>]"
proof -
  let ?b = "\<lambda>p. \<lparr>func_name = p, bind_address = 0x200000010\<rparr>"
  have name: "shown_name example_names (?b 0x1000) = Some (lit ''_puts'')" "shown_name example_names (?b 0x2000) = Some (lit ''_puts'')"
    by (simp_all add: shown_name_def example_names_at)
  then obtain t where "print_bind_list example_names [?b 0x1000] = Some t" "print_bind_list example_names [?b 0x2000] = Some t"
    by (simp add: print_bind_list_def conversion_def)
  then show ?thesis
    by (rule print_bind_list_faithful) (use name in \<open>simp_all add: one_line_def lit_def\<close>)
qed

end
