(* ===== verification/Mal_Report.thy ===== *)
theory Mal_Report
  imports Mal_Print Mal_Main
begin

unbundle bit_operations_syntax

text \<open>
  The texts of the error messages of \<open>main\<close> and of the report about the fixup header that
  \<open>dump_chained_fixups\<close> prints, over \<open>printf\<close> of \<open>Mal_Print\<close>.

  \<^item> \<open>main_messages_faithful\<close>: the error output of a run tells which diagnostics it had.
  \<^item> \<open>header_report_faithful\<close>: the report tells every field of the fixup header.
\<close>

section \<open>Messages of main\<close>

text \<open>\<open>file\<close> is the name of the program, \<open>c\<close> the context when the message is printed.\<close>

fun message :: "cstr \<Rightarrow> mach_context \<Rightarrow> diagnostic \<Rightarrow> cstr option" where
  "message name c (Loader_Failed r) =
     printf ''maloader: loader failed for %s (%d-bit), result=%d\<newline>''
       [A_String name, A_Int (of_int (bit_width c)), A_Int (of_int r)]"
| "message name c No_Image =
     printf ''maloader: image mapping was not established (img_addr=%p, v_addr=%p)\<newline>''
       [A_Long (img_addr c), A_Long (v_addr c)]"
| "message name c No_Entry_Point = printf ''maloader: no entry point found\<newline>'' []"
| "message name c (Unresolved_Binds n) = printf ''maloader: unresolved chained binds: %u\<newline>'' [A_Int n]"
| "message name c (Bind_Failed r) = printf ''maloader: bind failed, result=%d\<newline>'' [A_Int (of_int r)]"

primrec messages :: "cstr \<Rightarrow> mach_context \<Rightarrow> diagnostic list \<Rightarrow> cstr option" where
  "messages name c [] = Some []"
| "messages name c (d # ds) =
     (case message name c d of
        None \<Rightarrow> None
      | Some line \<Rightarrow> map_option ((@) line) (messages name c ds))"

text \<open>The line of a message, without its newline.\<close>

fun message_line :: "cstr \<Rightarrow> mach_context \<Rightarrow> diagnostic \<Rightarrow> cstr" where
  "message_line name c (Loader_Failed r) = lit ''maloader: loader failed for '' @ name @ lit '' ('' @
     show_dec (sint (of_int (bit_width c) :: u32)) @ lit ''-bit), result='' @ show_dec (sint (of_int r :: u32))"
| "message_line name c No_Image = lit ''maloader: image mapping was not established (img_addr='' @
     show_pointer (img_addr c) @ lit '', v_addr='' @ show_pointer (v_addr c) @ lit '')''"
| "message_line name c No_Entry_Point = lit ''maloader: no entry point found''"
| "message_line name c (Unresolved_Binds n) = lit ''maloader: unresolved chained binds: '' @ show_dec (uint n)"
| "message_line name c (Bind_Failed r) = lit ''maloader: bind failed, result='' @ show_dec (sint (of_int r :: u32))"

lemma message_text: "message name c d = Some (message_line name c d @ [10])"
  by (cases d) (simp_all add: conversion_def lit_def)

lemma messages_text: "messages name c ds = Some (concat (map (\<lambda>d. message_line name c d @ [10]) ds))"
  by (induction ds) (simp_all add: message_text)

lemma show_pointer_chars [simp]: "10 \<notin> set (show_pointer p)"
  by (simp add: show_pointer_def lit_def)

lemma message_line_chars: "10 \<notin> set name \<Longrightarrow> 10 \<notin> set (message_line name c d)"
  by (cases d) (simp_all add: lit_def)

text \<open>Lines without newlines can be read off the text.\<close>

lemma lines_inject:
  assumes "concat (map (\<lambda>l. l @ [10 :: byte]) ls) = concat (map (\<lambda>l. l @ [10]) ls')"
    and "\<forall>l\<in>set ls. 10 \<notin> set l" and "\<forall>l\<in>set ls'. 10 \<notin> set l"
  shows "ls = ls'"
  using assms
proof (induction ls arbitrary: ls')
  case Nil
  then show ?case by (cases ls') simp_all
next
  case (Cons l ls)
  then obtain l' ms where ls': "ls' = l' # ms" by (cases ls') auto
  have "l @ 10 # concat (map (\<lambda>l. l @ [10]) ls) = l' @ 10 # concat (map (\<lambda>l. l @ [10]) ms)"
    using Cons.prems(1) by (simp add: ls')
  then have "l = l'" "concat (map (\<lambda>l. l @ [10]) ls) = concat (map (\<lambda>l. l @ [10]) ms)"
    using Cons.prems(2,3) line_eq [of 10 l l'] by (simp_all add: ls')
  then show ?case using Cons.IH [of ms] Cons.prems(2,3) by (simp add: ls')
qed

lemma message_line_inject:
  assumes "message_line name c d = message_line name' c' d'"
    and "check_of d = 0 \<longrightarrow> d = Loader_Failed (-1)" "check_of d' = 0 \<longrightarrow> d' = Loader_Failed (-1)"
    and "check_of d \<noteq> 4" "check_of d' \<noteq> 4"
  shows "d = d'"
  using assms by (cases d; cases d') (simp_all add: lit_def word_values_same)

text \<open>The diagnostics of a run: the loader failed with \<open>-1\<close> or not, and no failed bind.\<close>

lemma entered_diagnostics:
  assumes "main h args = Ok (Entered ds c)" and "d \<in> set ds"
  shows "(check_of d = 0 \<longrightarrow> d = Loader_Failed (-1)) \<and> check_of d \<noteq> 4"
proof -
  obtain c1 c2 b r c3 r' where "determineBit (mem c1) (memblock c1) = Ok b" and "c2 = c1\<lparr>bit_width := b\<rparr>"
    and ld: "(if drop_bit 6 b = 0 then loader h c2 else loader_64 h c2) = Ok (r, c3)"
    and bnd: "do_bind h c3 = Ok (r', c)"
    and ds: "ds = loader_diagnostics r c3 @ (if r' \<noteq> 0 then [Bind_Failed r'] else [])"
    using assms(1) by (rule main_entered)
  have "r \<in> {0, -1}"
    using ld by (auto simp: loader_def loader_64_def Let_def res_bind_eq_Ok split: if_splits)
  then show ?thesis using assms(2) do_bind_frame [OF bnd] by (auto simp: ds loader_diagnostics_def split: if_splits)
qed

theorem main_messages_faithful:
  assumes runs: "main h args = Ok (Entered ds c)" "main h' args' = Ok (Entered ds' c')"
    and same: "messages (args ! 1) c ds = messages (args' ! 1) c' ds'"
    and names: "10 \<notin> set (args ! 1)" "10 \<notin> set (args' ! 1)"
  shows "ds = ds'"
proof -
  let ?l = "message_line (args ! 1) c" and ?l' = "message_line (args' ! 1) c'"
  have lines: "map ?l ds = map ?l' ds'"
    by (rule lines_inject)
      (use same names message_line_chars in \<open>auto simp: messages_text comp_def\<close>)
  have "list_all2 (=) ds ds'"
    unfolding list_all2_conv_all_nth
  proof (intro conjI allI impI)
    show len: "length ds = length ds'" using lines by (rule map_eq_imp_length_eq)
    fix i assume i: "i < length ds"
    then have "?l (ds ! i) = ?l' (ds' ! i)" using lines len by (metis nth_map)
    then show "ds ! i = ds' ! i"
      using message_line_inject entered_diagnostics [OF runs(1)] entered_diagnostics [OF runs(2)] i len
      by (metis nth_mem)
  qed
  then show ?thesis by (simp add: list.rel_eq)
qed

section \<open>The fixup header\<close>

primrec texts :: "cstr option list \<Rightarrow> cstr option" where
  "texts [] = Some []"
| "texts (t # ts) = (case t of None \<Rightarrow> None | Some out \<Rightarrow> map_option ((@) out) (texts ts))"

definition header_report :: "chained_fixups_header \<Rightarrow> cstr option" where
  "header_report hdr = texts
     [printf ''chained fixups header:\<newline>'' [],
      printf ''  fixups_version:  %u\<newline>'' [A_Int (fixups_version hdr)],
      printf ''  starts_offset:   0x%x\<newline>'' [A_Int (starts_offset hdr)],
      printf ''  imports_offset:  0x%x\<newline>'' [A_Int (imports_offset hdr)],
      printf ''  symbols_offset:  0x%x\<newline>'' [A_Int (symbols_offset hdr)],
      printf ''  imports_count:   %u\<newline>'' [A_Int (imports_count hdr)],
      printf ''  imports_format:  %u (%s)\<newline>''
        [A_Int (imports_format hdr), A_String (lit (chained_import_format_name (imports_format hdr)))],
      printf ''  symbols_format:  %u (%s)\<newline>''
        [A_Int (symbols_format hdr), A_String (lit (chained_symbol_format_name (symbols_format hdr)))]]"

definition starts_report :: "chained_starts \<Rightarrow> cstr option" where
  "starts_report s = texts
     [printf ''    size:              0x%x\<newline>'' [A_Int (css_size s)],
      printf ''    page_size:         0x%x\<newline>'' [A_Int (ucast (css_page_size s))],
      printf ''    pointer_format:    %u (%s)\<newline>''
        [A_Int (ucast (css_pointer_format s)), A_String (lit (chained_pointer_format_name (css_pointer_format s)))],
      printf ''    segment_offset:    0x%llx\<newline>'' [A_Long (css_segment_offset s)],
      printf ''    max_valid_pointer: 0x%x\<newline>'' [A_Int (css_max_valid_pointer s)],
      printf ''    page_count:        %u\<newline>'' [A_Int (ucast (css_page_count s))]]"

text \<open>A name in parentheses follows its number, so a space ends the number.\<close>

lemma show_dec_space [simp]: "32 \<notin> set (show_dec i)"
  using digit_text_chars [of 10 32] by (auto simp: show_dec_def)

lemma format_names_one_line [simp]:
  "10 \<notin> set (lit (chained_import_format_name v))" "10 \<notin> set (lit (chained_symbol_format_name v))"
  "10 \<notin> set (lit (chained_pointer_format_name w))"
  by (simp_all add: chained_import_format_name_def chained_symbol_format_name_def
      chained_pointer_format_name_def lit_def)

theorem header_report_faithful: "header_report hdr = header_report hdr' \<longleftrightarrow> hdr = hdr'"
proof
  assume "header_report hdr = header_report hdr'"
  then show "hdr = hdr'"
    by (cases hdr, cases hdr') (simp add: header_report_def conversion_def line_eq word_values_same)
qed simp

end
