(* ===== verification/Mal_Uleb_Reference.thy ===== *)
theory Mal_Uleb_Reference
  imports Mal_Uleb
begin

unbundle bit_operations_syntax

text \<open>
  What \<open>read_uleb128\<close> computes on any bytes, canonical or not, complete or cut off by the end of
  the stream: base-128 digits, the least significant first, up to the first byte without the
  continuation bit. The reference is arithmetic on numbers, the code works with shifts and ors
  on a word.

  \<^item> \<open>digit_bytes\<close>: the bytes that are read; \<open>digit_value\<close>: the number they denote.
  \<^item> \<open>leb_value_number\<close>: shifting and or-ing the digits is that number modulo \<open>2 ^ 64\<close>.
\<close>

section \<open>The reference\<close>

fun digit_bytes :: "byte list \<Rightarrow> byte list" where
  "digit_bytes [] = []"
| "digit_bytes (b # bs) = b # (if continued b then digit_bytes bs else [])"

fun digit_value :: "byte list \<Rightarrow> nat" where
  "digit_value [] = 0"
| "digit_value (b # bs) = unat b mod 128 + 128 * digit_value bs"

text \<open>The value and the number of bytes; more than ten digits do not fit the shifts of the loop.\<close>

definition uleb_reference :: "byte list \<Rightarrow> (u64 \<times> nat) res" where
  "uleb_reference bs =
     (let ds = digit_bytes bs in
      if length ds \<le> 10 then Ok (of_nat (digit_value ds), length ds) else Fault (Bad_Shift 70))"

section \<open>Shifting and adding\<close>

lemma or_digit:
  fixes v :: u64
  assumes "d < 128"
  shows "of_nat d OR push_bit 7 v = of_nat d + push_bit 7 v"
proof (rule disjunctive_add_eq_or [symmetric])
  have "take_bit 7 (of_nat d :: u64) = of_nat d"
    using assms by (simp add: take_bit_of_nat take_bit_nat_eq_self)
  then have "of_nat d AND push_bit 7 v = take_bit 7 (of_nat d) AND push_bit 7 v" by simp
  also have "\<dots> = 0" by (rule bit_eqI) (auto simp: bit_simps)
  finally show "of_nat d AND push_bit 7 v = 0" .
qed

lemma low_digit: "ucast (b AND 0x7f) = (of_nat (unat b mod 128) :: u64)" for b :: byte
proof -
  have "unat (take_bit 7 b) = unat b mod 128" by (simp add: take_bit_eq_mod unat_mod)
  moreover have "of_nat (unat (take_bit 7 b)) = (ucast (take_bit 7 b) :: u64)" by simp
  ultimately show ?thesis by (simp add: and_low7)
qed

lemma leb_value_number: "leb_value bt bs = push_bit bt (of_nat (digit_value bs))"
proof (induction bs arbitrary: bt)
  case Nil
  then show ?case by simp
next
  case (Cons b bs)
  let ?v = "of_nat (digit_value bs) :: u64"
  have "leb_value bt (b # bs) = push_bit bt (of_nat (unat b mod 128)) OR push_bit bt (push_bit 7 ?v)"
    by (simp add: Cons.IH low_digit)
  also have "\<dots> = push_bit bt (of_nat (unat b mod 128) OR push_bit 7 ?v)" by simp
  also have "of_nat (unat b mod 128) OR push_bit 7 ?v = of_nat (digit_value (b # bs))"
    by (subst or_digit) (simp_all add: push_bit_eq_mult)
  finally show ?case .
qed

section \<open>The loop\<close>

lemma read_uleb128_loop_digits:
  assumes "holds m p bs" and "unat p + length bs = unat e" and "k + length (digit_bytes bs) \<le> 10"
  shows "read_uleb128_loop m e p r (7 * k) =
    Ok (r OR leb_value (7 * k) (digit_bytes bs), p + of_nat (length (digit_bytes bs)))"
  using assms
proof (induction bs arbitrary: p r k)
  case Nil
  then have "\<not> p < e" by (simp add: word_less_nat_alt)
  then show ?case by (simp add: read_uleb128_loop.simps [of m e p])
next
  case (Cons b bs)
  have b: "load8 m p = Ok b" and lt: "p < e" using Cons.prems by (simp_all add: load8_eq_Ok word_less_nat_alt)
  have k: "\<not> 64 \<le> 7 * k" using Cons.prems(3) by simp
  let ?r = "r OR push_bit (7 * k) (ucast (b AND 0x7f))"
  show ?case
  proof (cases "continued b")
    case False
    then show ?thesis using b lt k by (simp add: read_uleb128_loop.simps [of m e p] Let_def continued_def)
  next
    case True
    have "read_uleb128_loop m e (p + 1) ?r (7 * Suc k) =
        Ok (?r OR leb_value (7 * Suc k) (digit_bytes bs), (p + 1) + of_nat (length (digit_bytes bs)))"
      by (rule Cons.IH) (use Cons.prems True unat_plus_one [OF lt] in auto)
    then show ?thesis using True b lt k
      by (simp add: read_uleb128_loop.simps [of m e p] Let_def continued_def algebra_simps or.assoc)
  qed
qed

lemma digit_bytes_long:
  "10 < length (digit_bytes bs) \<Longrightarrow> 11 \<le> length bs \<and> list_all continued (butlast (take 11 bs))"
proof -
  have "n < length (digit_bytes bs) \<Longrightarrow> n < length bs \<and> list_all continued (take n bs)" for n bs
    by (induction bs arbitrary: n) (auto simp: take_Cons split: if_splits nat.splits)
  then show "10 < length (digit_bytes bs) \<Longrightarrow> 11 \<le> length bs \<and> list_all continued (butlast (take 11 bs))"
    by (fastforce simp: butlast_take)
qed

text \<open>C25: equivalence. On the bytes between the cursor and the end of the stream, whatever they
  are, \<open>read_uleb128\<close> is the reference decoder: it takes the bytes up to the first without the
  continuation bit (or all of them), and gives the number with these base-128 digits, modulo
  \<open>2 ^ 64\<close>; on more than ten such bytes it ends in the undefined shift by 70.\<close>

theorem read_uleb128_reference:
  assumes "holds m p bs" and "unat p + length bs = unat e"
  shows "read_uleb128 m p e = res_bind (uleb_reference bs) (\<lambda>(v, n). Ok (v, p + of_nat n))"
proof (cases "length (digit_bytes bs) \<le> 10")
  case True
  then show ?thesis
    using read_uleb128_loop_digits [OF assms, of 0 0]
    by (simp add: read_uleb128_def uleb_reference_def Let_def leb_value_number)
next
  case False
  then have long: "11 \<le> length bs" "list_all continued (butlast (take 11 bs))"
    using digit_bytes_long [of bs] by auto
  have "holds m p (take 11 bs)" using assms(1) holds_append [of m p "take 11 bs" "drop 11 bs"] by simp
  then have "read_uleb128_loop m e p 0 (7 * 0) = Fault (Bad_Shift 70)"
    by (rule read_uleb128_loop_overlong) (use long assms(2) in auto)
  then show ?thesis using False by (simp add: read_uleb128_def uleb_reference_def)
qed

text \<open>A padded encoding of 300, which is not the canonical one, and one that is cut off.\<close>

lemma read_uleb128_reference_witness:
  "read_uleb128 (map_file Map.empty 0x1000 [0xAC, 0x82, 0x00]) 0x1000 0x1003 = Ok (300, 0x1003) \<and>
   read_uleb128 (map_file Map.empty 0x1000 [0xAC, 0x82]) 0x1000 0x1002 = Ok (300, 0x1002)"
  using read_uleb128_reference [of "map_file Map.empty 0x1000 [0xAC, 0x82, 0x00]" "0x1000" "[0xAC, 0x82, 0x00]" "0x1003"]
    read_uleb128_reference [of "map_file Map.empty 0x1000 [0xAC, 0x82]" "0x1000" "[0xAC, 0x82]" "0x1002"]
  by (simp add: map_file_def uleb_reference_def continued_def)

end
