(* ===== verification/Spec2Isabelle.thy ===== *)
theory Spec2Isabelle
  imports Mal_Wellformed32 Mal_Shims Mal_Report Mal_Uleb_Reference
begin

text \<open>
  A verification development for maloader, a loader that maps a Mach-O executable into a
  Linux process, binds its imports to host libraries and jumps to its entry point. The
  sources are \<^verbatim>\<open>src/main.c\<close> (opening, mapping, walking the load commands, chained fixups),
  \<^verbatim>\<open>src/bind.c\<close> (symbol resolution, the bind opcode stream, the binder), the context in
  \<^verbatim>\<open>src/machctrl.h\<close> and \<^verbatim>\<open>src/bind.h\<close>, and the file format in \<^verbatim>\<open>src/mach-o\<close>. The model is the
  Linux build on an LP64 little-endian target, with \<open>MAL_VERBOSE_FIXUPS\<close> and
  \<open>MAL_VERBOSE_SYMTAB\<close> at their default 0.

  How the program works. \<open>main\<close> maps the file (\<open>openExec\<close>), reads its word size
  (\<open>determineBit\<close>) and calls \<open>loader_64\<close> or \<open>loader\<close>, which walk the load commands. A
  segment command makes \<open>load_segment_64\<close> map the whole image once
  (\<open>ensure_image_mapping_64\<close>), copy the segment into it and record it in the table
  \<open>segments\<close>. \<open>LC_DYLD_INFO\<close> makes \<open>bind_list_retriever\<close> interpret two opcode streams that
  append to \<open>b_list\<close>, addressing through the segment table; \<open>LC_LOAD_DYLIB\<close> appends to \<open>d_list\<close>;
  \<open>LC_SYMTAB\<close> finds the entry point; \<open>LC_DYLD_CHAINED_FIXUPS\<close> rebases and binds pointers in
  place along the chains of each page. Then \<open>do_bind\<close> looks every entry of \<open>b_list\<close> up in
  every library of \<open>d_list\<close> and stores the addresses, and \<open>main\<close> calls the entry point.

  Theories, in the order of the imports:

  \<^item> \<open>Mal_Prelude\<close>: word types, faults and results, counted loops (\<open>for_upto\<close>, \<open>for_below\<close>).
  \<^item> \<open>Mal_Memory\<close>: the address space as a partial map from addresses to bytes, loads, stores,
    \<open>memcpy\<close>, C strings, and the locales \<open>codec\<close> and \<open>fixed_codec\<close> for decoders.
  \<^item> \<open>Mal_MachO\<close>: one record per struct of \<^verbatim>\<open>loader.h\<close> and \<^verbatim>\<open>nlist.h\<close> the loader reads, with its
    reader, its encoding and an interpretation of \<open>fixed_codec\<close> tying them together.
  \<^item> \<open>Mal_Context\<close>: \<open>mach_context\<close> with the static variables of \<^verbatim>\<open>bind.c\<close> and the memory, the
    \<open>host\<close> parameter, the table invariant \<open>ctx_ok\<close>, the order \<open>extends\<close>, and the locales
    \<open>framed_op\<close> and \<open>invariant_op\<close> that carry one-step facts to loops.
  \<^item> \<open>Mal_Uleb\<close>: \<open>read_uleb128\<close>. Round trip with the encoder, bounds of the cursor, the
    undefined shift on overlong input.
  \<^item> \<open>Mal_Uleb_Reference\<close>: what it computes on any bytes: the number with the base-128 digits
    that are read, modulo \<open>2 ^ 64\<close>.
  \<^item> \<open>Mal_Bind_Stream\<close>: \<open>append_bind_info\<close>, \<open>bind_address_for_segment_offset\<close>,
    \<open>bind_list_retriever\<close>. Termination, frame, refinement of the abstract machine
    \<open>run_ops\<close> over the opcode table, and the entries that any bytes can lead to.
  \<^item> \<open>Mal_Commands\<close>: load commands as data (\<open>lcmd\<close>), their bytes and the extent of an image.
  \<^item> \<open>Mal_Segments\<close>: \<open>alignMemory\<close>, \<open>ensure_image_mapping_64\<close>, \<open>load_segment_64\<close>,
    \<open>load_segment\<close>, the section printers. The mapping covers every segment; loading copies
    the file bytes and nothing else.
  \<^item> \<open>Mal_Resolver\<close>: \<open>normalize_macho_symbol_name\<close>, \<open>resolve_macho_import_symbol\<close>,
    \<open>apply_chained_bind\<close>, the replacements for \<open>mmap\<close> and \<open>memset_pattern16\<close>. Resolution is the
    first provider in order; handles are opened once (locale \<open>handle_cache\<close>).
  \<^item> \<open>Mal_Chained\<close>: chained fixups. The accessors invert the bit fields; a walk over a chain
    (inductive predicate \<open>chain\<close>) applies its entries in order, up to 512; a segment's pages
    are processed one after another with their original raw values.
  \<^item> \<open>Mal_Fixups\<close>: the whole fixup blob (header, segment table, page tables) as data, and
    \<open>dump_chained_fixups\<close> as the fold over the entries it applies (\<open>blob_applied\<close>): of the segments
    that are recorded, mapped and in pointer format 6, the first 512 entries of each page's
    chain. The others (\<open>blob_skipped\<close>) stay.
  \<^item> \<open>Mal_Fixup_Values\<close>: the import table of the blob and what the pointers end as, applied or
    skipped; processing never faults on a blob that is in memory.
  \<^item> \<open>Mal_Binder\<close>: \<open>dylib_list_retriever\<close> and \<open>do_bind\<close>. Every bind location ends with the
    offer of the last library that has the symbol.
  \<^item> \<open>Mal_Walk\<close>: the walk of a cursor over a list of records (inductive step relation \<open>loads\<close>)
    and the locale \<open>command_walk\<close>, interpreted for both loaders: the walk carries out the
    records in order as long as none of them overwrites the list.
  \<^item> \<open>Mal_Loader\<close>: the commands, \<open>loader_64\<close> and \<open>loader\<close>. The 64-bit walk carries out exactly
    the commands of the list. For files without chained fixups, whose segments do not wrap and
    have no more bytes in the file than in memory, it never touches a byte that was mapped
    before it. A loaded segment is found through its index, where the binder looks.
  \<^item> \<open>Mal_Loader32\<close>: the same for 32-bit files, which are never overwritten.
  \<^item> \<open>Mal_Symbols\<close>: symbol tables. The locale \<open>symbol_table\<close> is interpreted for the tables of both
    loaders, so \<open>LC_SYMTAB\<close> is proved once: the last \<open>_main\<close> is the entry point.
  \<^item> \<open>Mal_Main\<close>: \<open>openExec\<close>, \<open>determineBit\<close>, \<open>main\<close> and its outcomes, with the order of its
    messages and the files it refuses.
  \<^item> \<open>Mal_Image\<close>: the abstract \<open>image\<close> of a file (where it is, its segments, binds, fixups,
    libraries and entry point), what it means that a context stands for it, the steps both
    loaders share, up to the binder, and the locale \<open>part_walk\<close>: if each command carries its
    part, the walk over a file computes its image (interpreted for both loaders).
  \<^item> \<open>Mal_Parts\<close>: a 64-bit file as the parts its commands point to (segments, bind operations,
    fixup blob, symbols, libraries), the image they amount to (\<open>load_image\<close>), the memory before
    fixups and binds (\<open>image_memory\<close>), and the simulation: running a command computes the image
    of its part.
  \<^item> \<open>Mal_Program\<close>: the whole run. Chained fixups overwrite only the image, so the command list
    stays intact, the loader is the walk over the parts, and \<open>main\<close> starts the program, with
    every byte of memory determined by \<open>image_memory\<close>, the applied fixups and the binds.
  \<^item> \<open>Mal_Program32\<close>: parts, image and whole run of a 32-bit file.
  \<^item> \<open>Mal_Wellformed\<close>: the typing invariant of the 64-bit loader's context, from the start of
    \<open>main\<close> to the jump, for any file, and the locale \<open>table_walk\<close> that carries an invariant of
    the segment table over a walk.
  \<^item> \<open>Mal_Wellformed32\<close>: the same for the 32-bit loader, whose files may map several images.
  \<^item> \<open>Mal_Shims\<close>: the bodies of the small functions of \<^verbatim>\<open>bind.c\<close> that a loaded program may call;
    libc's \<open>atexit\<close>, \<open>errno\<close> and \<open>environ\<close> are parameters.
  \<^item> \<open>Mal_Print\<close>: \<open>printf\<close> for the conversions the code uses, \<open>print_segment_64\<close>,
    \<open>print_segment\<close>, \<open>print_bind_list\<close>. The output determines what was printed.
  \<^item> \<open>Mal_Report\<close>: the same for the error messages of \<open>main\<close> and the report of
    \<open>dump_chained_fixups\<close> about the fixup header and the segment tables.
  \<^item> this theory: the properties that span them all.

  Conventions. A C function that reads or writes memory is a function from the context (or
  the memory) to a result: \<open>Ok\<close> with the new state, or \<open>Fault\<close> for a run that C or the kernel
  ends (an access outside what the loader mapped, an undefined shift, signed overflow of a
  counter, a write through a failed allocation, \<open>exit\<close>). Pointers are 64-bit words with
  wrap-around arithmetic. Tables the C code reads through pointers are read again wherever
  the C code dereferences, because fixups may overwrite them. A local struct copy is read
  once.

  Bounds. Loops whose bound is a file field are \<open>for_upto\<close> over the field's value, or
  \<open>for_below\<close> with the number of values of the counter's type as cap, which the bound cannot
  reach; the chain loop is recursion over the 512 iterations the code allows; the two byte
  readers are total functions because their cursor only moves forward. No other fuel is used.

  The host. \<open>mmap\<close>, \<open>malloc\<close>, \<open>dlopen\<close>, \<open>dlsym\<close>, opening files and the addresses of the
  loader's own functions are the record \<open>host\<close>. Hypotheses about it are \<open>mmap_ok\<close> (a mapping
  made without \<open>MAP_FIXED\<close> is not null, does not wrap, overlaps nothing mapped),
  \<open>map_file_ok\<close> (the same for the file) and \<open>alloc_ok\<close>; \<open>example_host\<close> satisfies them.

  Not modelled: the output a loading run makes on the way (of printing only the memory reads
  are kept, names in fixed local arrays are not followed past the array; the text of the three
  printing functions is in \<open>Mal_Print\<close>, the messages of \<open>main\<close> are values with their text in
  \<open>Mal_Report\<close>; progress lines such as the names of commands have no model), protection bits of
  mappings, and the run of the loaded program, which starts where \<open>main\<close> ends with \<open>Entered\<close>
  (its calls of the functions in \<open>Mal_Shims\<close> are modelled as a sequence).
\<close>

text \<open>C1: liveness. A file described by its parts (segments, bind streams, fixup blobs, symbol
  tables, libraries, anything else the loader ignores), opened on a host that can map it, is
  always started: \<open>main\<close> faults nowhere, reports nothing but the chained binds that no library
  provides, and enters the program at the relocated \<open>_main\<close>. At that moment every byte of the
  address space is accounted for, relative to \<open>image_memory\<close>, which is the file, the zeroed
  mapping of the image and the segments' bytes copied into it:
  \<^item> every imported pointer above the image start holds what the libraries of the file, then libc
    and libm, offer for its symbol (the last offer wins), or the value \<open>v\<close> it has in
    \<open>image_memory\<close> if none of them has the symbol;
  \<^item> every applied chained fixup holds its rebased or resolved value. Applied are the first 512
    entries of each page's chain, in the segments that are recorded and mapped and whose table
    is in pointer format 6 (\<open>im_fixups\<close>, from \<open>blob_applied\<close>);
  \<^item> the entries behind the 512th of their chain (\<open>im_skipped\<close>, from \<open>blob_skipped\<close>) hold their raw
    value, unless another fixup or a bind touches them;
  \<^item> every other byte, so also every slot of a table in another format, is that of
    \<open>image_memory\<close>: in the segments, the byte of the file.\<close>

theorem main_starts_program:
  assumes "program_ok h args hdr ps L im"
  shows "\<exists>c. main h args = Ok (Entered (unresolved_report h im) c) \<and>
    entry_point c = im_entry im \<and> img_addr c = ly_img L \<and>
    (\<forall>k < length (im_binds im). ly_img L < snd (im_binds im ! k) \<longrightarrow>
       (\<exists>v. load64 (image_memory L (concat (map copied ps))) (snd (im_binds im ! k)) = Ok v \<and>
            load64 (mem c) (snd (im_binds im ! k)) = Ok (import_value h im k v))) \<and>
    (\<forall>(l, raw, n) \<in> set (im_fixups im).
       load64 (mem c) l = Ok (fix_value (host_resolver h) (im_addr im) n raw)) \<and>
    (\<forall>(l, raw) \<in> set (im_skipped im).
       region l 8 \<subseteq> Collect (untouched L im) \<longrightarrow> load64 (mem c) l = Ok raw) \<and>
    (\<forall>a. untouched L im a \<longrightarrow> mem c a = image_memory L (concat (map copied ps)) a) \<and>
    (\<forall>s\<in>set (concat (map copied ps)). \<forall>i < unat (filesize s). untouched L im (seg_dest L s + of_nat i) \<longrightarrow>
       mem c (seg_dest L s + of_nat i) = Some (ly_bytes L ! (unat (fileoff s) + i)))"
  using main_program [OF assms] unfolding program_started_def fixups_hold_def by blast

lemma main_starts_program_witness:
  "\<exists>c. main hello_host [lit ''maloader'', lit ''hello''] = Ok (Entered [] c) \<and>
    entry_point c = 0x200000F00 \<and> load64 (mem c) 0x200000008 = Ok 0x200000003 \<and>
    load64 (mem c) 0x200000010 = Ok 0x7100 \<and>
    load64 (mem c) 0x200004000 = Ok 0x200000123 \<and> load64 (mem c) 0x200004008 = Ok 0x7100 \<and>
    mem c 0x200000000 = Some 0xCF \<and> mem c 0x200001000 = Some 0"
proof -
  let ?im = hello_image and ?ss = "[example_segment, hello_data]"
  obtain c where run: "main hello_host [lit ''maloader'', lit ''hello''] =
      Ok (Entered (unresolved_report hello_host ?im) c)"
    and entry: "entry_point c = im_entry ?im"
    and bound: "\<forall>k < length (im_binds ?im). ly_img hello_layout < snd (im_binds ?im ! k) \<longrightarrow>
       (\<exists>v. load64 (image_memory hello_layout ?ss) (snd (im_binds ?im ! k)) = Ok v \<and>
            load64 (mem c) (snd (im_binds ?im ! k)) = Ok (import_value hello_host ?im k v))"
    and fixed: "\<forall>(l, raw, n) \<in> set (im_fixups ?im).
       load64 (mem c) l = Ok (fix_value (host_resolver hello_host) (im_addr ?im) n raw)"
    and bytes: "\<forall>a. untouched hello_layout ?im a \<longrightarrow> mem c a = image_memory hello_layout ?ss a"
    using main_starts_program [OF hello_program_ok] unfolding hello_copied by blast
  have "load64 (mem c) 0x200000008 = Ok 0x200000003"
    using bound [rule_format, of 0] hello_old hello_imports by (simp add: hello_layout_fields)
  moreover have "load64 (mem c) 0x200000010 = Ok 0x7100"
    using bound [rule_format, of 1] hello_imports by (simp add: hello_layout_fields)
  moreover have "mem c 0x200000000 = Some 0xCF" "mem c 0x200001000 = Some 0"
    using bytes hello_untouched hello_memory by simp_all
  ultimately show ?thesis using run entry fixed hello_resolved by (simp add: hello_image_def)
qed

text \<open>C5: refinement. On a well-formed 64-bit executable without chained fixups the program is
  the composition of its parts: the commands of the file in order, then the binder, then the
  jump to the entry point; the loader never reports a failure, and the only fault \<open>main\<close> adds
  is the jump through a null entry point.\<close>

theorem main_runs_file:
  assumes "2 \<le> length args" and "host_open h (args ! 1) = Some bs" and "host_map_file h bs = Some a"
    and "map_file_ok h bs" and exe: "executable_file bs hdr cs" and cl: "classic cs"
    and mmap: "mmap_ok h (map_file Map.empty a (page_filled bs))"
  shows "main h args =
    res_bind (res_fold (walk_lcmd h) cs ((opened_context args a bs)\<lparr>ptr := a + 32\<rparr>)) (\<lambda>c1.
    res_bind (do_bind h c1) (\<lambda>(_, c2).
    if entry_point c2 = 0 then Fault (Bad_Access 0)
    else Ok (Entered (loader_diagnostics 0 c1) c2)))"
  using assms by (rule main_run)

lemma main_runs_file_witness:
  "main file_host [lit ''maloader'', lit ''a.out''] =
    res_bind (res_fold (walk_lcmd file_host) example_commands
      ((opened_context [lit ''maloader'', lit ''a.out''] 0x1000 example_file)\<lparr>ptr := 0x1020\<rparr>)) (\<lambda>c1.
    res_bind (do_bind file_host c1) (\<lambda>(_, c2).
    if entry_point c2 = 0 then Fault (Bad_Access 0)
    else Ok (Entered (loader_diagnostics 0 c1) c2)))"
proof -
  have "host_map_file file_host example_file = Some 0x1000"
    using example_lengths(2) by (auto simp: file_host_def example_host_def)
  moreover have "executable_file example_file example_header example_commands"
    using example_wf by (auto simp: executable_file_def example_file_def example_commands_def
        example_header_def INT_MAX_def)
  moreover have "mmap_ok file_host (map_file Map.empty 0x1000 (page_filled example_file))"
    by (rule example_host_mmap_ok) (simp_all add: file_host_def map_file_def length_page_filled_example)
  ultimately show ?thesis
    using main_runs_file [of "[lit ''maloader'', lit ''a.out'']" file_host example_file "0x1000"
        example_header example_commands] file_host_ok example_classic
    by (simp add: file_host_def)
qed

end
